(* ===== verification/Gxo_Prelude.thy ===== *)
theory Gxo_Prelude
  imports Main "HOL-Library.AList" "HOL-Library.Sublist" "HOL-Library.Multiset"
begin

text \<open>
  Shared vocabulary of the development: the lemma collections, Go's maps as association
  lists with distinct keys, the functions of Go's packages \<open>strings\<close> and \<open>fmt\<close> that the
  source uses, and generic lemmas on lists and maps.

  Go strings are byte strings; here they are \<open>string\<close>, that is \<open>char list\<close>, one character
  per byte. \<open>strings.ToLower\<close> and \<open>strings.TrimSpace\<close> are modelled on ASCII: a byte above 127
  is left as it is.
\<close>

named_theorems go_defs \<open>definitions of the model that proofs unfold\<close>
named_theorems go_inv \<open>preservation lemmas of the components' invariants\<close>

subsection \<open>Maps with an iteration order\<close>

text \<open>
  A Go map is an association list with distinct keys. The list's order stands for the order
  in which one \<open>range\<close> statement visits the entries, which Go leaves open; a function that
  ranges over a map takes an oracle that permutes the entries, and a property that holds for
  every permuting oracle holds for every order the runtime may choose.
\<close>

type_synonym 'v gomap = "(string \<times> 'v) list"

type_synonym 'a ranger = "nat \<Rightarrow> 'a list \<Rightarrow> 'a list"

definition permutes :: "'a ranger \<Rightarrow> bool" where
  "permutes rng \<longleftrightarrow> (\<forall>i xs. mset (rng i xs) = mset xs)"

definition in_order :: "'a ranger" where
  "in_order i xs = xs"

definition reversed :: "'a ranger" where
  "reversed i xs = rev xs"

lemma permutes_in_order [simp, intro]: "permutes in_order"
  by (simp add: permutes_def in_order_def)

lemma permutes_reversed [simp, intro]: "permutes reversed"
  by (simp add: permutes_def reversed_def)

lemma permutes_mset: "permutes rng \<Longrightarrow> mset (rng i xs) = mset xs"
  by (simp add: permutes_def)

lemma permutes_set [simp]: "permutes rng \<Longrightarrow> set (rng i xs) = set xs"
  by (metis permutes_mset set_mset_mset)

lemma permutes_length [simp]: "permutes rng \<Longrightarrow> length (rng i xs) = length xs"
  by (metis permutes_mset size_mset)

lemma permutes_distinct [simp]: "permutes rng \<Longrightarrow> distinct (rng i xs) = distinct xs"
  by (metis permutes_mset mset_eq_imp_distinct_iff)

definition keys :: "('k \<times> 'v) list \<Rightarrow> 'k list" where
  "keys m = map fst m"

definition gomap_ok :: "('k \<times> 'v) list \<Rightarrow> bool" where
  "gomap_ok m \<longleftrightarrow> distinct (map fst m)"

lemma keys_simps [simp]:
  "keys [] = []"
  "keys ((k, v) # m) = k # keys m"
  "keys (m @ m') = keys m @ keys m'"
  by (simp_all add: keys_def)

lemma set_keys: "set (keys m) = dom (map_of m)"
  by (simp add: keys_def dom_map_of_conv_image_fst)

lemma gomap_ok_Nil [simp]: "gomap_ok []"
  by (simp add: gomap_ok_def)

lemma gomap_ok_keys: "gomap_ok m \<longleftrightarrow> distinct (keys m)"
  by (simp add: gomap_ok_def keys_def)

lemma gomap_ok_update [simp]: "gomap_ok m \<Longrightarrow> gomap_ok (AList.update k v m)"
  by (simp add: gomap_ok_def distinct_update)

lemma gomap_ok_delete [simp]: "gomap_ok m \<Longrightarrow> gomap_ok (AList.delete k m)"
  by (simp add: gomap_ok_def distinct_delete)

lemma go_map_of_update [simp]: "map_of (AList.update k v m) = (map_of m)(k \<mapsto> v)"
  by (rule update_conv')

lemma go_map_of_delete [simp]: "map_of (AList.delete k m) = (map_of m)(k := None)"
  by (rule delete_conv')

lemma map_of_perm:
  assumes "gomap_ok m" and "mset m' = mset m"
  shows "map_of m' = map_of m"
proof -
  have "mset (map fst m') = mset (map fst m)" using assms(2) by (simp add: mset_map)
  then have d: "distinct (map fst m')" using assms(1)
    by (metis gomap_ok_def mset_eq_imp_distinct_iff)
  have "set m' = set m" using assms(2) by (metis set_mset_mset)
  then show ?thesis using d assms(1) by (metis gomap_ok_def map_of_inject_set)
qed

lemma gomap_ok_perm: "gomap_ok m \<Longrightarrow> mset m' = mset m \<Longrightarrow> gomap_ok m'"
  by (metis gomap_ok_def mset_eq_imp_distinct_iff mset_map)

end
