(* ===== verification/Gxo_Strings.thy ===== *)
theory Gxo_Strings
  imports Gxo_Prelude "HOL-Library.Char_ord"
begin

text \<open>
  The functions of Go's packages \<open>strings\<close> and \<open>fmt\<close> (\<open>%d\<close>) that the program calls,
  with the facts about them the components share: splitting and joining, the index of a
  substring, ASCII case folding and trimming, and the decimal rendering of a number with its
  inverse.
\<close>

subsection \<open>Characters\<close>

definition ord_char :: "char \<Rightarrow> nat" where
  "ord_char c = of_char c"

definition in_range :: "nat \<Rightarrow> nat \<Rightarrow> char \<Rightarrow> bool" where
  "in_range lo hi c \<longleftrightarrow> lo \<le> ord_char c \<and> ord_char c \<le> hi"

definition is_upper :: "char \<Rightarrow> bool" where
  "is_upper c \<longleftrightarrow> in_range 65 90 c"

definition is_lower :: "char \<Rightarrow> bool" where
  "is_lower c \<longleftrightarrow> in_range 97 122 c"

definition is_digit :: "char \<Rightarrow> bool" where
  "is_digit c \<longleftrightarrow> in_range 48 57 c"

definition is_space :: "char \<Rightarrow> bool" where
  "is_space c \<longleftrightarrow> ord_char c = 32 \<or> in_range 9 13 c"

definition newline :: char where
  "newline = CHR 0x0A"

subsection \<open>strings.ToLower, strings.TrimSpace\<close>

definition lower_char :: "char \<Rightarrow> char" where
  "lower_char c = (if is_upper c then char_of (ord_char c + 32) else c)"

definition to_lower :: "string \<Rightarrow> string" where
  "to_lower s = map lower_char s"

definition trim_left :: "string \<Rightarrow> string" where
  "trim_left s = dropWhile is_space s"

definition trim_space :: "string \<Rightarrow> string" where
  "trim_space s = rev (trim_left (rev (trim_left s)))"

lemma length_to_lower [simp]: "length (to_lower s) = length s"
  by (simp add: to_lower_def)

lemma to_lower_append [simp]: "to_lower (s @ t) = to_lower s @ to_lower t"
  by (simp add: to_lower_def)

lemma to_lower_Nil [simp]: "to_lower s = [] \<longleftrightarrow> s = []"
  by (simp add: to_lower_def)

lemma lower_char_idem [simp]: "lower_char (lower_char c) = lower_char c"
proof (cases "is_upper c")
  case True
  then have "ord_char c + 32 < 256" and "90 < ord_char c + 32"
    by (auto simp: is_upper_def in_range_def)
  then have "ord_char (char_of (ord_char c + 32)) = ord_char c + 32"
    by (simp add: ord_char_def)
  with \<open>90 < ord_char c + 32\<close> show ?thesis
    by (simp add: lower_char_def is_upper_def in_range_def)
qed (simp add: lower_char_def)

lemma to_lower_idem [simp]: "to_lower (to_lower s) = to_lower s"
  by (simp add: to_lower_def)

subsection \<open>strings.Index, strings.Contains, strings.HasPrefix, strings.HasSuffix\<close>

fun str_index :: "string \<Rightarrow> string \<Rightarrow> nat option" where
  "str_index s sub = (if prefix sub s then Some 0
     else case s of [] \<Rightarrow> None | c # s' \<Rightarrow> map_option Suc (str_index s' sub))"

declare str_index.simps [simp del]

abbreviation contains :: "string \<Rightarrow> string \<Rightarrow> bool" where
  "contains s sub \<equiv> sublist sub s"

lemma str_index_SomeD:
  "str_index s sub = Some i \<Longrightarrow> \<exists>t. s = take i s @ sub @ t \<and> length (take i s) = i"
proof (induction s arbitrary: i)
  case Nil
  then show ?case by (auto simp: str_index.simps split: if_splits)
next
  case (Cons c s)
  show ?case
  proof (cases "prefix sub (c # s)")
    case True
    with Cons.prems show ?thesis
      by (auto simp: str_index.simps [of "c # s"] prefix_def)
  next
    case False
    with Cons.prems obtain j where j: "str_index s sub = Some j" and i: "i = Suc j"
      by (auto simp: str_index.simps [of "c # s"])
    from Cons.IH [OF j] show ?thesis by (auto simp: i)
  qed
qed

lemma str_index_length: "str_index s sub = Some i \<Longrightarrow> i + length sub \<le> length s"
proof -
  assume "str_index s sub = Some i"
  then obtain t where t: "s = take i s @ sub @ t" "length (take i s) = i"
    using str_index_SomeD by blast
  have "length s = i + (length sub + length t)"
    by (subst t(1)) (simp only: length_append t(2))
  then show ?thesis by simp
qed

lemma str_index_None_iff: "str_index s sub = None \<longleftrightarrow> \<not> contains s sub"
proof (induction s)
  case Nil
  then show ?case by (auto simp: str_index.simps)
next
  case (Cons c s)
  then show ?case
    by (auto simp: str_index.simps [of "c # s"] sublist_Cons_right)
qed

lemma str_index_first:
  "str_index s sub = Some i \<Longrightarrow> j < i \<Longrightarrow> \<not> prefix sub (drop j s)"
proof (induction s arbitrary: i j)
  case Nil
  then show ?case by (auto simp: str_index.simps split: if_splits)
next
  case (Cons c s)
  then show ?case
    by (cases j) (auto simp: str_index.simps [of "c # s"] split: if_splits)
qed

subsection \<open>strings.Split by one character, strings.Join\<close>

fun split_on :: "char \<Rightarrow> string \<Rightarrow> string list" where
  "split_on c [] = [[]]"
| "split_on c (x # xs) =
     (if x = c then [] # split_on c xs
      else case split_on c xs of [] \<Rightarrow> [[x]] | p # ps \<Rightarrow> (x # p) # ps)"

fun join_str :: "string \<Rightarrow> string list \<Rightarrow> string" where
  "join_str sep [] = []"
| "join_str sep [s] = s"
| "join_str sep (s # t # ts) = s @ sep @ join_str sep (t # ts)"

lemma split_on_not_Nil [simp]: "split_on c s \<noteq> []"
  by (induction s) (auto split: list.splits)

lemma split_on_free: "c \<notin> set s \<Longrightarrow> split_on c s = [s]"
  by (induction s) auto

lemma split_on_append: "c \<notin> set p \<Longrightarrow> split_on c (p @ c # s) = p # split_on c s"
  by (induction p) auto

lemma join_split [simp]: "join_str [c] (split_on c s) = s"
proof (induction s)
  case (Cons x s)
  then show ?case by (cases "split_on c s"; cases "tl (split_on c s)") auto
qed simp

lemma split_on_parts: "p \<in> set (split_on c s) \<Longrightarrow> c \<notin> set p"
  by (induction s arbitrary: p) (auto split: list.splits if_splits)

lemma split_join:
  "ps \<noteq> [] \<Longrightarrow> \<forall>p \<in> set ps. c \<notin> set p \<Longrightarrow> split_on c (join_str [c] ps) = ps"
proof (induction "[c]" ps rule: join_str.induct)
  case (3 s t ts)
  then show ?case by (simp add: split_on_append)
qed (simp_all add: split_on_free)

lemma split_on_inject: "split_on c s = split_on c t \<longleftrightarrow> s = t"
  by (metis join_split)

subsection \<open>fmt's %d on a natural number\<close>

fun show_nat :: "nat \<Rightarrow> string" where
  "show_nat n = (if n < 10 then [char_of (48 + n)]
     else show_nat (n div 10) @ [char_of (48 + n mod 10)])"

declare show_nat.simps [simp del]

definition show_int :: "int \<Rightarrow> string" where
  "show_int i = (if i < 0 then CHR ''-'' # show_nat (nat (- i)) else show_nat (nat i))"

definition read_digits :: "string \<Rightarrow> nat" where
  "read_digits s = foldl (\<lambda>n c. 10 * n + (ord_char c - 48)) 0 s"

lemma ord_char_digit [simp]: "n < 10 \<Longrightarrow> ord_char (char_of (48 + n)) = 48 + n"
  by (simp add: ord_char_def)

lemma read_show_nat [simp]: "read_digits (show_nat n) = n"
proof (induction n rule: show_nat.induct)
  case (1 n)
  show ?case
  proof (cases "n < 10")
    case True
    then show ?thesis by (simp add: show_nat.simps [of n] read_digits_def)
  next
    case False
    with 1 show ?thesis
      by (simp add: show_nat.simps [of n] read_digits_def)
  qed
qed

lemma show_nat_inject [simp]: "show_nat m = show_nat n \<longleftrightarrow> m = n"
  by (metis read_show_nat)

lemma show_nat_not_Nil [simp]: "show_nat n \<noteq> []"
  by (subst show_nat.simps) simp

lemma show_nat_digits: "c \<in> set (show_nat n) \<Longrightarrow> is_digit c"
proof (induction n rule: show_nat.induct)
  case (1 n)
  then show ?case
    by (cases "n < 10")
      (auto simp: show_nat.simps [of n] is_digit_def in_range_def)
qed

end
