(* ===== verification/Gxo_Errors.thy ===== *)
theory Gxo_Errors
  imports Gxo_Strings
begin

text \<open>
  The error values of \<open>pkg/gxo/v1/errors/errors.go\<close> and of the packages \<open>errors\<close>, \<open>fmt\<close> and
  \<open>context\<close> the program mixes them with, with \<open>Error\<close>, \<open>Unwrap\<close>, \<open>errors.Is\<close>, \<open>errors.As\<close>
  and \<open>IsSkipped\<close>. A nil cause is \<open>None\<close>. An item id is kept as the text \<open>%v\<close> renders.
\<close>

datatype goerr =
    ConfigError string "goerr option"
  | ValidationError string "goerr option"
  | PolicyViolationError string string "goerr option"
  | TaskExecutionError string "goerr option"
  | ModuleNotFoundError string
  | SkippedError string
  | RecordProcessingError string "string option" "goerr option"
  | WrapError string goerr string  \<comment> \<open>fmt.Errorf with one %w: the text before it, the wrapped error, the text after\<close>
  | PlainError string              \<comment> \<open>errors.New, or fmt.Errorf without %w\<close>
  | Canceled                       \<comment> \<open>context.Canceled\<close>
  | DeadlineExceeded               \<comment> \<open>context.DeadlineExceeded\<close>

text \<open>Go's single quote, which Isabelle's string literals cannot hold directly.\<close>

definition sq :: string where
  "sq = [CHR 0x27]"

fun Error :: "goerr \<Rightarrow> string" where
  "Error (ConfigError m (Some c)) = ''configuration error: '' @ m @ '': '' @ Error c"
| "Error (ConfigError m None) = ''configuration error: '' @ m"
| "Error (ValidationError m (Some c)) = ''validation error: '' @ m @ '': '' @ Error c"
| "Error (ValidationError m None) = ''validation error: '' @ m"
| "Error (PolicyViolationError t r (Some c)) =
     ''policy violation ('' @ t @ ''): '' @ r @ '': '' @ Error c"
| "Error (PolicyViolationError t r None) = ''policy violation ('' @ t @ ''): '' @ r"
| "Error (TaskExecutionError t (Some c)) =
     (if t = [] then ''task execution failed: '' @ Error c
      else ''task '' @ sq @ t @ sq @ '' execution failed: '' @ Error c)"
| "Error (TaskExecutionError t None) =
     (if t = [] then ''task execution failed: <nil>''
      else ''task '' @ sq @ t @ sq @ '' execution failed: <nil>'')"
| "Error (ModuleNotFoundError m) = ''plugin module not found: '' @ m"
| "Error (SkippedError r) = (if r \<noteq> [] then ''task skipped: '' @ r else ''task skipped'')"
| "Error (RecordProcessingError t item (Some c)) =
     ''record processing error'' @ (if t \<noteq> [] then '' in task '' @ sq @ t @ sq else []) @
     '' for '' @ (case item of None \<Rightarrow> ''unknown item'' | Some i \<Rightarrow> ''item '' @ sq @ i @ sq) @
     '': '' @ Error c"
| "Error (RecordProcessingError t item None) =
     ''record processing error'' @ (if t \<noteq> [] then '' in task '' @ sq @ t @ sq else []) @
     '' for '' @ (case item of None \<Rightarrow> ''unknown item'' | Some i \<Rightarrow> ''item '' @ sq @ i @ sq) @
     '': <nil>''"
| "Error (WrapError before e after) = before @ Error e @ after"
| "Error (PlainError m) = m"
| "Error Canceled = ''context canceled''"
| "Error DeadlineExceeded = ''context deadline exceeded''"

fun Unwrap :: "goerr \<Rightarrow> goerr option" where
  "Unwrap (ConfigError m c) = c"
| "Unwrap (ValidationError m c) = c"
| "Unwrap (PolicyViolationError t r c) = c"
| "Unwrap (TaskExecutionError t c) = c"
| "Unwrap (RecordProcessingError t i c) = c"
| "Unwrap (WrapError b e a) = Some e"
| "Unwrap _ = None"

text \<open>The chain \<open>errors.Is\<close> and \<open>errors.As\<close> walk: the error, what it unwraps to, and so on.\<close>

lemma Unwrap_size [termination_simp]: "Unwrap e = Some c \<Longrightarrow> size c < size e"
  by (cases e) auto

fun err_chain :: "goerr \<Rightarrow> goerr list" where
  "err_chain e = e # (case Unwrap e of None \<Rightarrow> [] | Some c \<Rightarrow> err_chain c)"

declare err_chain.simps [simp del]

definition errors_Is :: "goerr \<Rightarrow> goerr \<Rightarrow> bool" where
  "errors_Is e target \<longleftrightarrow> target \<in> set (err_chain e)"

definition errors_As :: "(goerr \<Rightarrow> bool) \<Rightarrow> goerr \<Rightarrow> goerr option" where
  "errors_As p e = find p (err_chain e)"

fun is_SkippedError :: "goerr \<Rightarrow> bool" where
  "is_SkippedError (SkippedError r) = True"
| "is_SkippedError _ = False"

fun is_RecordProcessingError :: "goerr \<Rightarrow> bool" where
  "is_RecordProcessingError (RecordProcessingError t i c) = True"
| "is_RecordProcessingError _ = False"

definition IsSkipped :: "goerr \<Rightarrow> bool" where
  "IsSkipped e \<longleftrightarrow> errors_As is_SkippedError e \<noteq> None"

definition is_context_error :: "goerr \<Rightarrow> bool" where
  "is_context_error e \<longleftrightarrow> errors_Is e Canceled \<or> errors_Is e DeadlineExceeded"

subsection \<open>The chain of each constructor\<close>

lemma err_chain_None: "Unwrap e = None \<Longrightarrow> err_chain e = [e]"
  by (simp add: err_chain.simps)

lemma err_chain_Some: "Unwrap e = Some c \<Longrightarrow> err_chain e = e # err_chain c"
  by (simp add: err_chain.simps [of e])

lemma err_chain_con [simp]:
  "err_chain (ConfigError m c) = ConfigError m c # (case c of None \<Rightarrow> [] | Some x \<Rightarrow> err_chain x)"
  "err_chain (ValidationError m c) = ValidationError m c # (case c of None \<Rightarrow> [] | Some x \<Rightarrow> err_chain x)"
  "err_chain (PolicyViolationError t r c) =
     PolicyViolationError t r c # (case c of None \<Rightarrow> [] | Some x \<Rightarrow> err_chain x)"
  "err_chain (TaskExecutionError t c) = TaskExecutionError t c # (case c of None \<Rightarrow> [] | Some x \<Rightarrow> err_chain x)"
  "err_chain (RecordProcessingError t i c) =
     RecordProcessingError t i c # (case c of None \<Rightarrow> [] | Some x \<Rightarrow> err_chain x)"
  "err_chain (WrapError b e a) = WrapError b e a # err_chain e"
  "err_chain (ModuleNotFoundError n) = [ModuleNotFoundError n]"
  "err_chain (SkippedError n) = [SkippedError n]"
  "err_chain (PlainError n) = [PlainError n]"
  "err_chain Canceled = [Canceled]"
  "err_chain DeadlineExceeded = [DeadlineExceeded]"
  by (simp_all add: err_chain.simps [of "ConfigError m c"] err_chain.simps [of "ValidationError m c"]
      err_chain.simps [of "PolicyViolationError t r c"] err_chain.simps [of "TaskExecutionError t c"]
      err_chain.simps [of "RecordProcessingError t i c"] err_chain.simps [of "WrapError b e a"] err_chain_None)

lemma errors_Is_simps [simp]:
  "errors_Is (WrapError b e a) t \<longleftrightarrow> t = WrapError b e a \<or> errors_Is e t"
  "errors_Is (PlainError m) t \<longleftrightarrow> t = PlainError m"
  "errors_Is (SkippedError m) t \<longleftrightarrow> t = SkippedError m"
  "errors_Is (ConfigError m (Some c)) t \<longleftrightarrow> t = ConfigError m (Some c) \<or> errors_Is c t"
  "errors_Is (ConfigError m None) t \<longleftrightarrow> t = ConfigError m None"
  "errors_Is Canceled t \<longleftrightarrow> t = Canceled"
  "errors_Is DeadlineExceeded t \<longleftrightarrow> t = DeadlineExceeded"
  by (auto simp: errors_Is_def)

lemma IsSkipped_chain: "IsSkipped e \<longleftrightarrow> (\<exists>x \<in> set (err_chain e). is_SkippedError x)"
  by (auto simp: IsSkipped_def errors_As_def find_None_iff)

lemma IsSkipped_simps [simp]:
  "IsSkipped (SkippedError r)"
  "\<not> IsSkipped (PlainError m)"
  "\<not> IsSkipped Canceled"
  "\<not> IsSkipped DeadlineExceeded"
  "\<not> IsSkipped (ModuleNotFoundError m)"
  "IsSkipped (WrapError b e a) \<longleftrightarrow> IsSkipped e"
  "IsSkipped (ConfigError m c) \<longleftrightarrow> (case c of None \<Rightarrow> False | Some x \<Rightarrow> IsSkipped x)"
  "IsSkipped (TaskExecutionError m c) \<longleftrightarrow> (case c of None \<Rightarrow> False | Some x \<Rightarrow> IsSkipped x)"
  by (auto simp: IsSkipped_chain split: option.splits)

end
