(* ===== verification/Gxo_Redact.thy ===== *)
theory Gxo_Redact
  imports Gxo_Errors
begin

text \<open>
  Keyword redaction of log lines and errors: \<open>RedactSecretsInString\<close> and
  \<open>RedactSecretsInError\<close> of \<open>internal/template/funcs.go\<close> (and the copy of the first in
  \<open>internal/tracing/tracing.go\<close>). The keyword set is a Go map: the oracle \<open>rng\<close> gives the
  order in which the \<open>range\<close> over it visits the keywords on the \<open>i\<close>-th line.
\<close>

definition redacted_mark :: string where
  "redacted_mark = ''[REDACTED]''"

definition is_sep :: "char \<Rightarrow> bool" where
  "is_sep c \<longleftrightarrow> c = CHR '':'' \<or> c = CHR ''='' \<or> c = CHR '' '' \<or> c = CHR 0x27 \<or> c = CHR 0x22"

text \<open>The inner loop that advances \<open>redactStart\<close> over the separators.\<close>

function skip_seps :: "string \<Rightarrow> nat \<Rightarrow> nat" where
  "skip_seps line i = (if i < length line \<and> is_sep (line ! i) then skip_seps line (Suc i) else i)"
  by pat_completeness auto
termination
  by (relation "measure (\<lambda>(line, i). length line - i)") auto

declare skip_seps.simps [simp del]

text \<open>Where the value after a keyword starts, when the line has one.\<close>

definition value_start :: "string \<Rightarrow> string \<Rightarrow> nat option" where
  "value_start line keyword =
     (case str_index (to_lower line) keyword of
        None \<Rightarrow> None
      | Some idx \<Rightarrow>
          (let redactStart = skip_seps line (idx + length keyword)
           in if redactStart < length line then Some redactStart else None))"

fun redact_line :: "string list \<Rightarrow> string \<Rightarrow> string \<times> bool" where
  "redact_line [] line = (line, False)"
| "redact_line (keyword # ks) line =
     (case value_start line keyword of
        Some redactStart \<Rightarrow> (take redactStart line @ redacted_mark, True)
      | None \<Rightarrow> redact_line ks line)"

definition RedactSecretsInString :: "string ranger \<Rightarrow> string list \<Rightarrow> string \<Rightarrow> string" where
  "RedactSecretsInString rng keywords input =
     (if keywords = [] \<or> input = [] then input
      else let lines = split_on newline input;
               outs = map (\<lambda>(i, line). redact_line (rng i keywords) line) (List.enumerate 0 lines)
           in if \<exists>o' \<in> set outs. snd o' then join_str [newline] (map fst outs) else input)"

definition RedactSecretsInError :: "string ranger \<Rightarrow> string list \<Rightarrow> goerr \<Rightarrow> goerr" where
  "RedactSecretsInError rng keywords err =
     (if keywords = [] then err
      else let redactedMsg = RedactSecretsInString rng keywords (Error err)
           in if Error err \<noteq> redactedMsg then PlainError redactedMsg else err)"

subsection \<open>The separator loop\<close>

lemma skip_seps_eq: "skip_seps line i = i + length (takeWhile is_sep (drop i line))"
proof (induction line i rule: skip_seps.induct)
  case (1 line i)
  show ?case
  proof (cases "i < length line \<and> is_sep (line ! i)")
    case True
    then have "drop i line = line ! i # drop (Suc i) line" by (simp add: Cons_nth_drop_Suc)
    with True 1 show ?thesis by (simp add: skip_seps.simps [of line i])
  next
    case False
    then have "takeWhile is_sep (drop i line) = []"
      by (cases "drop i line") (auto simp: drop_eq_Nil nth_via_drop)
    with False show ?thesis by (auto simp: skip_seps.simps [of line i])
  qed
qed

lemma value_start_SomeD:
  assumes "value_start line k = Some s"
  obtains i where "str_index (to_lower line) k = Some i" and "i + length k \<le> s" and "s < length line"
    and "\<forall>c \<in> set (drop (i + length k) (take s line)). is_sep c" and "\<not> is_sep (line ! s)"
proof -
  from assms obtain i where i: "str_index (to_lower line) k = Some i"
    and s: "s = skip_seps line (i + length k)" and len: "s < length line"
    by (auto simp: value_start_def Let_def split: option.splits if_splits)
  let ?d = "drop (i + length k) line" and ?w = "takeWhile is_sep (drop (i + length k) line)"
  have s': "s = i + length k + length ?w" using s by (simp add: skip_seps_eq)
  have "drop (i + length k) (take s line) = take (length ?w) ?d" by (simp add: s' drop_take)
  also have "\<dots> = ?w" by (metis takeWhile_eq_take)
  finally have seps: "\<forall>c \<in> set (drop (i + length k) (take s line)). is_sep c"
    by (auto dest: set_takeWhileD)
  have "length ?w < length ?d" using len s' by simp
  then have "\<not> is_sep (?d ! length ?w)" by (rule nth_length_takeWhile)
  moreover have "?d ! length ?w = line ! s" using len s' by simp
  ultimately have "\<not> is_sep (line ! s)" by simp
  with i s' len seps show thesis by (intro that [of i]) simp_all
qed

lemma value_start_less: "value_start line k = Some s \<Longrightarrow> s < length line"
  by (erule value_start_SomeD)

subsection \<open>One line\<close>

definition line_redacted_by :: "string list \<Rightarrow> string \<Rightarrow> string \<Rightarrow> bool" where
  "line_redacted_by ks line out \<longleftrightarrow>
     (out = line \<and> (\<forall>k \<in> set ks. value_start line k = None)) \<or>
     (\<exists>k \<in> set ks. \<exists>s. value_start line k = Some s \<and> out = take s line @ redacted_mark)"

lemma redact_line_spec:
  "line_redacted_by ks line (fst (redact_line ks line)) \<and>
   (snd (redact_line ks line) \<longleftrightarrow> (\<exists>k \<in> set ks. value_start line k \<noteq> None))"
  by (induction ks) (auto simp: line_redacted_by_def split: option.splits)

lemma redact_line_id: "\<not> snd (redact_line ks line) \<Longrightarrow> fst (redact_line ks line) = line"
  by (induction ks) (auto split: option.splits)

lemma redact_line_newline:
  "newline \<notin> set line \<Longrightarrow> newline \<notin> set (fst (redact_line ks line))"
  by (induction ks)
    (auto simp: redacted_mark_def newline_def dest: in_set_takeD split: option.splits)

lemma line_redacted_by_perm:
  "set ks = set ks' \<Longrightarrow> line_redacted_by ks line out = line_redacted_by ks' line out"
  by (simp add: line_redacted_by_def)

subsection \<open>All lines\<close>

definition redacted_lines :: "string ranger \<Rightarrow> string list \<Rightarrow> string list \<Rightarrow> string list" where
  "redacted_lines rng keywords lines =
     map (\<lambda>(i, line). fst (redact_line (rng i keywords) line)) (List.enumerate 0 lines)"

lemma length_redacted_lines [simp]: "length (redacted_lines rng ks ls) = length ls"
  by (simp add: redacted_lines_def)

lemma redacted_lines_nth:
  "i < length ls \<Longrightarrow> redacted_lines rng ks ls ! i = fst (redact_line (rng i ks) (ls ! i))"
  by (simp add: redacted_lines_def nth_enumerate_eq)

lemma redacted_lines_id:
  assumes "\<forall>i < length ls. \<not> snd (redact_line (rng i ks) (ls ! i))"
  shows "redacted_lines rng ks ls = ls"
  using assms by (intro nth_equalityI) (simp_all add: redacted_lines_nth redact_line_id)

lemma RedactSecretsInString_lines:
  assumes "keywords \<noteq> []" and "input \<noteq> []"
  shows "RedactSecretsInString rng keywords input =
    join_str [newline] (redacted_lines rng keywords (split_on newline input))"
proof -
  let ?ls = "split_on newline input"
  let ?outs = "map (\<lambda>(i, line). redact_line (rng i keywords) line) (List.enumerate 0 ?ls)"
  have outs: "map fst ?outs = redacted_lines rng keywords ?ls"
    by (simp add: redacted_lines_def case_prod_beta comp_def)
  show ?thesis
  proof (cases "\<exists>o' \<in> set ?outs. snd o'")
    case True
    with assms outs show ?thesis by (simp add: RedactSecretsInString_def Let_def)
  next
    case False
    have "\<not> snd (redact_line (rng i keywords) (?ls ! i))" if "i < length ?ls" for i
    proof -
      have "redact_line (rng i keywords) (?ls ! i) = ?outs ! i"
        using that by (simp add: nth_enumerate_eq)
      then have "redact_line (rng i keywords) (?ls ! i) \<in> set ?outs"
        using that by (metis length_enumerate length_map nth_mem)
      with False show ?thesis by blast
    qed
    then have "redacted_lines rng keywords ?ls = ?ls" by (intro redacted_lines_id) simp
    with assms False show ?thesis by (simp add: RedactSecretsInString_def Let_def)
  qed
qed

lemma RedactSecretsInString_split:
  assumes "keywords \<noteq> []" and "input \<noteq> []"
  shows "split_on newline (RedactSecretsInString rng keywords input) =
    redacted_lines rng keywords (split_on newline input)"
proof -
  let ?ls = "split_on newline input"
  have "newline \<notin> set l" if "l \<in> set (redacted_lines rng keywords ?ls)" for l
  proof -
    from that obtain i where "i < length ?ls" and l: "l = redacted_lines rng keywords ?ls ! i"
      by (metis in_set_conv_nth length_redacted_lines)
    moreover from this have "newline \<notin> set (?ls ! i)" by (meson nth_mem split_on_parts)
    ultimately show ?thesis by (simp add: redacted_lines_nth redact_line_newline)
  qed
  moreover have "redacted_lines rng keywords ?ls \<noteq> []"
    by (metis length_0_conv length_redacted_lines split_on_not_Nil)
  ultimately show ?thesis
    using assms by (simp add: RedactSecretsInString_lines split_join)
qed

lemma RedactSecretsInString_Nil [simp]:
  "RedactSecretsInString rng [] input = input"
  "RedactSecretsInString rng ks [] = []"
  by (simp_all add: RedactSecretsInString_def)

text \<open>Which value is cut is left to the map's order: with two keywords on a line one order hides a
  value that the other order prints.\<close>

theorem redaction_depends_on_order:
  "RedactSecretsInString in_order [''token'', ''password''] ''password=p1 token=t1'' = ''password=p1 token=[REDACTED]'' \<and>
   RedactSecretsInString reversed [''token'', ''password''] ''password=p1 token=t1'' = ''password=[REDACTED]''"
  by code_simp

end
