(* ===== verification/Gxo_Values.thy ===== *)
theory Gxo_Values
  imports Complex_Main Gxo_Errors
begin

text \<open>
  The values of Go's \<open>interface{}\<close> the program handles: what YAML decoding, modules and the
  template engine produce. A map is an association list with distinct keys. Integer kinds keep
  their width, because several functions switch on the dynamic type. A float is a rational, an
  infinity or NaN. \<open>VOpaque\<close> is a value of any other Go type, known by the name of its type.
\<close>

datatype intkind = KInt | KInt8 | KInt16 | KInt32 | KInt64
  | KUint | KUint8 | KUint16 | KUint32 | KUint64

datatype floatkind = KFloat32 | KFloat64

datatype gofloat = FNum rat | FPosInf | FNegInf | FNaN

datatype goval =
    VNil
  | VBool bool
  | VInt intkind int
  | VFloat floatkind gofloat
  | VStr string
  | VMap "(string \<times> goval) list"         \<comment> \<open>map[string]interface{}, not nil\<close>
  | VNilMap                                \<comment> \<open>a nil map[string]interface{}\<close>
  | VSlice "goval list"                    \<comment> \<open>[]interface{}, not nil\<close>
  | VNilSlice                              \<comment> \<open>a nil []interface{}\<close>
  | VStrs "string list"                    \<comment> \<open>[]string\<close>
  | VAnyMap "(goval \<times> goval) list"        \<comment> \<open>map[interface{}]interface{}\<close>
  | VOpaque string

text \<open>\<open>fmt\<close>'s \<open>%T\<close>: the name of a value's dynamic type.\<close>

fun intkind_name :: "intkind \<Rightarrow> string" where
  "intkind_name KInt = ''int''"
| "intkind_name KInt8 = ''int8''"
| "intkind_name KInt16 = ''int16''"
| "intkind_name KInt32 = ''int32''"
| "intkind_name KInt64 = ''int64''"
| "intkind_name KUint = ''uint''"
| "intkind_name KUint8 = ''uint8''"
| "intkind_name KUint16 = ''uint16''"
| "intkind_name KUint32 = ''uint32''"
| "intkind_name KUint64 = ''uint64''"

fun type_name :: "goval \<Rightarrow> string" where
  "type_name VNil = ''<nil>''"
| "type_name (VBool b) = ''bool''"
| "type_name (VInt k i) = intkind_name k"
| "type_name (VFloat KFloat32 f) = ''float32''"
| "type_name (VFloat KFloat64 f) = ''float64''"
| "type_name (VStr s) = ''string''"
| "type_name (VMap m) = ''map[string]interface {}''"
| "type_name VNilMap = ''map[string]interface {}''"
| "type_name (VSlice xs) = ''[]interface {}''"
| "type_name VNilSlice = ''[]interface {}''"
| "type_name (VStrs xs) = ''[]string''"
| "type_name (VAnyMap m) = ''map[interface {}]interface {}''"
| "type_name (VOpaque t) = t"

text \<open>A params map, a stored record, a template's data: \<open>map[string]interface{}\<close>.\<close>

type_synonym params = "goval gomap"

text \<open>The strings a value holds where redaction and templates reach them: string values, at any
  depth of generic maps and slices (not the keys of a map).\<close>

fun strings_in :: "goval \<Rightarrow> string set" where
  "strings_in (VStr s) = {s}"
| "strings_in (VMap m) = (\<Union>(k, v) \<in> set m. strings_in v)"
| "strings_in (VSlice xs) = (\<Union>v \<in> set xs. strings_in v)"
| "strings_in _ = {}"

text \<open>The shape of a value: the value with every string blanked.\<close>

fun shape :: "goval \<Rightarrow> goval" where
  "shape (VStr s) = VStr []"
| "shape (VMap m) = VMap (map (\<lambda>(k, v). (k, shape v)) m)"
| "shape (VSlice xs) = VSlice (map shape xs)"
| "shape VNilMap = VNil"
| "shape VNilSlice = VNil"
| "shape v = v"

end
