(* ===== verification/Gxo_Secrets.thy ===== *)
theory Gxo_Secrets
  imports Gxo_Values
begin

text \<open>
  The per-task secret tracker (\<open>internal/secrets/tracker.go\<close>), the template function \<open>secret\<close>
  that feeds it (\<open>internal/template/funcs.go\<close>) and the redaction of a task's summary before it
  is registered (\<open>internal/template/redaction.go\<close>).
\<close>

subsection \<open>SecretTracker\<close>

record SecretTracker =
  resolvedSecrets :: "string list"  \<comment> \<open>the keys of the map used as a set\<close>

definition NewSecretTracker :: SecretTracker where
  "NewSecretTracker = \<lparr>resolvedSecrets = []\<rparr>"

definition tracker_Add :: "string \<Rightarrow> SecretTracker \<Rightarrow> SecretTracker" where
  "tracker_Add secretValue t =
     (if secretValue = [] then t
      else t\<lparr>resolvedSecrets := List.insert secretValue (resolvedSecrets t)\<rparr>)"

definition IsTracked :: "SecretTracker \<Rightarrow> string \<Rightarrow> bool" where
  "IsTracked t value' = (if value' = [] then False else value' \<in> set (resolvedSecrets t))"

definition ContainsTrackedSecret :: "SecretTracker \<Rightarrow> string \<Rightarrow> bool" where
  "ContainsTrackedSecret t input =
     (if input = [] then False
      else if resolvedSecrets t = [] then False
      else list_ex (\<lambda>secret. contains input secret) (resolvedSecrets t))"

text \<open>The contract of a tracker, over the set of secrets it holds.\<close>

locale secret_tracker =
  fixes new :: 't
    and add :: "string \<Rightarrow> 't \<Rightarrow> 't"
    and tracked :: "'t \<Rightarrow> string \<Rightarrow> bool"
    and holds :: "'t \<Rightarrow> string \<Rightarrow> bool"
    and secrets :: "'t \<Rightarrow> string set"
  assumes secrets_new: "secrets new = {}"
    and secrets_add: "secrets (add s t) = (if s = [] then secrets t else insert s (secrets t))"
    and tracked_iff: "tracked t s \<longleftrightarrow> s \<noteq> [] \<and> s \<in> secrets t"
    and holds_iff: "holds t s \<longleftrightarrow> s \<noteq> [] \<and> (\<exists>x \<in> secrets t. contains s x)"
begin

lemma holds_added: "s \<noteq> [] \<Longrightarrow> contains input s \<Longrightarrow> holds (add s t) input"
  by (auto simp: holds_iff secrets_add)

lemma holds_add_mono: "holds t input \<Longrightarrow> holds (add s t) input"
  by (auto simp: holds_iff secrets_add)

lemma secrets_fold: "secrets (fold add ss t) = secrets t \<union> (set ss - {[]})"
  by (induction ss arbitrary: t) (auto simp: secrets_add)

lemma holds_fold_iff:
  "holds (fold add ss new) input \<longleftrightarrow> (\<exists>s \<in> set ss. s \<noteq> [] \<and> contains input s)"
  by (auto simp: holds_iff secrets_fold secrets_new)

lemma tracked_holds: "tracked t s \<Longrightarrow> holds t s"
  by (auto simp: tracked_iff holds_iff)

lemma holds_longer: "holds t s \<Longrightarrow> contains input s \<Longrightarrow> holds t input"
  by (auto simp: holds_iff dest: sublist_order.order.trans)

end

interpretation st: secret_tracker NewSecretTracker tracker_Add IsTracked ContainsTrackedSecret
  "\<lambda>t. set (resolvedSecrets t)"
  by unfold_locales
    (auto simp: NewSecretTracker_def tracker_Add_def IsTracked_def ContainsTrackedSecret_def list_ex_iff)

subsection \<open>Redaction of a summary\<close>

definition RedactedSecretValue :: string where
  "RedactedSecretValue = ''[REDACTED_SECRET]''"

text \<open>Each case builds a new map or slice; a map's entries do not depend on the visiting order.\<close>

fun redactRecursive :: "SecretTracker \<Rightarrow> goval \<Rightarrow> goval \<times> bool" where
  "redactRecursive t VNil = (VNil, False)"
| "redactRecursive t (VStr v) =
     (if ContainsTrackedSecret t v then (VStr RedactedSecretValue, True) else (VStr v, False))"
| "redactRecursive t VNilMap = (VNil, False)"
| "redactRecursive t (VMap v) =
     (let rs = map (\<lambda>(key, val). (key, redactRecursive t val)) v
      in (VMap (map (\<lambda>(key, r). (key, fst r)) rs), list_ex (\<lambda>(key, r). snd r) rs))"
| "redactRecursive t VNilSlice = (VNil, False)"
| "redactRecursive t (VSlice v) =
     (let rs = map (redactRecursive t) v in (VSlice (map fst rs), list_ex snd rs))"
| "redactRecursive t data = (data, False)"

definition RedactTrackedSecrets :: "goval \<Rightarrow> SecretTracker option \<Rightarrow> goval \<times> bool" where
  "RedactTrackedSecrets data tracker =
     (if data = VNil then (data, False)
      else case tracker of None \<Rightarrow> (data, False) | Some t \<Rightarrow> redactRecursive t data)"

text \<open>The two cases with parts, with the induction hypothesis over the parts.\<close>

lemma redact_flag_VMap:
  assumes "\<And>p. p \<in> set m \<Longrightarrow> snd (redactRecursive t (snd p)) = (\<exists>s \<in> strings_in (snd p). Q s)"
  shows "snd (redactRecursive t (VMap m)) = (\<exists>s \<in> strings_in (VMap m). Q s)"
  using assms by (simp add: list_ex_iff case_prod_beta)

lemma redact_flag_VSlice:
  assumes "\<And>v. v \<in> set vs \<Longrightarrow> snd (redactRecursive t v) = (\<exists>s \<in> strings_in v. Q s)"
  shows "snd (redactRecursive t (VSlice vs)) = (\<exists>s \<in> strings_in (VSlice vs). Q s)"
  using assms by (simp add: list_ex_iff)

lemma redactRecursive_flag:
  "snd (redactRecursive t v) \<longleftrightarrow> (\<exists>s \<in> strings_in v. ContainsTrackedSecret t s)"
proof (induction v)
  case (VMap m)
  show ?case by (rule redact_flag_VMap) (simp add: VMap.IH snds.intros)
next
  case (VSlice vs)
  show ?case by (rule redact_flag_VSlice) (rule VSlice.IH)
qed auto

lemma UN_replaced:
  "(\<Union>x \<in> A. {s \<in> f x. \<not> Q s} \<union> (if \<exists>s \<in> f x. Q s then {r} else {})) =
     {s \<in> (\<Union>x \<in> A. f x). \<not> Q s} \<union> (if \<exists>s \<in> (\<Union>x \<in> A. f x). Q s then {r} else {})"
proof -
  have "(\<Union>x \<in> A. if \<exists>s \<in> f x. Q s then {r} else {}) = (if \<exists>s \<in> (\<Union>x \<in> A. f x). Q s then {r} else {})"
    by (cases "\<exists>s \<in> (\<Union>x \<in> A. f x). Q s") auto
  then show ?thesis by (subst UN_Un_distrib) blast
qed

lemma strings_in_VMap: "strings_in (VMap m) = (\<Union>p \<in> set m. strings_in (snd p))"
  by (simp add: case_prod_beta)

lemma strings_in_redacted_VMap:
  "strings_in (fst (redactRecursive t (VMap m))) = (\<Union>p \<in> set m. strings_in (fst (redactRecursive t (snd p))))"
  by (simp add: case_prod_beta)

lemma strings_in_redacted_VSlice:
  "strings_in (fst (redactRecursive t (VSlice vs))) = (\<Union>v \<in> set vs. strings_in (fst (redactRecursive t v)))"
  by simp

lemma redactRecursive_strings:
  "strings_in (fst (redactRecursive t v)) =
     {s \<in> strings_in v. \<not> ContainsTrackedSecret t s} \<union>
     (if \<exists>s \<in> strings_in v. ContainsTrackedSecret t s then {RedactedSecretValue} else {})"
proof (induction v)
  case (VMap m)
  have "strings_in (fst (redactRecursive t (snd p))) =
     {s \<in> strings_in (snd p). \<not> ContainsTrackedSecret t s} \<union>
     (if \<exists>s \<in> strings_in (snd p). ContainsTrackedSecret t s then {RedactedSecretValue} else {})"
    if "p \<in> set m" for p
    using that by (intro VMap.IH [of p]) (simp_all add: snds.intros)
  then show ?case
    unfolding strings_in_redacted_VMap UN_replaced [symmetric] strings_in_VMap by (rule SUP_cong [OF refl])
next
  case (VSlice vs)
  then show ?case
    unfolding strings_in_redacted_VSlice UN_replaced [symmetric] strings_in.simps by (rule SUP_cong [OF refl])
qed auto

lemma redactRecursive_shape: "shape (fst (redactRecursive t v)) = shape v"
proof (induction v)
  case (VMap m)
  have "shape (fst (redactRecursive t (snd p))) = shape (snd p)" if "p \<in> set m" for p
    using that by (intro VMap.IH [of p]) (simp_all add: snds.intros)
  then show ?case by (simp add: case_prod_beta)
qed auto

subsection \<open>The template function secret\<close>

text \<open>
  \<open>createSecretFunc\<close> closes over the provider, the bus and the tracker; here the provider is the
  argument (an interface), and the keys of the \<open>SecretAccessed\<close> events and the tracker are the
  state. \<open>emits\<close> says whether a bus was given. The provider's answer is an error, not found or a
  value. The 10-second context only bounds the provider call.
\<close>

record secret_env =
  se_accessed :: "string list"
  se_tracker :: "SecretTracker option"

definition createSecretFunc ::
    "(string \<Rightarrow> goerr + string option) \<Rightarrow> bool \<Rightarrow> string \<Rightarrow> secret_env \<Rightarrow> (goerr + string) \<times> secret_env" where
  "createSecretFunc provider emits key s =
     (case provider key of
        Inl err \<Rightarrow> (Inl (WrapError (''failed to retrieve secret '' @ sq @ key @ sq @ '': '') err []), s)
      | Inr None \<Rightarrow> (Inl (PlainError (''secret '' @ sq @ key @ sq @ '' not found'')), s)
      | Inr (Some value') \<Rightarrow>
          (Inr value',
           (if emits then s\<lparr>se_accessed := se_accessed s @ [key]\<rparr> else s)
             \<lparr>se_tracker := map_option (tracker_Add value') (se_tracker s)\<rparr>))"

lemma fold_tracker_holds:
  "ContainsTrackedSecret (fold tracker_Add vs NewSecretTracker) s \<longleftrightarrow> (\<exists>x \<in> set vs. x \<noteq> [] \<and> contains s x)"
  by (rule st.holds_fold_iff)

text \<open>Resolving a list of keys, as one task's templates do; the first failure stops.\<close>

fun resolve_secrets ::
    "(string \<Rightarrow> goerr + string option) \<Rightarrow> bool \<Rightarrow> string list \<Rightarrow> secret_env \<Rightarrow> (goerr + string list) \<times> secret_env" where
  "resolve_secrets provider emits [] s = (Inr [], s)"
| "resolve_secrets provider emits (key # rest) s =
     (case createSecretFunc provider emits key s of
        (Inl e, s') \<Rightarrow> (Inl e, s')
      | (Inr v, s') \<Rightarrow>
          (case resolve_secrets provider emits rest s' of
             (Inl e, s'') \<Rightarrow> (Inl e, s'')
           | (Inr vs, s'') \<Rightarrow> (Inr (v # vs), s'')))"

lemma createSecretFunc_tracks:
  "createSecretFunc provider emits key s = (Inr v, s') \<Longrightarrow> se_tracker s = Some t \<Longrightarrow>
     se_tracker s' = Some (tracker_Add v t)"
  by (auto simp: createSecretFunc_def split: sum.splits option.splits)

lemma resolve_secrets_tracker:
  "resolve_secrets provider emits ks s = (Inr vs, s') \<Longrightarrow> se_tracker s = Some t \<Longrightarrow>
     se_tracker s' = Some (fold tracker_Add vs t)"
proof (induction ks arbitrary: s t vs)
  case Nil
  then show ?case by auto
next
  case (Cons k ks)
  from Cons.prems obtain v s1 vs' where
    step: "createSecretFunc provider emits k s = (Inr v, s1)"
    and rest: "resolve_secrets provider emits ks s1 = (Inr vs', s')" and vs: "vs = v # vs'"
    by (auto split: prod.splits sum.splits)
  from createSecretFunc_tracks [OF step Cons.prems(2)] Cons.IH [OF rest]
  show ?case by (simp add: vs)
qed

end
