(* ===== verification/Gxo_Template.thy ===== *)
theory Gxo_Template
  imports Gxo_Secrets
begin

text \<open>
  The template renderer's own logic (\<open>internal/template/template.go\<close>): variable extraction over
  the parse tree, its cache, path lookup and the shortcut of \<open>Resolve\<close>. The parser and the
  executor of Go's \<open>text/template\<close> are arguments: \<open>parse\<close> takes the function names known to
  the parser and the template text and gives the root of the tree, or nothing on a parse error;
  \<open>exec\<close> gives the rendered text or an error.
\<close>

definition GxoStateKeyPrefix :: string where
  "GxoStateKeyPrefix = ''_gxo''"

subsection \<open>Parse trees\<close>

text \<open>
  The node types of \<open>text/template/parse\<close> the source tells apart. A pipeline is the list of its
  commands' arguments. A missing \<open>else\<close> branch is \<open>NilList\<close> (a typed nil pointer); literals,
  text and every other node are \<open>OtherNode\<close>.
\<close>

datatype tnode =
    ListNode "tnode list"
  | NilList
  | ActionNode tnode
  | IfNode tnode tnode tnode
  | RangeNode tnode tnode tnode
  | WithNode tnode tnode tnode
  | PipeNode "tnode list list"
  | TemplateNode
  | FieldNode "string list"
  | ChainNode tnode "string list"
  | VariableNode
  | DotNode
  | IdentifierNode string
  | OtherNode

text \<open>The keys of \<open>GetFuncMap\<close>: \<open>secret\<close> is there when a secrets provider is.\<close>

definition GetFuncMap :: "bool \<Rightarrow> string list" where
  "GetFuncMap has_provider = [''env'', ''eq''] @ (if has_provider then [''secret''] else [])"

fun getFullVarPath :: "string list \<Rightarrow> tnode \<Rightarrow> string" where
  "getFullVarPath funcMap (FieldNode ident) =
     (case ident of [] \<Rightarrow> []
      | firstIdent # _ \<Rightarrow> if firstIdent \<notin> set funcMap then join_str ''.'' ident else [])"
| "getFullVarPath funcMap (ChainNode (FieldNode ident) fs) = getFullVarPath funcMap (FieldNode ident)"
| "getFullVarPath funcMap (ChainNode (IdentifierNode i) fs) = getFullVarPath funcMap (IdentifierNode i)"
| "getFullVarPath funcMap (IdentifierNode i) = (if i \<notin> set funcMap then i else [])"
| "getFullVarPath funcMap _ = []"

text \<open>
  The recursion adds to a map used as a set; here it lists what it adds, in the order of the
  walk. The node's own path comes first.
\<close>

definition ownVar :: "string list \<Rightarrow> tnode \<Rightarrow> string list" where
  "ownVar fm node = (let fullPath = getFullVarPath fm node in if fullPath \<noteq> [] then [fullPath] else [])"

fun extractNodeVariablesRecursive :: "string list \<Rightarrow> tnode \<Rightarrow> string list" where
  "extractNodeVariablesRecursive fm (ListNode ns) =
     ownVar fm (ListNode ns) @ concat (map (extractNodeVariablesRecursive fm) ns)"
| "extractNodeVariablesRecursive fm (ActionNode p) =
     ownVar fm (ActionNode p) @ extractNodeVariablesRecursive fm p"
| "extractNodeVariablesRecursive fm (IfNode p l e) =
     ownVar fm (IfNode p l e) @ extractNodeVariablesRecursive fm p @
     extractNodeVariablesRecursive fm l @ extractNodeVariablesRecursive fm e"
| "extractNodeVariablesRecursive fm (RangeNode p l e) =
     ownVar fm (RangeNode p l e) @ extractNodeVariablesRecursive fm p @
     extractNodeVariablesRecursive fm l @ extractNodeVariablesRecursive fm e"
| "extractNodeVariablesRecursive fm (WithNode p l e) =
     ownVar fm (WithNode p l e) @ extractNodeVariablesRecursive fm p @
     extractNodeVariablesRecursive fm l @ extractNodeVariablesRecursive fm e"
| "extractNodeVariablesRecursive fm (PipeNode cmds) =
     ownVar fm (PipeNode cmds) @
     concat (map (\<lambda>args. concat (map (extractNodeVariablesRecursive fm) args)) cmds)"
| "extractNodeVariablesRecursive fm node = ownVar fm node"

subsection \<open>ExtractVariables and its cache\<close>

type_synonym parser = "string list \<Rightarrow> string \<Rightarrow> tnode option"

record GoRenderer =
  gr_hasProvider :: bool
  gr_varCache :: "string list gomap"

definition NewGoRenderer :: "bool \<Rightarrow> GoRenderer" where
  "NewGoRenderer has_provider = \<lparr>gr_hasProvider = has_provider, gr_varCache = []\<rparr>"

text \<open>The variables of a template, without the cache; the result is listed in some order.\<close>

definition template_vars :: "parser \<Rightarrow> string list \<Rightarrow> string \<Rightarrow> string list" where
  "template_vars parse fm s =
     (case parse fm s of None \<Rightarrow> [] | Some rt \<Rightarrow> remdups (extractNodeVariablesRecursive fm rt))"

text \<open>
  The source returns \<open>nil, nil\<close> when the template does not parse, and caches only parsed
  templates. \<open>rng\<close> orders the range over \<open>variablesMap\<close>.
\<close>

definition ExtractVariables ::
    "parser \<Rightarrow> string ranger \<Rightarrow> string \<Rightarrow> GoRenderer \<Rightarrow> (goerr + string list) \<times> GoRenderer" where
  "ExtractVariables parse rng s r =
     (case map_of (gr_varCache r) s of
        Some cachedVars \<Rightarrow> (Inr cachedVars, r)
      | None \<Rightarrow>
          (let fm = GetFuncMap (gr_hasProvider r) in
           case parse fm s of
             None \<Rightarrow> (Inr [], r)
           | Some rt \<Rightarrow>
               (let variables = rng 0 (remdups (extractNodeVariablesRecursive fm rt))
                in (Inr variables, r\<lparr>gr_varCache := AList.update s variables (gr_varCache r)\<rparr>))))"

definition cache_ok :: "parser \<Rightarrow> GoRenderer \<Rightarrow> bool" where
  "cache_ok parse r \<longleftrightarrow> (\<forall>s vs. map_of (gr_varCache r) s = Some vs \<longrightarrow>
     set vs = set (template_vars parse (GetFuncMap (gr_hasProvider r)) s))"

lemma cache_ok_New [simp]: "cache_ok parse (NewGoRenderer b)"
  by (simp add: cache_ok_def NewGoRenderer_def)

lemma ExtractVariables_provider [simp]:
  "gr_hasProvider (snd (ExtractVariables parse rng s r)) = gr_hasProvider r"
  by (simp add: ExtractVariables_def Let_def split: option.splits)

lemma ExtractVariables_spec:
  assumes "permutes rng" and "cache_ok parse r"
  shows "\<exists>vs r'. ExtractVariables parse rng s r = (Inr vs, r') \<and>
    set vs = set (template_vars parse (GetFuncMap (gr_hasProvider r)) s)"
  using assms by (auto simp: ExtractVariables_def Let_def template_vars_def cache_ok_def split: option.splits)

lemma ExtractVariables_cache_ok [go_inv]:
  assumes "permutes rng" and "cache_ok parse r"
  shows "cache_ok parse (snd (ExtractVariables parse rng s r))"
  using assms by (auto simp: ExtractVariables_def Let_def template_vars_def cache_ok_def split: option.splits)

text \<open>A run of extractions on one renderer, as the validator and the DAG builder make.\<close>

fun extract_run :: "parser \<Rightarrow> string ranger \<Rightarrow> string list \<Rightarrow> GoRenderer \<Rightarrow> (goerr + string list) list \<times> GoRenderer" where
  "extract_run parse rng [] r = ([], r)"
| "extract_run parse rng (s # ss) r =
     (case ExtractVariables parse rng s r of (v, r') \<Rightarrow>
        (case extract_run parse rng ss r' of (vs, r'') \<Rightarrow> (v # vs, r'')))"

subsection \<open>Path lookup and the shortcut of Resolve\<close>

fun lookup_parts :: "goval \<Rightarrow> string list \<Rightarrow> goval option" where
  "lookup_parts current [] = Some current"
| "lookup_parts (VMap m) (part # parts) =
     (case map_of m part of None \<Rightarrow> None | Some v \<Rightarrow> lookup_parts v parts)"
| "lookup_parts current (part # parts) = None"

definition lookup :: "params \<Rightarrow> string \<Rightarrow> goval option" where
  "lookup data path = lookup_parts (VMap data) (split_on CHR ''.'' path)"

definition is_re_space :: "char \<Rightarrow> bool" where
  "is_re_space c \<longleftrightarrow> ord_char c \<in> {9, 10, 12, 13, 32}"

definition is_path_char :: "char \<Rightarrow> bool" where
  "is_path_char c \<longleftrightarrow> is_upper c \<or> is_lower c \<or> is_digit c \<or> c = CHR ''_'' \<or> c = CHR ''.''"

definition drop_prefix :: "string \<Rightarrow> string \<Rightarrow> string option" where
  "drop_prefix p s = (if prefix p s then Some (drop (length p) s) else None)"

text \<open>
  \<open>simpleVarRegex\<close>: spaces, two opening braces, spaces, a dot, a non-empty path, spaces, two
  closing braces, spaces. The character classes are disjoint, so a left-to-right scan decides
  the match and its group.
\<close>

definition simpleVarRegex :: "string \<Rightarrow> string option" where
  "simpleVarRegex s =
     (case drop_prefix ''{{'' (dropWhile is_re_space s) of None \<Rightarrow> None | Some s1 \<Rightarrow>
      case drop_prefix ''.'' (dropWhile is_re_space s1) of None \<Rightarrow> None | Some s2 \<Rightarrow>
      (let path = takeWhile is_path_char s2 in
       if path = [] then None
       else case drop_prefix ''}}'' (dropWhile is_re_space (dropWhile is_path_char s2)) of
         None \<Rightarrow> None
       | Some s3 \<Rightarrow> if dropWhile is_re_space s3 = [] then Some path else None))"

definition RendererRender ::
    "(string list \<Rightarrow> string \<Rightarrow> goerr option) \<Rightarrow> (string \<Rightarrow> goval \<Rightarrow> goerr + string) \<Rightarrow> bool \<Rightarrow>
     string \<Rightarrow> goval \<Rightarrow> goerr + string" where
  "RendererRender parse_err exec has_provider s data =
     (case parse_err (GetFuncMap has_provider) s of
        Some e \<Rightarrow> (let e' = WrapError ''template parse error: '' e []
          in Inl (ValidationError (''template parse error: '' @ Error e') (Some e')))
      | None \<Rightarrow>
          (case exec s data of
             Inl e \<Rightarrow> Inl (ValidationError (''template execution error: '' @ Error e) (Some e))
           | Inr t \<Rightarrow> Inr t))"

definition RendererResolve ::
    "(string \<Rightarrow> goval \<Rightarrow> goerr + string) \<Rightarrow> string \<Rightarrow> goval \<Rightarrow> goerr + goval" where
  "RendererResolve render s data =
     (case (case simpleVarRegex s of None \<Rightarrow> None | Some path \<Rightarrow>
              (case data of VMap m \<Rightarrow> lookup m path | _ \<Rightarrow> None)) of
        Some v \<Rightarrow> Inr v
      | None \<Rightarrow> (case render s data of Inl e \<Rightarrow> Inl e | Inr t \<Rightarrow> Inr (VStr t)))"

end
