(* ===== verification/Gxo_State.thy ===== *)
theory Gxo_State
  imports Gxo_Template
begin

text \<open>
  Deep copies (\<open>internal/util/copy.go\<close>) of values without sharing, and the in-memory state store
  (\<open>internal/state/memory_store.go\<close>) with the unflattening of dotted keys.
\<close>

subsection \<open>DeepCopy\<close>

text \<open>
  The context of a copy maps addresses of maps and slices to their copies. In a value without
  sharing every non-empty map and slice has an address of its own, which is never found again.
  Two addresses are shared by values of different types: all nil maps and nil slices have
  address 0, and all slices of capacity 0 that are not nil have the address of the runtime's
  zero-sized object. These two are the context here. An empty \<open>VSlice\<close> or \<open>VStrs\<close> stands for a
  slice of capacity 0.
\<close>

record copy_ctx =
  at_nil :: "goval option"
  at_zerobase :: "goval option"

definition empty_ctx :: copy_ctx where
  "empty_ctx = \<lparr>at_nil = None, at_zerobase = None\<rparr>"

definition copy_nil :: "goval \<Rightarrow> copy_ctx \<Rightarrow> goval \<times> copy_ctx" where
  "copy_nil fresh ctx =
     (case at_nil ctx of Some cpy \<Rightarrow> (cpy, ctx) | None \<Rightarrow> (fresh, ctx\<lparr>at_nil := Some fresh\<rparr>))"

definition copy_zero :: "goval \<Rightarrow> copy_ctx \<Rightarrow> goval \<times> copy_ctx" where
  "copy_zero fresh ctx =
     (case at_zerobase ctx of Some cpy \<Rightarrow> (cpy, ctx) | None \<Rightarrow> (fresh, ctx\<lparr>at_zerobase := Some fresh\<rparr>))"

text \<open>Copying parts one after the other, in the order given.\<close>

fun copy_seq :: "('k \<times> (copy_ctx \<Rightarrow> goval \<times> copy_ctx)) list \<Rightarrow> copy_ctx \<Rightarrow> ('k \<times> goval) list \<times> copy_ctx" where
  "copy_seq [] ctx = ([], ctx)"
| "copy_seq ((k, f) # rest) ctx =
     (case f ctx of (cpy, ctx1) \<Rightarrow> (case copy_seq rest ctx1 of (cs, ctx2) \<Rightarrow> ((k, cpy) # cs, ctx2)))"

text \<open>
  The copy of a map is listed in the order of the original, since the order of a map's entries
  has no meaning; the order of the range only decides in which order the entries are copied.
\<close>

definition listed_as :: "(string \<times> 'x) list \<Rightarrow> (string \<times> goval) list \<Rightarrow> (string \<times> goval) list" where
  "listed_as v cs = map (\<lambda>(key, _). (key, the (map_of cs key))) v"

text \<open>
  \<open>ord\<close> orders the entries of a map as a range over it does. In the reflection path a generic map
  with non-string keys is filled by \<open>SetMapIndex\<close>, which deletes the key when the copied value
  is nil. A nil key makes it panic: such a map is not a value of the model.
\<close>

fun deepCopyRecursive ::
    "((string \<times> (copy_ctx \<Rightarrow> goval \<times> copy_ctx)) list \<Rightarrow> (string \<times> (copy_ctx \<Rightarrow> goval \<times> copy_ctx)) list) \<Rightarrow>
     goval \<Rightarrow> copy_ctx \<Rightarrow> goval \<times> copy_ctx" where
  "deepCopyRecursive ord VNil = (\<lambda>ctx. (VNil, ctx))"
| "deepCopyRecursive ord (VMap v) =
     (\<lambda>ctx. map_prod (\<lambda>cs. VMap (listed_as v cs)) id (copy_seq (ord (map (\<lambda>(key, val). (key, deepCopyRecursive ord val)) v)) ctx))"
| "deepCopyRecursive ord VNilMap = copy_nil (VMap [])"
| "deepCopyRecursive ord (VSlice v) =
     (if v = [] then copy_zero (VSlice [])
      else (\<lambda>ctx. map_prod (\<lambda>cs. VSlice (map snd cs)) id
              (copy_seq (map (\<lambda>val. ((), deepCopyRecursive ord val)) v) ctx)))"
| "deepCopyRecursive ord VNilSlice = copy_nil (VSlice [])"
| "deepCopyRecursive ord (VStrs v) = (if v = [] then copy_zero (VStrs []) else (\<lambda>ctx. (VStrs v, ctx)))"
| "deepCopyRecursive ord (VAnyMap v) =
     (\<lambda>ctx. map_prod (\<lambda>cs. VAnyMap (filter (\<lambda>(key, cpy). cpy \<noteq> VNil) cs)) id
        (copy_seq (map (\<lambda>(key, val). (key, deepCopyRecursive ord val)) v) ctx))"
| "deepCopyRecursive ord v = (\<lambda>ctx. (v, ctx))"

definition DeepCopy ::
    "((string \<times> (copy_ctx \<Rightarrow> goval \<times> copy_ctx)) list \<Rightarrow> (string \<times> (copy_ctx \<Rightarrow> goval \<times> copy_ctx)) list) \<Rightarrow>
     goval \<Rightarrow> goval" where
  "DeepCopy ord src = fst (deepCopyRecursive ord src empty_ctx)"

text \<open>
  Values the copy reproduces: maps have distinct keys, nothing is a nil map or a nil slice, no
  \<open>[]string\<close> is empty, and a map with other keys holds no nil.
\<close>

fun copyable :: "goval \<Rightarrow> bool" where
  "copyable (VMap m) \<longleftrightarrow> distinct (map fst m) \<and> (\<forall>(k, v) \<in> set m. copyable v)"
| "copyable (VSlice vs) \<longleftrightarrow> (\<forall>v \<in> set vs. copyable v)"
| "copyable VNilMap \<longleftrightarrow> False"
| "copyable VNilSlice \<longleftrightarrow> False"
| "copyable (VStrs v) \<longleftrightarrow> v \<noteq> []"
| "copyable (VAnyMap m) \<longleftrightarrow> (\<forall>(k, v) \<in> set m. copyable v \<and> v \<noteq> VNil)"
| "copyable v \<longleftrightarrow> True"

definition ctx_ok :: "copy_ctx \<Rightarrow> bool" where
  "ctx_ok ctx \<longleftrightarrow> at_nil ctx = None \<and> at_zerobase ctx \<in> {None, Some (VSlice [])}"

definition copies_ok :: "(copy_ctx \<Rightarrow> goval \<times> copy_ctx) \<Rightarrow> goval \<Rightarrow> bool" where
  "copies_ok f v \<longleftrightarrow> (\<forall>ctx. ctx_ok ctx \<longrightarrow> fst (f ctx) = v \<and> ctx_ok (snd (f ctx)))"

lemma copy_seq_ok:
  assumes "\<forall>(k, f) \<in> set acts. copies_ok f (val k)" and "ctx_ok ctx"
  shows "fst (copy_seq acts ctx) = map (\<lambda>(k, _). (k, val k)) acts \<and> ctx_ok (snd (copy_seq acts ctx))"
  using assms
proof (induction acts ctx rule: copy_seq.induct)
  case (2 k f rest ctx)
  then have f: "copies_ok f (val k)" by simp
  then obtain ctx1 where f1: "f ctx = (val k, ctx1)" "ctx_ok ctx1"
    using 2(3) by (metis copies_ok_def prod.collapse)
  with 2 show ?case by (auto simp: split_beta)
qed simp

lemma copy_list_ok:
  assumes "list_all2 (\<lambda>(k, f) v. copies_ok f v) acts vs" and "ctx_ok ctx"
  shows "fst (copy_seq acts ctx) = zip (map fst acts) vs \<and> ctx_ok (snd (copy_seq acts ctx))"
  using assms
proof (induction acts vs arbitrary: ctx rule: list_all2_induct)
  case (Cons a acts v vs)
  obtain k f where a: "a = (k, f)" by (cases a)
  with Cons have "copies_ok f v" by simp
  with Cons.prems have "fst (f ctx) = v \<and> ctx_ok (snd (f ctx))" by (simp add: copies_ok_def)
  then obtain ctx1 where f1: "f ctx = (v, ctx1)" "ctx_ok ctx1" by (cases "f ctx") simp
  with Cons.IH [OF f1(2)] a show ?case by (simp add: split_beta)
qed simp

definition orders :: "('x list \<Rightarrow> 'x list) \<Rightarrow> bool" where
  "orders ord \<longleftrightarrow> (\<forall>xs. set (ord xs) = set xs)"

lemma orders_id [simp]: "orders id" and orders_rev [simp]: "orders rev"
  by (simp_all add: orders_def)

lemma map_of_keyed: "k \<in> fst ` set xs \<Longrightarrow> map_of (map (\<lambda>(k, _). (k, val k)) xs) k = Some (val k)"
  by (induction xs) auto

lemma copyable_copies_ok:
  assumes "orders ord"
  shows "copyable v \<Longrightarrow> copies_ok (deepCopyRecursive ord v) v"
proof (induction v)
  case (VMap m)
  let ?val = "\<lambda>k. the (map_of m k)" and ?acts = "map (\<lambda>(key, val). (key, deepCopyRecursive ord val)) m"
  have d: "distinct (map fst m)" using VMap.prems by simp
  have "copies_ok f (?val k)" if "(k, f) \<in> set (ord ?acts)" for k f
  proof -
    from that assms obtain v where v: "(k, v) \<in> set m" "f = deepCopyRecursive ord v" by (auto simp: orders_def)
    moreover have "copyable v" using VMap.prems v by auto
    ultimately have "copies_ok f v" using VMap.IH [of "(k, v)" v] by (simp add: snds.intros)
    with v d show ?thesis by simp
  qed
  then have acts: "\<forall>(k, f) \<in> set (ord ?acts). copies_ok f (?val k)" by blast
  have listed: "listed_as m (map (\<lambda>(k, _). (k, ?val k)) (ord ?acts)) = m"
  proof -
    have "map_of (map (\<lambda>(k, _). (k, ?val k)) (ord ?acts)) k = Some (?val k)" if "k \<in> fst ` set m" for k
    proof -
      have "k \<in> fst ` set (ord ?acts)" using that assms by (force simp: orders_def)
      then show ?thesis by (rule map_of_keyed)
    qed
    then show ?thesis unfolding listed_as_def
      by (intro map_idI) (use d in \<open>auto simp: rev_image_eqI\<close>)
  qed
  show ?case unfolding copies_ok_def
  proof (intro allI impI)
    fix ctx assume "ctx_ok ctx"
    from copy_seq_ok [OF acts this] listed
    show "fst (deepCopyRecursive ord (VMap m) ctx) = VMap m \<and> ctx_ok (snd (deepCopyRecursive ord (VMap m) ctx))"
      by (simp add: map_prod_def split_beta)
  qed
next
  case (VSlice vs)
  show ?case
  proof (cases "vs = []")
    case True
    then show ?thesis by (auto simp: copies_ok_def copy_zero_def ctx_ok_def)
  next
    case False
    have "list_all2 (\<lambda>(k, f) v. copies_ok f v) (map (\<lambda>val. ((), deepCopyRecursive ord val)) vs) vs"
      using VSlice by (auto simp: list_all2_conv_all_nth)
    from copy_list_ok [OF this] False show ?thesis by (simp add: copies_ok_def map_prod_def split_beta)
  qed
next
  case (VAnyMap m)
  have "list_all2 (\<lambda>(k, f) v. copies_ok f v) (map (\<lambda>(key, val). (key, deepCopyRecursive ord val)) m) (map snd m)"
  proof -
    have "copies_ok (deepCopyRecursive ord (snd x)) (snd x)" if "x \<in> set m" for x
      using that VAnyMap.prems by (intro VAnyMap.IH(2) [OF that]) (auto simp: snds.intros)
    then show ?thesis by (simp add: list_all2_map1 list_all2_map2 list_all2_same split_beta)
  qed
  from copy_list_ok [OF this] VAnyMap.prems show ?case
    by (auto simp: copies_ok_def map_prod_def split_beta comp_def zip_map_fst_snd intro!: filter_True)
qed (auto simp: copies_ok_def)

lemma DeepCopy_copyable: "orders ord \<Longrightarrow> copyable v \<Longrightarrow> DeepCopy ord v = v"
  using copyable_copies_ok [of ord v] by (simp add: copies_ok_def DeepCopy_def ctx_ok_def empty_ctx_def)

subsection \<open>The store\<close>

type_synonym copy_order =
  "(string \<times> (copy_ctx \<Rightarrow> goval \<times> copy_ctx)) list \<Rightarrow> (string \<times> (copy_ctx \<Rightarrow> goval \<times> copy_ctx)) list"

definition ErrKeyNotFound :: goerr where
  "ErrKeyNotFound = PlainError ''key not found in state store''"

record MemoryStateStore =
  ms_data :: params

definition NewMemoryStateStore :: MemoryStateStore where
  "NewMemoryStateStore = \<lparr>ms_data = []\<rparr>"

definition store_Get :: "copy_order \<Rightarrow> string \<Rightarrow> MemoryStateStore \<Rightarrow> goval option" where
  "store_Get ord key s = map_option (DeepCopy ord) (map_of (ms_data s) key)"

text \<open>
  One key of \<open>unflattenAndDeepCopy\<close>: the path is walked, a missing or non-map value on the way is
  replaced by a new map, and the last part is set. A copy is never a nil map, so the assertion to
  a map finds \<open>VMap\<close> only.
\<close>

definition sub_map :: "params \<Rightarrow> string \<Rightarrow> params" where
  "sub_map m part = (case map_of m part of Some (VMap nextMap) \<Rightarrow> nextMap | _ \<Rightarrow> [])"

fun set_path :: "string list \<Rightarrow> goval \<Rightarrow> params \<Rightarrow> params" where
  "set_path [] v m = m"
| "set_path [part] v m = AList.update part v m"
| "set_path (part # p # ps) v m =
     AList.update part (VMap (set_path (p # ps) v (sub_map m part))) m"

definition unflattenAndDeepCopy :: "copy_order \<Rightarrow> (string \<times> goval) list \<Rightarrow> params" where
  "unflattenAndDeepCopy ord flatData =
     fold (\<lambda>(key, value'). set_path (split_on CHR ''.'' key) (DeepCopy ord value')) flatData []"

text \<open>\<open>rng\<close> orders the range over the flat map.\<close>

definition store_GetAll :: "copy_order \<Rightarrow> (string \<times> goval) ranger \<Rightarrow> MemoryStateStore \<Rightarrow> params" where
  "store_GetAll ord rng s = unflattenAndDeepCopy ord (rng 0 (ms_data s))"

definition store_Set :: "string \<Rightarrow> goval \<Rightarrow> MemoryStateStore \<Rightarrow> MemoryStateStore" where
  "store_Set key value' s = s\<lparr>ms_data := AList.update key value' (ms_data s)\<rparr>"

definition store_Delete :: "string \<Rightarrow> MemoryStateStore \<Rightarrow> goerr option \<times> MemoryStateStore" where
  "store_Delete key s =
     (case map_of (ms_data s) key of
        None \<Rightarrow> (Some ErrKeyNotFound, s)
      | Some v \<Rightarrow> (None, s\<lparr>ms_data := AList.delete key (ms_data s)\<rparr>))"

text \<open>\<open>None\<close> is a nil map.\<close>

definition store_Load :: "params option \<Rightarrow> MemoryStateStore \<Rightarrow> MemoryStateStore" where
  "store_Load data s = s\<lparr>ms_data := (case data of None \<Rightarrow> [] | Some m \<Rightarrow> m)\<rparr>"

definition store_Close :: "MemoryStateStore \<Rightarrow> goerr option" where
  "store_Close s = None"

definition store_ok :: "MemoryStateStore \<Rightarrow> bool" where
  "store_ok s \<longleftrightarrow> gomap_ok (ms_data s) \<and> (\<forall>(k, v) \<in> set (ms_data s). copyable v)"

subsection \<open>The contract of a state store\<close>

locale state_store =
  fixes new :: 's
    and get :: "string \<Rightarrow> 's \<Rightarrow> goval option"
    and put :: "string \<Rightarrow> goval \<Rightarrow> 's \<Rightarrow> 's"
    and remove :: "string \<Rightarrow> 's \<Rightarrow> goerr option \<times> 's"
    and load :: "params option \<Rightarrow> 's \<Rightarrow> 's"
    and storable :: "goval \<Rightarrow> bool"
    and ok :: "'s \<Rightarrow> bool"
  assumes get_new: "get k new = None"
    and get_put: "storable v \<Longrightarrow> ok s \<Longrightarrow> get k (put k' v s) = (if k = k' then Some v else get k s)"
    and get_remove: "ok s \<Longrightarrow> get k (snd (remove k' s)) = (if k = k' then None else get k s)"
    and remove_error: "fst (remove k s) = (if get k s = None then Some ErrKeyNotFound else None)"
    and get_load: "\<forall>(k, v) \<in> set m. storable v \<Longrightarrow> gomap_ok m \<Longrightarrow> get k (load (Some m) s) = map_of m k"
    and get_load_nil: "get k (load None s) = None"
    and ok_new: "ok new"
    and ok_put: "ok s \<Longrightarrow> storable v \<Longrightarrow> ok (put k v s)"
    and ok_remove: "ok s \<Longrightarrow> ok (snd (remove k s))"
    and ok_load: "\<forall>(k, v) \<in> set m. storable v \<Longrightarrow> gomap_ok m \<Longrightarrow> ok (load (Some m) s)"
begin

text \<open>After a sequence of writes a key reads as the last value written to it, or as before.\<close>

lemma get_writes:
  "ok s \<Longrightarrow> \<forall>(k, v) \<in> set ws. storable v \<Longrightarrow>
     get k (fold (\<lambda>(k, v). put k v) ws s) = (case map_of (rev ws) k of Some v \<Rightarrow> Some v | None \<Rightarrow> get k s)"
proof (induction ws arbitrary: s)
  case (Cons w ws)
  obtain k' v where w: "w = (k', v)" by (cases w)
  with Cons.prems have "ok (put k' v s)" "storable v" using ok_put by simp_all
  with Cons w show ?case by (auto simp: get_put map_add_def split: option.splits)
qed simp

lemma remove_then_remove:
  "ok s \<Longrightarrow> fst (remove k (snd (remove k s))) = Some ErrKeyNotFound"
  by (simp add: remove_error get_remove)

end

lemma store_ok_copy: "store_ok s \<Longrightarrow> orders ord \<Longrightarrow> store_Get ord k s = map_of (ms_data s) k"
  using DeepCopy_copyable by (cases "map_of (ms_data s) k") (auto simp: store_Get_def store_ok_def dest!: map_of_SomeD)

lemma copyable_entries: "\<forall>(k, v) \<in> set m. P v \<Longrightarrow> map_of m k = Some v \<Longrightarrow> P v"
  by (auto dest: map_of_SomeD)

lemma store_ok_ops [go_inv]:
  "store_ok NewMemoryStateStore"
  "store_ok s \<Longrightarrow> copyable v \<Longrightarrow> store_ok (store_Set k v s)"
  "store_ok s \<Longrightarrow> store_ok (snd (store_Delete k s))"
  "\<forall>(k, v) \<in> set m. copyable v \<Longrightarrow> gomap_ok m \<Longrightarrow> store_ok (store_Load (Some m) s)"
  "store_ok (store_Load None s)"
proof -
  have entries: "(\<forall>(k, v) \<in> set m. copyable v) \<longleftrightarrow> (\<forall>k v. map_of m k = Some v \<longrightarrow> copyable v)" if "gomap_ok m" for m
    using that by (auto simp: gomap_ok_def dest: map_of_SomeD)
  show "store_ok NewMemoryStateStore" by (simp add: store_ok_def NewMemoryStateStore_def)
  show "store_ok s \<Longrightarrow> copyable v \<Longrightarrow> store_ok (store_Set k v s)"
    by (auto simp: store_ok_def store_Set_def entries)
  show "store_ok s \<Longrightarrow> store_ok (snd (store_Delete k s))"
    by (auto simp: store_ok_def store_Delete_def entries split: option.splits)
  show "\<forall>(k, v) \<in> set m. copyable v \<Longrightarrow> gomap_ok m \<Longrightarrow> store_ok (store_Load (Some m) s)"
    by (simp add: store_ok_def store_Load_def)
  show "store_ok (store_Load None s)" by (simp add: store_ok_def store_Load_def)
qed

lemma store_Get_laws:
  "store_Get ord k NewMemoryStateStore = None"
  "orders ord \<Longrightarrow> copyable v \<Longrightarrow> store_Get ord k (store_Set k' v s) = (if k = k' then Some v else store_Get ord k s)"
  "store_Get ord k (snd (store_Delete k' s)) = (if k = k' then None else store_Get ord k s)"
  "fst (store_Delete k s) = (if store_Get ord k s = None then Some ErrKeyNotFound else None)"
  "store_Get ord k (store_Load None s) = None"
  by (simp_all add: store_Get_def NewMemoryStateStore_def store_Set_def store_Delete_def store_Load_def
      DeepCopy_copyable split: option.split)

lemma store_Get_Load:
  "orders ord \<Longrightarrow> \<forall>(k, v) \<in> set m. copyable v \<Longrightarrow> gomap_ok m \<Longrightarrow> store_Get ord k (store_Load (Some m) s) = map_of m k"
  using store_ok_copy [OF store_ok_ops(4)] by (simp add: store_Load_def)

interpretation ms: state_store NewMemoryStateStore "store_Get id" store_Set store_Delete store_Load copyable store_ok
  by unfold_locales (simp_all add: store_Get_laws store_Get_Load store_ok_ops)

text \<open>After any sequence of writes a key reads as the last value written to it; a removed key is
  absent, and removing it again is an error.\<close>

lemma store_reads_last_write:
  assumes "store_ok s" and "\<forall>(k, v) \<in> set ws. copyable v"
  shows "store_Get id k (fold (\<lambda>(k, v). store_Set k v) ws s) =
      (case map_of (rev ws) k of Some v \<Rightarrow> Some v | None \<Rightarrow> store_Get id k s) \<and>
    store_Get id k (snd (store_Delete k s)) = None \<and>
    fst (store_Delete k (snd (store_Delete k s))) = Some ErrKeyNotFound"
  using ms.get_writes [OF assms] ms.get_remove [OF assms(1), of k k] ms.remove_then_remove [OF assms(1), of k] by simp

subsection \<open>Unflattening\<close>

lemma set_path_lookup: "ps \<noteq> [] \<Longrightarrow> lookup_parts (VMap (set_path ps v m)) ps = Some v"
  by (induction ps v m rule: set_path.induct) simp_all

text \<open>Writing at one path does not disturb another that is neither a prefix of it nor an extension.\<close>

lemma set_path_other:
  "\<not> prefix ps qs \<Longrightarrow> \<not> prefix qs ps \<Longrightarrow> lookup_parts (VMap m) ps = Some v \<Longrightarrow>
     lookup_parts (VMap (set_path qs w m)) ps = Some v"
proof (induction qs w m arbitrary: ps rule: set_path.induct)
  case (2 part w m)
  then show ?case by (cases ps) (auto split: option.splits)
next
  case (3 part p qs w m)
  then obtain a ps' where ps: "ps = a # ps'" by (cases ps) auto
  show ?case
  proof (cases "a = part")
    case False
    with "3.prems"(3) ps show ?thesis by simp
  next
    case True
    with "3.prems"(1,2) ps have np: "\<not> prefix ps' (p # qs)" "\<not> prefix (p # qs) ps'" by auto
    then obtain b bs where ps': "ps' = b # bs" by (cases ps') auto
    obtain u where u: "map_of m part = Some u" "lookup_parts u ps' = Some v"
      using "3.prems"(3) ps True by (auto split: option.splits)
    with ps' obtain sub where sub: "u = VMap sub" by (cases u) auto
    with u have "lookup_parts (VMap (sub_map m part)) ps' = Some v" by (simp add: sub_map_def)
    from "3.IH" [OF np this] show ?thesis by (simp add: ps True)
  qed
qed auto

text \<open>No key's path is a proper prefix of another's.\<close>

definition keys_independent :: "(string \<times> goval) list \<Rightarrow> bool" where
  "keys_independent m \<longleftrightarrow> distinct (map fst m) \<and>
     (\<forall>k \<in> fst ` set m. \<forall>k' \<in> fst ` set m.
        prefix (split_on CHR ''.'' k) (split_on CHR ''.'' k') \<longrightarrow> k = k')"

lemma keys_independentD:
  "keys_independent m \<Longrightarrow> k \<in> fst ` set m \<Longrightarrow> k' \<in> fst ` set m \<Longrightarrow>
     prefix (split_on CHR ''.'' k) (split_on CHR ''.'' k') \<Longrightarrow> k = k'"
  unfolding keys_independent_def by blast

lemma unflatten_fold:
  assumes "\<forall>(k, v) \<in> set done'. lookup m0 k = Some (DeepCopy ord v)" and "keys_independent (done' @ todo)"
  shows "\<forall>(k, v) \<in> set (done' @ todo).
    lookup (fold (\<lambda>(k, v). set_path (split_on CHR ''.'' k) (DeepCopy ord v)) todo m0) k = Some (DeepCopy ord v)"
  using assms
proof (induction todo arbitrary: done' m0)
  case (Cons kv todo)
  obtain k v where kv: "kv = (k, v)" by (cases kv)
  let ?m1 = "set_path (split_on CHR ''.'' k) (DeepCopy ord v) m0"
  have "lookup ?m1 k' = Some (DeepCopy ord v')" if kv': "(k', v') \<in> set (done' @ [kv])" for k' v'
  proof (cases "k' = k")
    case True
    have "distinct (map fst (done' @ kv # todo))" using Cons.prems(2) unfolding keys_independent_def by blast
    moreover have "(k, v) \<in> set (done' @ kv # todo)" "(k, v') \<in> set (done' @ kv # todo)"
      using kv kv' True by auto
    ultimately have "v' = v" by (metis eq_key_imp_eq_value)
    with True show ?thesis by (simp add: lookup_def set_path_lookup)
  next
    case False
    with kv' kv have "(k', v') \<in> set done'" by simp
    then have old: "lookup m0 k' = Some (DeepCopy ord v')" and mem: "k' \<in> fst ` set (done' @ kv # todo)" "k \<in> fst ` set (done' @ kv # todo)"
      using Cons.prems(1) kv by force+
    have "\<not> prefix (split_on CHR ''.'' k') (split_on CHR ''.'' k)" "\<not> prefix (split_on CHR ''.'' k) (split_on CHR ''.'' k')"
      using keys_independentD [OF Cons.prems(2) mem] keys_independentD [OF Cons.prems(2) mem(2,1)] False by auto
    with old show ?thesis by (simp add: lookup_def set_path_other)
  qed
  then have "\<forall>(k', v') \<in> set (done' @ [kv]). lookup ?m1 k' = Some (DeepCopy ord v')" by blast
  from Cons.IH [OF this] Cons.prems(2) kv show ?case by simp
qed simp

lemma unflatten_lookup:
  assumes "keys_independent m" and "(k, v) \<in> set m"
  shows "lookup (unflattenAndDeepCopy ord m) k = Some (DeepCopy ord v)"
  using unflatten_fold [of "[]" "[]" ord m] assms by (auto simp: unflattenAndDeepCopy_def)

lemma keys_independent_perm:
  assumes "keys_independent m" and "mset m' = mset m"
  shows "keys_independent m'"
proof -
  have "set m' = set m" using assms(2) by (metis set_mset_mset)
  moreover have "distinct (map fst m')" using assms by (metis keys_independent_def mset_eq_imp_distinct_iff mset_map)
  ultimately show ?thesis using assms(1) by (simp add: keys_independent_def)
qed

end
