(* ===== verification/Gxo_Reference.thy ===== *)
theory Gxo_Reference
  imports Gxo_State
begin

text \<open>
  How a template sees the state: a plain reference to a stored key resolves to the stored value,
  with its type, through the renderer's shortcut and the unflattened state; and the renderer's
  cache of variables never changes an answer.
\<close>

subsection \<open>The shortcut of Resolve\<close>

lemma takeWhile_all_append: "list_all P xs \<Longrightarrow> \<not> P (hd ys) \<Longrightarrow> ys \<noteq> [] \<Longrightarrow> takeWhile P (xs @ ys) = xs"
  and dropWhile_all_append: "list_all P xs \<Longrightarrow> \<not> P (hd ys) \<Longrightarrow> ys \<noteq> [] \<Longrightarrow> dropWhile P (xs @ ys) = ys"
  by (induction xs) (auto simp: neq_Nil_conv)

definition reference :: "string \<Rightarrow> string" where
  "reference path = ''{{ .'' @ path @ '' }}''"

lemma simpleVarRegex_reference:
  assumes "path \<noteq> []" and "list_all is_path_char path"
  shows "simpleVarRegex (reference path) = Some path"
proof -
  have sp: "\<not> is_path_char CHR '' ''" by code_simp
  have ends: "takeWhile is_path_char (path @ '' }}'') = path" "dropWhile is_path_char (path @ '' }}'') = '' }}''"
    using takeWhile_all_append [OF assms(2), of "'' }}''"] dropWhile_all_append [OF assms(2), of "'' }}''"] sp by simp_all
  have c: "\<not> is_re_space CHR ''{''" "is_re_space CHR '' ''" "\<not> is_re_space CHR ''.''" "\<not> is_re_space CHR ''}''"
    by (code_simp, code_simp, code_simp, code_simp)
  show ?thesis using assms(1) ends c
    by (simp add: simpleVarRegex_def reference_def drop_prefix_def Let_def)
qed

lemma Resolve_reference:
  assumes "path \<noteq> []" and "list_all is_path_char path" and "lookup m path = Some v"
  shows "RendererResolve render (reference path) (VMap m) = Inr v"
  using simpleVarRegex_reference [OF assms(1,2)] assms(3) by (simp add: RendererResolve_def)

subsection \<open>A registered result, read back\<close>

lemma GetAll_lookup:
  assumes "permutes rng" and "keys_independent (ms_data s)" and "map_of (ms_data s) k = Some v"
  shows "lookup (store_GetAll ord rng s) k = Some (DeepCopy ord v)"
proof -
  have p: "mset (rng 0 (ms_data s)) = mset (ms_data s)" by (rule permutes_mset [OF assms(1)])
  have "(k, v) \<in> set (rng 0 (ms_data s))" using map_of_SomeD [OF assms(3)] p by (metis set_mset_mset)
  with unflatten_lookup [OF keys_independent_perm [OF assms(2) p]] show ?thesis
    by (simp add: store_GetAll_def)
qed

lemma registered_reference:
  assumes rng: "permutes rng" and ord: "orders ord" and v: "copyable v"
    and indep: "keys_independent (ms_data (store_Set k v s))"
    and k: "k \<noteq> []" "list_all is_path_char k"
  shows "RendererResolve render (reference k) (VMap (store_GetAll ord rng (store_Set k v s))) = Inr v"
proof -
  have "map_of (ms_data (store_Set k v s)) k = Some v" by (simp add: store_Set_def)
  from GetAll_lookup [OF rng indep this, of ord] have "lookup (store_GetAll ord rng (store_Set k v s)) k = Some v"
    by (simp add: DeepCopy_copyable [OF ord v])
  with k show ?thesis by (rule Resolve_reference)
qed

subsection \<open>The cache\<close>

lemma extract_run_spec:
  assumes "permutes rng" and "cache_ok parse r"
  shows "list_all2 (\<lambda>s res. \<exists>vs. res = Inr vs \<and> set vs = set (template_vars parse (GetFuncMap (gr_hasProvider r)) s))
      ss (fst (extract_run parse rng ss r))"
  using assms(2)
proof (induction ss arbitrary: r)
  case (Cons s ss)
  from ExtractVariables_spec [OF assms(1) Cons.prems, of s] obtain vs r' where
    one: "ExtractVariables parse rng s r = (Inr vs, r')" "set vs = set (template_vars parse (GetFuncMap (gr_hasProvider r)) s)"
    by blast
  have "cache_ok parse r'" using ExtractVariables_cache_ok [OF assms(1) Cons.prems, of s] one by simp
  moreover have "gr_hasProvider r' = gr_hasProvider r" using ExtractVariables_provider [of parse rng s r] one by simp
  ultimately show ?case using Cons.IH [of r'] one by (auto simp: split_beta)
qed simp

end
