(* ===== verification/Gxo_Duration.thy ===== *)
theory Gxo_Duration
  imports Gxo_Strings
begin

text \<open>
  \<open>time.ParseDuration\<close> and \<open>time.Duration.String\<close> of Go's standard library, which the
  configuration calls on every delay and timeout. A duration is a number of nanoseconds. The
  64-bit overflow checks are those of the library; the fraction of a unit is computed exactly
  and rounded down, where the library multiplies in float64.
\<close>

type_synonym duration = int

definition ns_per_s :: int where
  "ns_per_s = 1000000000"

definition two63 :: nat where
  "two63 = 9223372036854775808"

text \<open>\<open>unitMap\<close>: the micro sign and the Greek mu are two bytes each in UTF-8.\<close>

definition unit_of :: "string \<Rightarrow> nat option" where
  "unit_of u =
     (if u = ''ns'' then Some 1
      else if u = ''us'' then Some 1000
      else if u = [CHR 0xC2, CHR 0xB5, CHR ''s''] then Some 1000
      else if u = [CHR 0xCE, CHR 0xBC, CHR ''s''] then Some 1000
      else if u = ''ms'' then Some 1000000
      else if u = ''s'' then Some 1000000000
      else if u = ''m'' then Some 60000000000
      else if u = ''h'' then Some 3600000000000
      else None)"

definition digit_val :: "char \<Rightarrow> nat" where
  "digit_val c = ord_char c - 48"

text \<open>\<open>leadingInt\<close>: the value of the leading digits and the rest, \<open>None\<close> on overflow.\<close>

fun leadingInt :: "nat \<Rightarrow> string \<Rightarrow> (nat \<times> string) option" where
  "leadingInt x [] = Some (x, [])"
| "leadingInt x (c # s) =
     (if \<not> is_digit c then Some (x, c # s)
      else if x > two63 div 10 then None
      else let y = x * 10 + digit_val c in if y > two63 then None else leadingInt y s)"

text \<open>\<open>leadingFraction\<close>: the digits that fit, their scale, and the rest.\<close>

fun leadingFraction :: "bool \<Rightarrow> nat \<Rightarrow> nat \<Rightarrow> string \<Rightarrow> nat \<times> nat \<times> string" where
  "leadingFraction ovf x scale [] = (x, scale, [])"
| "leadingFraction ovf x scale (c # s) =
     (if \<not> is_digit c then (x, scale, c # s)
      else if ovf then leadingFraction True x scale s
      else if x > (two63 - 1) div 10 then leadingFraction True x scale s
      else let y = x * 10 + digit_val c
           in if y > two63 then leadingFraction True x scale s
              else leadingFraction False y (scale * 10) s)"

definition hex_digit :: "nat \<Rightarrow> char" where
  "hex_digit n = (if n < 10 then char_of (48 + n) else char_of (87 + n))"

text \<open>\<open>time.quote\<close>.\<close>

definition time_quote :: "string \<Rightarrow> string" where
  "time_quote s = [CHR 0x22] @
     concat (map (\<lambda>c. if 128 \<le> ord_char c \<or> ord_char c < 32
         then [CHR 0x5C, CHR ''x'', hex_digit (ord_char c div 16), hex_digit (ord_char c mod 16)]
         else if c = CHR 0x22 \<or> c = CHR 0x5C then [CHR 0x5C, c] else [c]) s) @ [CHR 0x22]"

definition is_unit_char :: "char \<Rightarrow> bool" where
  "is_unit_char c \<longleftrightarrow> \<not> (c = CHR ''.'' \<or> is_digit c)"

lemma leadingInt_length: "leadingInt x s = Some (y, r) \<Longrightarrow> length r \<le> length s"
  by (induction x s rule: leadingInt.induct) (auto simp: Let_def split: if_splits)

lemma leadingFraction_length: "leadingFraction ovf x sc s = (y, z, r) \<Longrightarrow> length r \<le> length s"
  by (induction ovf x sc s rule: leadingFraction.induct) (auto simp: Let_def split: if_splits)

text \<open>The optional fraction: its digits, their scale, the rest, and whether a digit was read.\<close>

definition duration_frac :: "string \<Rightarrow> nat \<times> nat \<times> string \<times> bool" where
  "duration_frac s1 =
     (case s1 of
        [] \<Rightarrow> (0, 1, s1, False)
      | d # r \<Rightarrow>
          if d = CHR ''.'' then
            (case leadingFraction False 0 1 r of (f, scale, r') \<Rightarrow> (f, scale, r', length r \<noteq> length r'))
          else (0, 1, s1, False))"

text \<open>
  One round of the loop: a number, an optional fraction and a unit. \<open>Inl\<close> is the error text.
\<close>

definition duration_item :: "string \<Rightarrow> string \<Rightarrow> string + nat \<times> string" where
  "duration_item orig s =
     (let invalid = Inl (''time: invalid duration '' @ time_quote orig) in
      if \<not> (s \<noteq> [] \<and> (hd s = CHR ''.'' \<or> is_digit (hd s))) then invalid
      else case leadingInt 0 s of
        None \<Rightarrow> invalid
      | Some (v, s1) \<Rightarrow>
        (case duration_frac s1 of (f, scale, s2, post) \<Rightarrow>
          if \<not> (length s \<noteq> length s1) \<and> \<not> post then invalid
          else let u = takeWhile is_unit_char s2; s3 = dropWhile is_unit_char s2
          in if u = [] then Inl (''time: missing unit in duration '' @ time_quote orig)
          else case unit_of u of
            None \<Rightarrow> Inl (''time: unknown unit '' @ time_quote u @ '' in duration '' @ time_quote orig)
          | Some unit' \<Rightarrow>
            if v > two63 div unit' then invalid
            else let w = v * unit' + (if f > 0 then f * unit' div scale else 0)
            in if w > two63 then invalid else Inr (w, s3)))"

lemma duration_frac_length: "duration_frac s1 = (f, scale, s2, post) \<Longrightarrow> length s2 \<le> length s1"
  by (auto simp: duration_frac_def dest: leadingFraction_length split: list.splits prod.splits if_splits)

lemma duration_item_InrD:
  "duration_item orig s = Inr (w, r) \<Longrightarrow>
     \<exists>v s1 f scale s2 post. leadingInt 0 s = Some (v, s1) \<and> duration_frac s1 = (f, scale, s2, post) \<and>
       takeWhile is_unit_char s2 \<noteq> [] \<and> r = dropWhile is_unit_char s2"
  by (cases "duration_frac (snd (the (leadingInt 0 s)))")
    (auto simp: duration_item_def Let_def split: if_splits option.splits)

lemma duration_item_shorter:
  assumes "duration_item orig s = Inr (w, r)"
  shows "length r < length s"
proof -
  from duration_item_InrD [OF assms] obtain v s1 f scale s2 post where
    l: "leadingInt 0 s = Some (v, s1)" and f: "duration_frac s1 = (f, scale, s2, post)"
    and u: "takeWhile is_unit_char s2 \<noteq> []" and r: "r = dropWhile is_unit_char s2" by blast
  have "length (takeWhile is_unit_char s2) + length r = length s2"
    using r by (metis length_append takeWhile_dropWhile_id)
  moreover have "0 < length (takeWhile is_unit_char s2)" using u by simp
  ultimately show ?thesis
    using leadingInt_length [OF l] duration_frac_length [OF f] by linarith
qed

function duration_loop :: "string \<Rightarrow> nat \<Rightarrow> string \<Rightarrow> string + nat" where
  "duration_loop orig d s =
     (if s = [] then Inr d
      else case duration_item orig s of
        Inl e \<Rightarrow> Inl e
      | Inr (v, r) \<Rightarrow>
          if d + v > two63 then Inl (''time: invalid duration '' @ time_quote orig)
          else duration_loop orig (d + v) r)"
  by pat_completeness auto
termination
  by (relation "measure (\<lambda>(orig, d, s). length s)") (auto dest: duration_item_shorter)

declare duration_loop.simps [simp del]

definition ParseDuration :: "string \<Rightarrow> string + duration" where
  "ParseDuration orig =
     (let invalid = Inl (''time: invalid duration '' @ time_quote orig);
          neg = (case orig of c # _ \<Rightarrow> c = CHR ''-'' | [] \<Rightarrow> False);
          s = (case orig of c # r \<Rightarrow> if c = CHR ''-'' \<or> c = CHR ''+'' then r else orig | [] \<Rightarrow> orig)
      in if s = ''0'' then Inr 0
         else if s = [] then invalid
         else case duration_loop orig 0 s of
           Inl e \<Rightarrow> Inl e
         | Inr d \<Rightarrow>
             if neg then Inr (- int d)
             else if d > two63 - 1 then invalid else Inr (int d))"

subsection \<open>Duration.String\<close>

definition frac_digits :: "nat \<Rightarrow> nat \<Rightarrow> string" where
  "frac_digits u prec =
     (let ds = map (\<lambda>i. char_of (48 + u div 10 ^ (prec - 1 - i) mod 10)) [0..<prec];
          kept = rev (dropWhile (\<lambda>c. c = CHR ''0'') (rev ds))
      in if kept = [] then [] else CHR ''.'' # kept)"

definition DurationString :: "duration \<Rightarrow> string" where
  "DurationString d =
     (let u = nat \<bar>d\<bar>; sign = (if d < 0 then ''-'' else []) in
      if u = 0 then ''0s''
      else if u < 1000 then sign @ show_nat u @ ''ns''
      else if u < 1000000 then sign @ show_nat (u div 1000) @ frac_digits u 3 @ [CHR 0xC2, CHR 0xB5, CHR ''s'']
      else if u < 1000000000 then sign @ show_nat (u div 1000000) @ frac_digits u 6 @ ''ms''
      else let secs = u div 1000000000; frac = frac_digits u 9; mins = secs div 60; hours = mins div 60
        in sign @ (if hours > 0 then show_nat hours @ ''h'' else []) @
           (if mins > 0 then show_nat (mins mod 60) @ ''m'' else []) @
           show_nat (secs mod 60) @ frac @ ''s'')"

lemma ParseDuration_Nil: "ParseDuration [] = Inl (''time: invalid duration '' @ time_quote [])"
  by (simp add: ParseDuration_def)

end
