(* ===== verification/Gxo_Floats.thy ===== *)
theory Gxo_Floats
  imports Gxo_Duration Gxo_Values
begin

text \<open>
  Float64 arithmetic as the program uses it. A float is an exact number or an IEEE special;
  rounding an exact result to float64 or float32, \<open>math.Pow\<close>, and the conversion to an integer
  where the Go specification leaves the result to the implementation are the fields of
  \<open>float_env\<close>.
\<close>

record float_env =
  fe_round :: "rat \<Rightarrow> gofloat"
  fe_round32 :: "rat \<Rightarrow> gofloat"
  fe_pow :: "gofloat \<Rightarrow> nat \<Rightarrow> gofloat"
  fe_convert :: "gofloat \<Rightarrow> int"

definition sign_inf :: "rat \<Rightarrow> gofloat" where
  "sign_inf a = (if a > 0 then FPosInf else if a < 0 then FNegInf else FNaN)"

fun fmul :: "float_env \<Rightarrow> gofloat \<Rightarrow> gofloat \<Rightarrow> gofloat" where
  "fmul fe (FNum a) (FNum b) = fe_round fe (a * b)"
| "fmul fe FPosInf (FNum b) = sign_inf b"
| "fmul fe (FNum a) FPosInf = sign_inf a"
| "fmul fe FNegInf (FNum b) = sign_inf (- b)"
| "fmul fe (FNum a) FNegInf = sign_inf (- a)"
| "fmul fe FPosInf FPosInf = FPosInf"
| "fmul fe FNegInf FNegInf = FPosInf"
| "fmul fe FPosInf FNegInf = FNegInf"
| "fmul fe FNegInf FPosInf = FNegInf"
| "fmul fe _ _ = FNaN"

definition trunc :: "rat \<Rightarrow> int" where
  "trunc a = (if a \<ge> 0 then \<lfloor>a\<rfloor> else \<lceil>a\<rceil>)"

definition in_int64 :: "int \<Rightarrow> bool" where
  "in_int64 i \<longleftrightarrow> - (2 ^ 63) \<le> i \<and> i < 2 ^ 63"

text \<open>\<open>int64(f)\<close>; a sum of two int64 values wraps.\<close>

definition to_int64 :: "float_env \<Rightarrow> gofloat \<Rightarrow> int" where
  "to_int64 fe f =
     (case f of FNum a \<Rightarrow> if in_int64 (trunc a) then trunc a else fe_convert fe f | _ \<Rightarrow> fe_convert fe f)"

definition wrap64 :: "int \<Rightarrow> int" where
  "wrap64 i = (i + 2 ^ 63) mod 2 ^ 64 - 2 ^ 63"

text \<open>\<open>float64(int64(f)) == f\<close> and \<open>float32(int64(f)) == f\<close>, the tests for a whole number; no NaN
  is equal to anything.\<close>

definition whole_number :: "float_env \<Rightarrow> floatkind \<Rightarrow> gofloat \<Rightarrow> bool" where
  "whole_number fe k f \<longleftrightarrow> f \<noteq> FNaN \<and>
     (case k of KFloat64 \<Rightarrow> fe_round fe (of_int (to_int64 fe f)) | KFloat32 \<Rightarrow> fe_round32 fe (of_int (to_int64 fe f))) = f"

lemma trunc_of_int [simp]: "trunc (of_int i) = i"
  by (simp add: trunc_def)

lemma wrap64_in_int64: "in_int64 (wrap64 i)"
proof -
  have "0 \<le> (i + 2 ^ 63) mod 2 ^ 64" and "(i + 2 ^ 63) mod 2 ^ 64 < 2 ^ 64"
    by simp_all
  then show ?thesis by (simp add: in_int64_def wrap64_def)
qed

lemma wrap64_id: "in_int64 i \<Longrightarrow> wrap64 i = i"
  by (simp add: in_int64_def wrap64_def)

end
