(* ===== verification/Gxo_Config.thy ===== *)
theory Gxo_Config
  imports Gxo_Duration Gxo_Values
begin

text \<open>
  The playbook as the engine holds it (\<open>internal/config/config.go\<close>, \<open>policy.go\<close>): its structs,
  the getters that resolve defaults, and the assignment of internal task ids
  (\<open>internal/config/load.go\<close>). An absent pointer is \<open>None\<close>; an absent string is empty.
\<close>

definition OverflowBlock :: string where "OverflowBlock = ''block''"
definition OverflowDropNew :: string where "OverflowDropNew = ''drop_new''"
definition OverflowDropOldest :: string where "OverflowDropOldest = ''drop_oldest''"
definition OverflowError :: string where "OverflowError = ''error''"

definition StateAccessDeepCopy :: string where "StateAccessDeepCopy = ''deep_copy''"
definition StateAccessUnsafeDirectReference :: string where
  "StateAccessUnsafeDirectReference = ''unsafe_direct_reference''"

record TaskPolicy =
  tp_Name :: string
  tp_SkipOnNoInput :: "bool option"

record ChannelPolicy =
  cp_Name :: string
  cp_BufferSize :: "int option"
  cp_OverflowStrategy :: string

record StatePolicy =
  sp_AccessMode :: string

record StallPolicy =
  sl_Interval :: duration
  sl_Tolerance :: int

record LoopControlConfig =
  lc_Parallel :: int
  lc_LoopVar :: string

record RetryConfig =
  rt_Attempts :: int
  rt_Delay :: string
  rt_MaxDelay :: string
  rt_BackoffFactor :: "gofloat option"
  rt_Jitter :: "gofloat option"
  rt_OnError :: "bool option"

record Task =
  tk_Name :: string
  tk_Type :: string
  tk_Params :: params
  tk_Register :: string
  tk_StreamInputs :: "string list"
  tk_IgnoreErrors :: bool
  tk_When :: string
  tk_Loop :: goval
  tk_LoopControl :: "LoopControlConfig option"
  tk_Retry :: "RetryConfig option"
  tk_Timeout :: string
  tk_PolicyRef :: string
  tk_Policy :: "TaskPolicy option"
  tk_StatePolicy :: "StatePolicy option"
  tk_InternalID :: string

record Playbook =
  pb_Name :: string
  pb_SchemaVersion :: string
  pb_Vars :: params
  pb_Tasks :: "Task list"
  pb_TaskPolicy :: "TaskPolicy option"
  pb_ChannelPolicy :: "ChannelPolicy option"
  pb_StatePolicy :: "StatePolicy option"
  pb_FilePath :: string

text \<open>A task with nothing but a name and a type, for examples.\<close>

definition plain_task :: "string \<Rightarrow> string \<Rightarrow> Task" where
  "plain_task n ty = \<lparr>tk_Name = n, tk_Type = ty, tk_Params = [], tk_Register = [], tk_StreamInputs = [],
     tk_IgnoreErrors = False, tk_When = [], tk_Loop = VNil, tk_LoopControl = None, tk_Retry = None,
     tk_Timeout = [], tk_PolicyRef = [], tk_Policy = None, tk_StatePolicy = None, tk_InternalID = []\<rparr>"

definition plain_playbook :: "Task list \<Rightarrow> Playbook" where
  "plain_playbook ts = \<lparr>pb_Name = [], pb_SchemaVersion = ''v1.0.0'', pb_Vars = [], pb_Tasks = ts,
     pb_TaskPolicy = None, pb_ChannelPolicy = None, pb_StatePolicy = None, pb_FilePath = []\<rparr>"

subsection \<open>Getters\<close>

definition GetLoopParallel :: "Task \<Rightarrow> int" where
  "GetLoopParallel t =
     (case tk_LoopControl t of
        Some lc \<Rightarrow> if lc_Parallel lc > 1 then lc_Parallel lc else 1
      | None \<Rightarrow> 1)"

definition GetLoopVar :: "Task \<Rightarrow> string" where
  "GetLoopVar t =
     (case tk_LoopControl t of
        Some lc \<Rightarrow> if lc_LoopVar lc \<noteq> [] then lc_LoopVar lc else ''item''
      | None \<Rightarrow> ''item'')"

definition GetRetryAttempts :: "Task \<Rightarrow> int" where
  "GetRetryAttempts t =
     (case tk_Retry t of
        Some r \<Rightarrow> if rt_Attempts r \<ge> 1 then rt_Attempts r else 1
      | None \<Rightarrow> 1)"

definition GetRetryDelay :: "Task \<Rightarrow> duration" where
  "GetRetryDelay t =
     (let delayStr = (case tk_Retry t of Some r \<Rightarrow> if rt_Delay r \<noteq> [] then rt_Delay r else ''1s''
                      | None \<Rightarrow> ''1s'')
      in case ParseDuration delayStr of
           Inl e \<Rightarrow> 1 * ns_per_s
         | Inr d \<Rightarrow> if d \<le> 0 then 1 * ns_per_s else d)"

definition GetRetryMaxDelay :: "Task \<Rightarrow> duration" where
  "GetRetryMaxDelay t =
     (case tk_Retry t of
        Some r \<Rightarrow>
          if rt_MaxDelay r \<noteq> [] then
            (case ParseDuration (rt_MaxDelay r) of Inl e \<Rightarrow> 0 | Inr d \<Rightarrow> if d < 0 then 0 else d)
          else 0
      | None \<Rightarrow> 0)"

text \<open>Go's comparisons of a float with a constant: NaN compares false.\<close>

fun float_ge :: "gofloat \<Rightarrow> rat \<Rightarrow> bool" where
  "float_ge (FNum x) y = (x \<ge> y)"
| "float_ge FPosInf y = True"
| "float_ge FNegInf y = False"
| "float_ge FNaN y = False"

fun float_lt :: "gofloat \<Rightarrow> rat \<Rightarrow> bool" where
  "float_lt (FNum x) y = (x < y)"
| "float_lt FPosInf y = False"
| "float_lt FNegInf y = True"
| "float_lt FNaN y = False"

fun float_gt :: "gofloat \<Rightarrow> rat \<Rightarrow> bool" where
  "float_gt (FNum x) y = (x > y)"
| "float_gt FPosInf y = True"
| "float_gt FNegInf y = False"
| "float_gt FNaN y = False"

definition GetRetryBackoffFactor :: "Task \<Rightarrow> gofloat" where
  "GetRetryBackoffFactor t =
     (case tk_Retry t of
        Some r \<Rightarrow>
          (case rt_BackoffFactor r of
             Some f \<Rightarrow> if float_ge f 1 then f else FNum 1
           | None \<Rightarrow> FNum 1)
      | None \<Rightarrow> FNum 1)"

definition GetRetryJitter :: "Task \<Rightarrow> gofloat" where
  "GetRetryJitter t =
     (case tk_Retry t of
        Some r \<Rightarrow>
          (case rt_Jitter r of
             Some jitter \<Rightarrow>
               if float_lt jitter 0 then FNum 0 else if float_gt jitter 1 then FNum 1 else jitter
           | None \<Rightarrow> FNum 0)
      | None \<Rightarrow> FNum 0)"

definition ShouldRetryOnError :: "Task \<Rightarrow> bool" where
  "ShouldRetryOnError t =
     (case tk_Retry t of
        Some r \<Rightarrow> (case rt_OnError r of Some b \<Rightarrow> b | None \<Rightarrow> True)
      | None \<Rightarrow> True)"

definition GetTimeout :: "Task \<Rightarrow> duration" where
  "GetTimeout t =
     (if tk_Timeout t = [] then 0
      else case ParseDuration (tk_Timeout t) of Inl e \<Rightarrow> 0 | Inr d \<Rightarrow> if d < 0 then 0 else d)"

lemma GetRetryAttempts_pos: "1 \<le> GetRetryAttempts t"
  by (simp add: GetRetryAttempts_def split: option.splits)

lemma GetRetryDelay_pos: "0 < GetRetryDelay t"
  by (simp add: GetRetryDelay_def Let_def ns_per_s_def split: sum.splits)

lemma GetRetryMaxDelay_nonneg: "0 \<le> GetRetryMaxDelay t"
  by (simp add: GetRetryMaxDelay_def split: option.splits sum.splits)

lemma GetTimeout_nonneg: "0 \<le> GetTimeout t"
  by (simp add: GetTimeout_def split: sum.splits)

lemma GetLoopParallel_pos: "1 \<le> GetLoopParallel t"
  by (simp add: GetLoopParallel_def split: option.splits)

lemma GetLoopVar_not_Nil: "GetLoopVar t \<noteq> []"
  by (simp add: GetLoopVar_def split: option.splits)

lemma GetRetryBackoffFactor_ge: "float_ge (GetRetryBackoffFactor t) 1"
  by (simp add: GetRetryBackoffFactor_def split: option.splits)

subsection \<open>Internal task ids\<close>

definition index_id :: "nat \<Rightarrow> string" where
  "index_id i = ''__task_idx_'' @ show_nat i"

definition assign_id :: "nat \<Rightarrow> Task \<Rightarrow> Task" where
  "assign_id i task = task\<lparr>tk_InternalID := (if tk_Name task \<noteq> [] then tk_Name task else index_id i)\<rparr>"

definition assignInternalTaskIDs :: "Playbook \<Rightarrow> Playbook" where
  "assignInternalTaskIDs p =
     p\<lparr>pb_Tasks := map (\<lambda>(i, task). assign_id i task) (List.enumerate 0 (pb_Tasks p))\<rparr>"

lemma index_id_inject [simp]: "index_id i = index_id j \<longleftrightarrow> i = j"
  by (simp add: index_id_def)

lemma length_assign [simp]: "length (pb_Tasks (assignInternalTaskIDs p)) = length (pb_Tasks p)"
  by (simp add: assignInternalTaskIDs_def)

lemma assign_nth:
  "i < length (pb_Tasks p) \<Longrightarrow> pb_Tasks (assignInternalTaskIDs p) ! i = assign_id i (pb_Tasks p ! i)"
  by (simp add: assignInternalTaskIDs_def nth_enumerate_eq)

lemma assign_id_not_Nil [simp]: "tk_InternalID (assign_id i t) \<noteq> []"
  by (simp add: assign_id_def index_id_def)

lemma assign_id_fields [simp]:
  "tk_Name (assign_id i t) = tk_Name t" "tk_Register (assign_id i t) = tk_Register t"
  "tk_StreamInputs (assign_id i t) = tk_StreamInputs t" "tk_Type (assign_id i t) = tk_Type t"
  by (simp_all add: assign_id_def)

definition task_ids :: "Playbook \<Rightarrow> string list" where
  "task_ids p = map tk_InternalID (pb_Tasks p)"

definition task_names :: "Playbook \<Rightarrow> string list" where
  "task_names p = filter (\<lambda>n. n \<noteq> []) (map tk_Name (pb_Tasks p))"

text \<open>No unnamed task's generated id is also some task's own name.\<close>

definition names_avoid_index_ids :: "Playbook \<Rightarrow> bool" where
  "names_avoid_index_ids p \<longleftrightarrow>
     (\<forall>i < length (pb_Tasks p). tk_Name (pb_Tasks p ! i) = [] \<longrightarrow>
        index_id i \<notin> set (map tk_Name (pb_Tasks p)))"

lemma distinct_filter_nthD:
  "distinct (filter P xs) \<Longrightarrow> i < length xs \<Longrightarrow> j < length xs \<Longrightarrow> P (xs ! i) \<Longrightarrow>
     xs ! i = xs ! j \<Longrightarrow> i = j"
proof (induction xs arbitrary: i j)
  case (Cons x xs)
  show ?case
  proof (cases i; cases j)
    fix i' assume "i = Suc i'" "j = 0"
    with Cons.prems show ?thesis by (auto simp: in_set_conv_nth split: if_splits)
  next
    fix j' assume "i = 0" "j = Suc j'"
    with Cons.prems show ?thesis by (auto simp: in_set_conv_nth split: if_splits)
  next
    fix i' j' assume "i = Suc i'" "j = Suc j'"
    with Cons show ?thesis by (auto split: if_splits)
  qed simp
qed simp

lemma distinct_task_ids:
  assumes names: "distinct (task_names p)" and avoid: "names_avoid_index_ids p"
  shows "distinct (task_ids (assignInternalTaskIDs p))"
proof -
  let ?ts = "pb_Tasks p"
  have id: "task_ids (assignInternalTaskIDs p) ! i = (if tk_Name (?ts ! i) \<noteq> [] then tk_Name (?ts ! i) else index_id i)"
    if "i < length ?ts" for i
    using that by (simp add: task_ids_def assign_nth assign_id_def)
  have avoid': "tk_Name (?ts ! j) \<noteq> index_id i" if "i < length ?ts" "j < length ?ts" "tk_Name (?ts ! i) = []" for i j
    using avoid that by (force simp: names_avoid_index_ids_def in_set_conv_nth)
  have "i = j" if ij: "i < length ?ts" "j < length ?ts"
    and eq: "task_ids (assignInternalTaskIDs p) ! i = task_ids (assignInternalTaskIDs p) ! j" for i j
  proof (cases "tk_Name (?ts ! i) = [] \<or> tk_Name (?ts ! j) = []")
    case True
    with ij eq avoid' show ?thesis by (auto simp: id split: if_splits) metis+
  next
    case False
    with ij eq have "map tk_Name ?ts ! i = map tk_Name ?ts ! j" by (simp add: id)
    with False ij names show ?thesis
      by (intro distinct_filter_nthD [of "\<lambda>n. n \<noteq> []" "map tk_Name ?ts"]) (simp_all add: task_names_def)
  qed
  then show ?thesis by (auto simp: distinct_conv_nth task_ids_def)
qed

end
