(* ===== verification/Gxo_Validate.thy ===== *)
theory Gxo_Validate
  imports Gxo_Config Gxo_Template
begin

text \<open>
  The logical validation of a playbook (\<open>internal/config/validation.go\<close>) and its loading
  (\<open>load.go\<close>, \<open>schema.go\<close>). The validator's accumulators are a state record, its loop over the
  tasks a recursion, and each group of checks a definition that returns the errors it appends.
  \<open>extract\<close> is the renderer's \<open>ExtractVariables\<close>.
\<close>

subsection \<open>The regular expressions\<close>

definition is_letter :: "char \<Rightarrow> bool" where
  "is_letter c \<longleftrightarrow> is_upper c \<or> is_lower c"

definition identifierRegex :: "string \<Rightarrow> bool" where
  "identifierRegex s \<longleftrightarrow> s \<noteq> [] \<and> (is_letter (hd s) \<or> hd s = CHR ''_'') \<and>
     list_all (\<lambda>c. is_letter c \<or> is_digit c \<or> c = CHR ''_'') (tl s)"

definition taskNameRegex :: "string \<Rightarrow> bool" where
  "taskNameRegex s \<longleftrightarrow> s \<noteq> [] \<and>
     list_all (\<lambda>c. is_letter c \<or> is_digit c \<or> c = CHR ''_'' \<or> c = CHR ''-'') s"

subsection \<open>Templates of a task\<close>

definition has_action :: "string \<Rightarrow> bool" where
  "has_action s \<longleftrightarrow> contains s ''{{'' \<and> contains s ''}}''"

definition collectTemplatesToScan :: "string ranger \<Rightarrow> Task \<Rightarrow> string list" where
  "collectTemplatesToScan rng task =
     (if tk_When task \<noteq> [] then [tk_When task] else []) @
     (case tk_Loop task of VStr loopStr \<Rightarrow> if loopStr \<noteq> [] then [loopStr] else [] | _ \<Rightarrow> []) @
     List.map_filter (\<lambda>k. case map_of (tk_Params task) k of
         Some (VStr strValue) \<Rightarrow> if has_action strValue then Some strValue else None
       | _ \<Rightarrow> None) (rng 0 (keys (tk_Params task)))"

definition task_templates :: "Task \<Rightarrow> string set" where
  "task_templates task = set (collectTemplatesToScan in_order task)"

lemma map_filter_set_cong:
  "set xs = set ys \<Longrightarrow> set (List.map_filter f xs) = set (List.map_filter f ys)"
  by (auto simp: List.map_filter_def)

lemma set_collectTemplatesToScan:
  assumes "permutes rng"
  shows "set (collectTemplatesToScan rng task) = task_templates task"
proof -
  have *: "set (List.map_filter f (rng 0 (keys (tk_Params task)))) =
      set (List.map_filter f (in_order 0 (keys (tk_Params task))))" for f :: "string \<Rightarrow> string option"
    using assms by (intro map_filter_set_cong) simp
  show ?thesis
    unfolding task_templates_def collectTemplatesToScan_def set_append * ..
qed

subsection \<open>The checks\<close>

definition VE :: "string \<Rightarrow> goerr" where
  "VE m = ValidationError m None"

definition q :: "string \<Rightarrow> string" where
  "q s = sq @ s @ sq"

definition taskDisplayName :: "nat \<Rightarrow> Task \<Rightarrow> string" where
  "taskDisplayName i task =
     (if tk_Name task \<noteq> [] then ''task '' @ show_nat i @ '' ('' @ q (tk_Name task) @ '')''
      else ''task '' @ show_nat i)"

record vstate =
  vs_taskNames :: "string list"
  vs_registeredVars :: "string gomap"
  vs_requiredTaskNames :: "string list"

definition valid_access_mode :: "string \<Rightarrow> bool" where
  "valid_access_mode m \<longleftrightarrow> m = [] \<or> m = StateAccessDeepCopy \<or> m = StateAccessUnsafeDirectReference"

definition when_err :: "bool \<Rightarrow> string \<Rightarrow> goerr list" where
  "when_err b m = (if b then [VE m] else [])"

lemma when_err_Nil [simp]: "when_err b m = [] \<longleftrightarrow> \<not> b"
  by (simp add: when_err_def)

definition check_global :: "Playbook \<Rightarrow> goerr list" where
  "check_global p =
     when_err (pb_Tasks p = []) (''playbook must contain at least one task in '' @ q ''tasks'' @ '' list'') @
     (case pb_ChannelPolicy p of None \<Rightarrow> []
      | Some cp \<Rightarrow>
          when_err (case cp_BufferSize cp of None \<Rightarrow> False | Some b \<Rightarrow> b < 0)
            ''global channel_policy buffer_size cannot be negative'') @
     (case pb_StatePolicy p of None \<Rightarrow> []
      | Some sp \<Rightarrow>
          when_err (\<not> valid_access_mode (sp_AccessMode sp))
            (''global state_policy has invalid access_mode: '' @ q (sp_AccessMode sp)))"

definition check_name :: "string \<Rightarrow> Task \<Rightarrow> vstate \<Rightarrow> goerr list \<times> vstate" where
  "check_name dn task st =
     (if tk_Name task \<noteq> [] then
        (when_err (\<not> taskNameRegex (tk_Name task))
           (dn @ '': name contains invalid characters (allowed: alphanumeric, underscore, hyphen)'') @
         when_err (tk_Name task \<in> set (vs_taskNames st)) (dn @ '': duplicate task name found''),
         st\<lparr>vs_taskNames := List.insert (tk_Name task) (vs_taskNames st)\<rparr>)
      else ([], st))"

definition check_type_policy :: "string \<Rightarrow> Task \<Rightarrow> goerr list" where
  "check_type_policy dn task =
     when_err (tk_Type task = []) (dn @ '': '' @ q ''type'' @ '' is required'') @
     (case tk_StatePolicy task of None \<Rightarrow> []
      | Some sp \<Rightarrow>
          when_err (\<not> valid_access_mode (sp_AccessMode sp))
            (dn @ '': state_policy has invalid access_mode: '' @ q (sp_AccessMode sp)))"

definition check_register :: "string \<Rightarrow> Task \<Rightarrow> vstate \<Rightarrow> goerr list \<times> vstate" where
  "check_register dn task st =
     (if tk_Register task \<noteq> [] then
        (when_err (\<not> identifierRegex (tk_Register task))
           (dn @ '': '' @ q ''register'' @ '' key '' @ q (tk_Register task) @ '' is not a valid identifier'') @
         (case map_of (vs_registeredVars st) (tk_Register task) of
            Some regTaskName \<Rightarrow>
              [VE (dn @ '': '' @ q ''register'' @ '' key '' @ q (tk_Register task) @
                 '' is already used by task '' @ q regTaskName)]
          | None \<Rightarrow> []) @
         when_err (tk_Name task = [])
           (dn @ '': '' @ q ''name'' @ '' is required when '' @ q ''register'' @ '' is used''),
         (case map_of (vs_registeredVars st) (tk_Register task) of
            Some regTaskName \<Rightarrow> st
          | None \<Rightarrow> st\<lparr>vs_registeredVars :=
              AList.update (tk_Register task) (tk_Name task) (vs_registeredVars st)\<rparr>))
      else ([], st))"

definition check_stream_inputs :: "string \<Rightarrow> Task \<Rightarrow> vstate \<Rightarrow> goerr list \<times> vstate" where
  "check_stream_inputs dn task st =
     (concat (map (\<lambda>target.
         when_err (\<not> taskNameRegex target)
           (dn @ '': '' @ q ''stream_inputs'' @ '' target '' @ q target @ '' contains invalid characters'') @
         when_err (tk_Name task \<noteq> [] \<and> target = tk_Name task)
           (dn @ '': '' @ q ''stream_inputs'' @ '' cannot target itself'')) (tk_StreamInputs task)),
      st\<lparr>vs_requiredTaskNames := fold List.insert (tk_StreamInputs task) (vs_requiredTaskNames st)\<rparr>)"

definition check_loop_control :: "string \<Rightarrow> Task \<Rightarrow> goerr list" where
  "check_loop_control dn task =
     (case tk_LoopControl task of None \<Rightarrow> []
      | Some lc \<Rightarrow>
          when_err (lc_LoopVar lc \<noteq> [] \<and> \<not> identifierRegex (lc_LoopVar lc))
            (dn @ '': '' @ q ''loop_control.loop_var'' @ '' ('' @ q (lc_LoopVar lc) @ '') is not a valid identifier'') @
          when_err (lc_Parallel lc < 0)
            (dn @ '': '' @ q ''loop_control.parallel'' @ '' cannot be negative''))"

text \<open>\<open>baseDelay\<close> is 0 when no delay is given; \<open>delayErr\<close> is the parse error, if any.\<close>

definition retry_baseDelay :: "RetryConfig \<Rightarrow> string + duration" where
  "retry_baseDelay r = (if rt_Delay r = [] then Inr 0 else ParseDuration (rt_Delay r))"

definition check_retry :: "string \<Rightarrow> Task \<Rightarrow> goerr list" where
  "check_retry dn task =
     (case tk_Retry task of None \<Rightarrow> []
      | Some r \<Rightarrow>
          when_err (rt_Attempts r < 1) (dn @ '': '' @ q ''retry.attempts'' @ '' must be at least 1'') @
          (case retry_baseDelay r of
             Inl e \<Rightarrow> [VE (dn @ '': invalid format for '' @ q ''retry.delay'' @ '': '' @ e)]
           | Inr d \<Rightarrow> when_err (d < 0) (dn @ '': '' @ q ''retry.delay'' @ '' cannot be negative'')) @
          (if rt_MaxDelay r = [] then []
           else case ParseDuration (rt_MaxDelay r) of
             Inl e \<Rightarrow> [VE (dn @ '': invalid format for '' @ q ''retry.max_delay'' @ '': '' @ e)]
           | Inr m \<Rightarrow>
               (case retry_baseDelay r of
                  Inl e \<Rightarrow> []
                | Inr d \<Rightarrow>
                    when_err (m > 0 \<and> m < d)
                      (dn @ '': '' @ q ''retry.max_delay'' @ '' ('' @ DurationString m @
                       '') cannot be less than '' @ q ''retry.delay'' @ '' ('' @ DurationString d @ '')''))))"

definition check_timeout :: "string \<Rightarrow> Task \<Rightarrow> goerr list" where
  "check_timeout dn task =
     (if tk_Timeout task = [] then []
      else case ParseDuration (tk_Timeout task) of
        Inl e \<Rightarrow> [VE (dn @ '': invalid format for '' @ q ''timeout'' @ '': '' @ e)]
      | Inr d \<Rightarrow> [])"

text \<open>One variable of one template: its errors and the task name it requires, if any.\<close>

definition tasksPrefix :: string where
  "tasksPrefix = GxoStateKeyPrefix @ ''.tasks.''"

definition is_status_path :: "string \<Rightarrow> bool" where
  "is_status_path path \<longleftrightarrow> prefix tasksPrefix path \<and> suffix ''.status'' path"

definition status_ref :: "string \<Rightarrow> string option" where
  "status_ref path =
     (if is_status_path path then
        (case split_on CHR ''.'' path of [_, _, referencedTaskName, _] \<Rightarrow> Some referencedTaskName | _ \<Rightarrow> None)
      else None)"

definition check_var :: "string \<Rightarrow> Task \<Rightarrow> string gomap \<Rightarrow> string \<Rightarrow> goerr list" where
  "check_var dn task registered path =
     (if is_status_path path then
        (case status_ref path of
           Some referencedTaskName \<Rightarrow>
             when_err (tk_Name task \<noteq> [] \<and> referencedTaskName = tk_Name task)
               (dn @ '': task cannot depend on its own status via template ('' @ q path @ '')'')
         | None \<Rightarrow> [])
      else
        (case map_of registered path of
           Some regTaskName \<Rightarrow>
             when_err (tk_Name task \<noteq> [] \<and> regTaskName = tk_Name task)
               (dn @ '': task cannot depend on its own registered variable via template ('' @ q path @ '')'')
         | None \<Rightarrow> []))"

type_synonym extractor = "string \<Rightarrow> goerr + string list"

definition template_vars_of :: "extractor \<Rightarrow> string \<Rightarrow> string list" where
  "template_vars_of extract tmpl = (case extract tmpl of Inl e \<Rightarrow> [] | Inr vars \<Rightarrow> vars)"

definition check_template :: "extractor \<Rightarrow> string \<Rightarrow> Task \<Rightarrow> string gomap \<Rightarrow> string \<Rightarrow> goerr list" where
  "check_template extract dn task registered tmpl =
     (case extract tmpl of
        Inl extractErr \<Rightarrow>
          [ValidationError (dn @ '': error parsing template ['' @ tmpl @ '']: '' @ Error extractErr) (Some extractErr)]
      | Inr vars \<Rightarrow> concat (map (check_var dn task registered) vars))"

definition template_refs :: "extractor \<Rightarrow> string list \<Rightarrow> string list" where
  "template_refs extract tmpls =
     List.map_filter status_ref (concat (map (template_vars_of extract) tmpls))"

definition check_templates :: "string ranger \<Rightarrow> extractor \<Rightarrow> string \<Rightarrow> Task \<Rightarrow> vstate \<Rightarrow> goerr list \<times> vstate" where
  "check_templates rng extract dn task st =
     (let tmpls = collectTemplatesToScan rng task
      in (concat (map (check_template extract dn task (vs_registeredVars st)) tmpls),
          st\<lparr>vs_requiredTaskNames := fold List.insert (template_refs extract tmpls) (vs_requiredTaskNames st)\<rparr>))"

definition validate_task :: "string ranger \<Rightarrow> extractor \<Rightarrow> nat \<Rightarrow> Task \<Rightarrow> vstate \<Rightarrow> goerr list \<times> vstate" where
  "validate_task rng extract i task st =
     (let dn = taskDisplayName i task;
          (e1, st1) = check_name dn task st;
          e2 = check_type_policy dn task;
          (e3, st2) = check_register dn task st1;
          (e4, st3) = check_stream_inputs dn task st2;
          e5 = check_loop_control dn task;
          e6 = check_retry dn task;
          e7 = check_timeout dn task;
          (e8, st4) = check_templates rng extract dn task st3
      in (e1 @ e2 @ e3 @ e4 @ e5 @ e6 @ e7 @ e8, st4))"

fun validate_tasks :: "string ranger \<Rightarrow> extractor \<Rightarrow> nat \<Rightarrow> Task list \<Rightarrow> vstate \<Rightarrow> goerr list \<times> vstate" where
  "validate_tasks rng extract i [] st = ([], st)"
| "validate_tasks rng extract i (task # ts) st =
     (case validate_task rng extract i task st of (e, st') \<Rightarrow>
        (case validate_tasks rng extract (Suc i) ts st' of (es, st'') \<Rightarrow> (e @ es, st'')))"

definition vstate0 :: vstate where
  "vstate0 = \<lparr>vs_taskNames = [], vs_registeredVars = [], vs_requiredTaskNames = []\<rparr>"

definition check_required :: "string ranger \<Rightarrow> vstate \<Rightarrow> goerr list" where
  "check_required rng st =
     concat (map (\<lambda>reqName. when_err (reqName \<notin> set (vs_taskNames st))
        (''playbook validation failed: task name '' @ q reqName @
         '' is referenced by another task but is not defined'')) (rng 1 (vs_requiredTaskNames st)))"

definition ValidatePlaybookStructure :: "string ranger \<Rightarrow> extractor \<Rightarrow> Playbook \<Rightarrow> goerr list" where
  "ValidatePlaybookStructure rng extract p =
     (case validate_tasks rng extract 0 (pb_Tasks p) vstate0 of
        (es, st) \<Rightarrow> check_global p @ es @ check_required rng st)"

subsection \<open>What the validator accepts\<close>

text \<open>The references a task's templates and stream inputs make to other tasks.\<close>

definition required_by :: "extractor \<Rightarrow> Task \<Rightarrow> string set" where
  "required_by extract task =
     set (tk_StreamInputs task) \<union>
     {ref. \<exists>tmpl \<in> task_templates task. \<exists>path \<in> set (template_vars_of extract tmpl). status_ref path = Some ref}"

definition own_reference :: "Task \<Rightarrow> string \<Rightarrow> bool" where
  "own_reference task path \<longleftrightarrow>
     (if is_status_path path then tk_Name task \<noteq> [] \<and> status_ref path = Some (tk_Name task)
      else tk_Register task \<noteq> [] \<and> path = tk_Register task)"

definition retry_ok :: "RetryConfig \<Rightarrow> bool" where
  "retry_ok r \<longleftrightarrow> 1 \<le> rt_Attempts r \<and>
     (\<exists>d. retry_baseDelay r = Inr d \<and> 0 \<le> d \<and>
       (rt_MaxDelay r = [] \<or> (\<exists>m. ParseDuration (rt_MaxDelay r) = Inr m \<and> (m \<le> 0 \<or> d \<le> m))))"

definition task_ok :: "extractor \<Rightarrow> Task \<Rightarrow> bool" where
  "task_ok extract task \<longleftrightarrow>
     (tk_Name task \<noteq> [] \<longrightarrow> taskNameRegex (tk_Name task)) \<and>
     tk_Type task \<noteq> [] \<and>
     (\<forall>sp. tk_StatePolicy task = Some sp \<longrightarrow> valid_access_mode (sp_AccessMode sp)) \<and>
     (tk_Register task \<noteq> [] \<longrightarrow> identifierRegex (tk_Register task) \<and> tk_Name task \<noteq> []) \<and>
     (\<forall>target \<in> set (tk_StreamInputs task). taskNameRegex target \<and> target \<noteq> tk_Name task) \<and>
     (\<forall>lc. tk_LoopControl task = Some lc \<longrightarrow>
        (lc_LoopVar lc = [] \<or> identifierRegex (lc_LoopVar lc)) \<and> 0 \<le> lc_Parallel lc) \<and>
     (\<forall>r. tk_Retry task = Some r \<longrightarrow> retry_ok r) \<and>
     (tk_Timeout task = [] \<or> (\<exists>d. ParseDuration (tk_Timeout task) = Inr d)) \<and>
     (\<forall>tmpl \<in> task_templates task. \<exists>vars. extract tmpl = Inr vars \<and> (\<forall>path \<in> set vars. \<not> own_reference task path))"

definition task_registers :: "Playbook \<Rightarrow> string list" where
  "task_registers p = filter (\<lambda>r. r \<noteq> []) (map tk_Register (pb_Tasks p))"

definition wf_playbook :: "extractor \<Rightarrow> Playbook \<Rightarrow> bool" where
  "wf_playbook extract p \<longleftrightarrow>
     check_global p = [] \<and> (\<forall>task \<in> set (pb_Tasks p). task_ok extract task) \<and>
     distinct (task_names p) \<and> distinct (task_registers p) \<and>
     (\<forall>task \<in> set (pb_Tasks p). required_by extract task \<subseteq> set (task_names p))"

text \<open>The checks of one task, as its own conditions and those against the tasks before it.\<close>

definition names_known :: "vstate \<Rightarrow> bool" where
  "names_known st \<longleftrightarrow> (\<forall>r n. map_of (vs_registeredVars st) r = Some n \<longrightarrow> n \<noteq> [] \<longrightarrow> n \<in> set (vs_taskNames st))"

definition fresh_in :: "vstate \<Rightarrow> Task \<Rightarrow> bool" where
  "fresh_in st task \<longleftrightarrow>
     (tk_Name task = [] \<or> tk_Name task \<notin> set (vs_taskNames st)) \<and>
     (tk_Register task = [] \<or> map_of (vs_registeredVars st) (tk_Register task) = None)"

definition after_task :: "extractor \<Rightarrow> Task \<Rightarrow> vstate \<Rightarrow> vstate \<Rightarrow> bool" where
  "after_task extract task st st' \<longleftrightarrow>
     set (vs_taskNames st') = set (vs_taskNames st) \<union> ({tk_Name task} - {[]}) \<and>
     dom (map_of (vs_registeredVars st')) = dom (map_of (vs_registeredVars st)) \<union> ({tk_Register task} - {[]}) \<and>
     set (vs_requiredTaskNames st') = set (vs_requiredTaskNames st) \<union> required_by extract task"

lemma set_fold_insert [simp]: "set (fold List.insert xs ys) = set xs \<union> set ys"
  by (induction xs arbitrary: ys) auto

lemma set_map_filter: "set (List.map_filter f xs) = {y. \<exists>x \<in> set xs. f x = Some y}"
  by (auto simp: List.map_filter_def) force

lemma set_template_refs:
  "set (template_refs extract tmpls) =
     {ref. \<exists>tmpl \<in> set tmpls. \<exists>path \<in> set (template_vars_of extract tmpl). status_ref path = Some ref}"
  by (auto simp: template_refs_def set_map_filter)

lemmas check_defs = check_name_def check_register_def check_stream_inputs_def check_templates_def Let_def

lemma validate_task_state:
  assumes "permutes rng"
  shows "after_task extract task st (snd (validate_task rng extract i task st))"
  using set_collectTemplatesToScan [OF assms, of task]
  by (auto simp: after_task_def validate_task_def check_defs required_by_def set_template_refs
      split: option.splits if_splits)

lemma validate_task_names_known:
  "names_known st \<Longrightarrow> names_known (snd (validate_task rng extract i task st))"
  by (auto simp: names_known_def validate_task_def check_defs split: option.splits if_splits)

text \<open>When each group of checks reports nothing.\<close>

lemma check_name_Nil:
  "fst (check_name dn task st) = [] \<longleftrightarrow>
     tk_Name task = [] \<or> taskNameRegex (tk_Name task) \<and> tk_Name task \<notin> set (vs_taskNames st)"
  by (auto simp: check_name_def)

lemma check_type_policy_Nil:
  "check_type_policy dn task = [] \<longleftrightarrow>
     tk_Type task \<noteq> [] \<and> (\<forall>sp. tk_StatePolicy task = Some sp \<longrightarrow> valid_access_mode (sp_AccessMode sp))"
  by (auto simp: check_type_policy_def split: option.splits)

lemma check_register_Nil:
  "fst (check_register dn task st) = [] \<longleftrightarrow>
     tk_Register task = [] \<or> identifierRegex (tk_Register task) \<and> tk_Name task \<noteq> [] \<and>
       map_of (vs_registeredVars st) (tk_Register task) = None"
  by (auto simp: check_register_def split: option.splits)

lemma check_stream_inputs_Nil:
  "fst (check_stream_inputs dn task st) = [] \<longleftrightarrow>
     (\<forall>target \<in> set (tk_StreamInputs task). taskNameRegex target \<and> target \<noteq> tk_Name task)"
  by (auto simp: check_stream_inputs_def taskNameRegex_def)

lemma check_loop_control_Nil:
  "check_loop_control dn task = [] \<longleftrightarrow>
     (\<forall>lc. tk_LoopControl task = Some lc \<longrightarrow>
        (lc_LoopVar lc = [] \<or> identifierRegex (lc_LoopVar lc)) \<and> 0 \<le> lc_Parallel lc)"
  by (auto simp: check_loop_control_def split: option.splits)

lemma check_retry_Nil: "check_retry dn task = [] \<longleftrightarrow> (\<forall>r. tk_Retry task = Some r \<longrightarrow> retry_ok r)"
  by (auto simp: check_retry_def retry_ok_def split: option.splits sum.splits)

lemma check_timeout_Nil:
  "check_timeout dn task = [] \<longleftrightarrow> tk_Timeout task = [] \<or> (\<exists>d. ParseDuration (tk_Timeout task) = Inr d)"
  by (auto simp: check_timeout_def split: sum.splits)

lemma check_var_Nil:
  "check_var dn task reg path = [] \<longleftrightarrow>
     \<not> (if is_status_path path then tk_Name task \<noteq> [] \<and> status_ref path = Some (tk_Name task)
        else tk_Name task \<noteq> [] \<and> map_of reg path = Some (tk_Name task))"
  by (auto simp: check_var_def split: option.splits)

lemma check_template_Nil:
  "check_template extract dn task reg tmpl = [] \<longleftrightarrow>
     (\<exists>vars. extract tmpl = Inr vars \<and> (\<forall>path \<in> set vars. check_var dn task reg path = []))"
  by (auto simp: check_template_def split: sum.splits)

lemma check_templates_Nil:
  "permutes rng \<Longrightarrow> fst (check_templates rng extract dn task st) = [] \<longleftrightarrow>
     (\<forall>tmpl \<in> task_templates task. check_template extract dn task (vs_registeredVars st) tmpl = [])"
  by (simp add: check_templates_def Let_def set_collectTemplatesToScan)

lemma fst_validate_task:
  "fst (validate_task rng extract i task st) = [] \<longleftrightarrow>
     (let dn = taskDisplayName i task; st1 = snd (check_name dn task st);
          st2 = snd (check_register dn task st1); st3 = snd (check_stream_inputs dn task st2)
      in fst (check_name dn task st) = [] \<and> check_type_policy dn task = [] \<and>
         fst (check_register dn task st1) = [] \<and> fst (check_stream_inputs dn task st2) = [] \<and>
         check_loop_control dn task = [] \<and> check_retry dn task = [] \<and> check_timeout dn task = [] \<and>
         fst (check_templates rng extract dn task st3) = [])"
  by (simp add: validate_task_def Let_def split_beta)

lemma registered_snd [simp]:
  "vs_registeredVars (snd (check_name dn task st)) = vs_registeredVars st"
  "vs_registeredVars (snd (check_stream_inputs dn task st)) = vs_registeredVars st"
  by (simp_all add: check_name_def check_stream_inputs_def)

text \<open>
  Where the task is fresh, a variable registered under the task's own name is exactly its own
  \<open>register\<close> key: the keys before it belong to other tasks.
\<close>

lemma own_registered:
  assumes "names_known st" and "fresh_in st task" and "tk_Register task \<noteq> [] \<longrightarrow> tk_Name task \<noteq> []"
  shows "tk_Name task \<noteq> [] \<and>
      map_of (vs_registeredVars (snd (check_register dn task (snd (check_name dn task st))))) path = Some (tk_Name task)
    \<longleftrightarrow> tk_Register task \<noteq> [] \<and> path = tk_Register task"
proof -
  have "map_of (vs_registeredVars st) path \<noteq> Some (tk_Name task)" if "tk_Name task \<noteq> []"
    using assms(1,2) that by (auto simp: names_known_def fresh_in_def)
  with assms(2,3) show ?thesis
    by (auto simp: check_register_def fresh_in_def split: if_splits)
qed

lemma validate_task_Nil:
  assumes "permutes rng" and "names_known st"
  shows "fst (validate_task rng extract i task st) = [] \<longleftrightarrow> task_ok extract task \<and> fresh_in st task"
proof (cases "fresh_in st task \<and> (tk_Register task \<noteq> [] \<longrightarrow> tk_Name task \<noteq> [])")
  case True
  let ?dn = "taskDisplayName i task"
  let ?reg = "vs_registeredVars (snd (check_register ?dn task (snd (check_name ?dn task st))))"
  have var: "check_var ?dn task ?reg path = [] \<longleftrightarrow> \<not> own_reference task path" for path
    using own_registered [OF assms(2)] True by (simp add: check_var_Nil own_reference_def)
  show ?thesis
    using True assms(1)
    by (auto simp: fst_validate_task Let_def check_name_Nil check_type_policy_Nil check_register_Nil
        check_stream_inputs_Nil check_loop_control_Nil check_retry_Nil check_timeout_Nil
        check_templates_Nil check_template_Nil var task_ok_def fresh_in_def)
next
  case False
  then show ?thesis
    by (auto simp: fst_validate_task Let_def check_name_Nil check_register_Nil task_ok_def fresh_in_def)
qed

subsection \<open>The loop over the tasks\<close>

abbreviation ne_names :: "Task list \<Rightarrow> string list" where
  "ne_names ts \<equiv> filter (\<lambda>n. n \<noteq> []) (map tk_Name ts)"

abbreviation ne_registers :: "Task list \<Rightarrow> string list" where
  "ne_registers ts \<equiv> filter (\<lambda>r. r \<noteq> []) (map tk_Register ts)"

lemma validate_tasks_state:
  assumes "permutes rng"
  shows "set (vs_taskNames (snd (validate_tasks rng extract i ts st))) = set (vs_taskNames st) \<union> set (ne_names ts) \<and>
     set (vs_requiredTaskNames (snd (validate_tasks rng extract i ts st))) =
       set (vs_requiredTaskNames st) \<union> (\<Union>task \<in> set ts. required_by extract task)"
proof (induction ts arbitrary: i st)
  case Nil
  then show ?case by simp
next
  case (Cons task ts)
  have "after_task extract task st (snd (validate_task rng extract i task st))"
    by (rule validate_task_state [OF assms])
  with Cons.IH [of "Suc i" "snd (validate_task rng extract i task st)"] show ?case
    by (auto simp: split_beta after_task_def)
qed

lemma validate_tasks_Nil:
  assumes "permutes rng" and "names_known st"
  shows "fst (validate_tasks rng extract i ts st) = [] \<longleftrightarrow>
     (\<forall>task \<in> set ts. task_ok extract task) \<and>
     distinct (ne_names ts) \<and> set (ne_names ts) \<inter> set (vs_taskNames st) = {} \<and>
     distinct (ne_registers ts) \<and> set (ne_registers ts) \<inter> dom (map_of (vs_registeredVars st)) = {}"
  using assms(2)
proof (induction ts arbitrary: i st)
  case Nil
  then show ?case by simp
next
  case (Cons task ts)
  let ?st' = "snd (validate_task rng extract i task st)"
  have "names_known ?st'" using Cons.prems by (rule validate_task_names_known)
  note IH = Cons.IH [OF this]
  have after: "after_task extract task st ?st'" by (rule validate_task_state [OF assms(1)])
  show ?case
    using after
    by (simp add: split_beta validate_task_Nil [OF assms(1) Cons.prems] IH after_task_def)
      (auto simp: fresh_in_def)
qed

theorem validate_iff_wf:
  assumes "permutes rng"
  shows "ValidatePlaybookStructure rng extract p = [] \<longleftrightarrow> wf_playbook extract p"
proof -
  let ?r = "validate_tasks rng extract 0 (pb_Tasks p) vstate0"
  have known: "names_known vstate0" by (simp add: names_known_def vstate0_def)
  have names: "set (vs_taskNames (snd ?r)) = set (task_names p)"
    and req: "set (vs_requiredTaskNames (snd ?r)) = (\<Union>task \<in> set (pb_Tasks p). required_by extract task)"
    using validate_tasks_state [OF assms, of "extract" 0 "pb_Tasks p" vstate0]
    by (auto simp: vstate0_def task_names_def)
  have "check_required rng (snd ?r) = [] \<longleftrightarrow>
      (\<forall>task \<in> set (pb_Tasks p). required_by extract task \<subseteq> set (task_names p))"
    using assms by (auto simp: check_required_def names req)
  moreover have "fst ?r = [] \<longleftrightarrow> (\<forall>task \<in> set (pb_Tasks p). task_ok extract task) \<and>
      distinct (task_names p) \<and> distinct (task_registers p)"
    by (simp add: validate_tasks_Nil [OF assms known] task_names_def task_registers_def)
      (simp add: vstate0_def)
  ultimately show ?thesis
    by (auto simp: ValidatePlaybookStructure_def wf_playbook_def split_beta)
qed

end
