(* ===== verification/Gxo_Params.thy ===== *)
theory Gxo_Params
  imports Gxo_Floats Gxo_Validate
begin

text \<open>
  Access to module parameters (\<open>internal/paramutil/paramutil.go\<close>). An optional parameter that is
  absent is \<open>Inr None\<close>; a parameter of the wrong type is a validation error. \<open>show_val\<close> is how
  \<open>%v\<close> renders a float.
\<close>

definition must_be :: "string \<Rightarrow> string \<Rightarrow> goval \<Rightarrow> goerr" where
  "must_be key what v = VE (''parameter '' @ q key @ '' must be '' @ what @ '', got '' @ type_name v)"

definition missing_parameter :: "string \<Rightarrow> goerr" where
  "missing_parameter key = VE (''missing required parameter '' @ q key)"

definition GetRequiredString :: "params \<Rightarrow> string \<Rightarrow> goerr + string" where
  "GetRequiredString params key =
     (case map_of params key of
        None \<Rightarrow> Inl (missing_parameter key)
      | Some (VStr s) \<Rightarrow> Inr s
      | Some v \<Rightarrow> Inl (must_be key ''a string'' v))"

definition GetOptionalString :: "params \<Rightarrow> string \<Rightarrow> goerr + string option" where
  "GetOptionalString params key =
     (case map_of params key of
        None \<Rightarrow> Inr None
      | Some (VStr s) \<Rightarrow> Inr (Some s)
      | Some v \<Rightarrow> Inl (must_be key ''a string'' v))"

text \<open>A typed nil slice passes the type assertion and has no elements.\<close>

definition GetRequiredSlice :: "params \<Rightarrow> string \<Rightarrow> goerr + goval list" where
  "GetRequiredSlice params key =
     (case map_of params key of
        None \<Rightarrow> Inl (missing_parameter key)
      | Some (VSlice xs) \<Rightarrow> Inr xs
      | Some VNilSlice \<Rightarrow> Inr []
      | Some v \<Rightarrow> Inl (must_be key ''a list/slice'' v))"

fun strings_of :: "string \<Rightarrow> nat \<Rightarrow> goval list \<Rightarrow> goerr + string list" where
  "strings_of key i [] = Inr []"
| "strings_of key i (VStr s # xs) =
     (case strings_of key (Suc i) xs of Inl e \<Rightarrow> Inl e | Inr ss \<Rightarrow> Inr (s # ss))"
| "strings_of key i (v # xs) =
     Inl (VE (''parameter '' @ q key @
       '' must be a list/slice of strings, found non-string element at index '' @ show_nat i @ '' ('' @ type_name v @ '')''))"

definition GetOptionalStringSlice :: "params \<Rightarrow> string \<Rightarrow> goerr + string list option" where
  "GetOptionalStringSlice params key =
     (case map_of params key of
        None \<Rightarrow> Inr None
      | Some (VStrs ss) \<Rightarrow> Inr (Some ss)
      | Some (VSlice xs) \<Rightarrow> map_sum id Some (strings_of key 0 xs)
      | Some VNilSlice \<Rightarrow> Inr (Some [])
      | Some v \<Rightarrow> Inl (must_be key ''a list/slice'' v))"

text \<open>The entries of a \<open>map[interface{}]interface{}\<close> in the order of the range.\<close>

fun string_keyed :: "string \<Rightarrow> (goval \<times> goval) list \<Rightarrow> params \<Rightarrow> goerr + params" where
  "string_keyed key [] acc = Inr acc"
| "string_keyed key ((VStr k, v) # kvs) acc = string_keyed key kvs (AList.update k v acc)"
| "string_keyed key ((k, v) # kvs) acc =
     Inl (VE (''parameter '' @ q key @ '' must be a map with string keys, found key of type '' @ type_name k))"

definition GetOptionalMap :: "(goval \<times> goval) ranger \<Rightarrow> params \<Rightarrow> string \<Rightarrow> goerr + params option" where
  "GetOptionalMap rng params key =
     (case map_of params key of
        None \<Rightarrow> Inr None
      | Some (VMap m) \<Rightarrow> Inr (Some m)
      | Some VNilMap \<Rightarrow> Inr (Some [])
      | Some (VAnyMap kvs) \<Rightarrow> map_sum id Some (string_keyed key (rng 0 kvs) [])
      | Some v \<Rightarrow> Inl (must_be key ''a map'' v))"

text \<open>Only the signed kinds are accepted; \<open>int\<close> and \<open>int64\<close> have the same width, so the overflow
  test for \<open>int64\<close> never fails.\<close>

definition signed_kind :: "intkind \<Rightarrow> bool" where
  "signed_kind k \<longleftrightarrow> k = KInt \<or> k = KInt8 \<or> k = KInt16 \<or> k = KInt32 \<or> k = KInt64"

definition GetOptionalInt :: "float_env \<Rightarrow> (gofloat \<Rightarrow> string) \<Rightarrow> params \<Rightarrow> string \<Rightarrow> goerr + int option" where
  "GetOptionalInt fe show_val params key =
     (case map_of params key of
        None \<Rightarrow> Inr None
      | Some (VInt k i) \<Rightarrow>
          if signed_kind k then Inr (Some i)
          else Inl (must_be key ''an integer or whole number'' (VInt k i))
      | Some (VFloat k f) \<Rightarrow>
          if whole_number fe k f then Inr (Some (to_int64 fe f))
          else Inl (VE (''parameter '' @ q key @ '' is a non-integer float ('' @ show_val f @ ''), cannot convert to int''))
      | Some v \<Rightarrow> Inl (must_be key ''an integer or whole number'' v))"

definition GetOptionalBool :: "params \<Rightarrow> string \<Rightarrow> goerr + bool option" where
  "GetOptionalBool params key =
     (case map_of params key of
        None \<Rightarrow> Inr None
      | Some (VBool b) \<Rightarrow> Inr (Some b)
      | Some v \<Rightarrow> Inl (must_be key ''a boolean'' v))"

definition CheckRequired :: "params \<Rightarrow> string list \<Rightarrow> goerr option" where
  "CheckRequired params required =
     map_option missing_parameter (List.find (\<lambda>k. map_of params k = None) required)"

definition CheckAllowed :: "string ranger \<Rightarrow> params \<Rightarrow> string list \<Rightarrow> goerr option" where
  "CheckAllowed rng params allowed =
     (if allowed = [] then None
      else map_option (\<lambda>k. VE (''unknown parameter '' @ q k @ '' provided''))
             (List.find (\<lambda>k. k \<notin> set allowed) (rng 0 (keys params))))"

text \<open>The scan with the first key found so far.\<close>

fun check_exclusive :: "params \<Rightarrow> string option \<Rightarrow> string list \<Rightarrow> goerr option" where
  "check_exclusive params found [] = None"
| "check_exclusive params found (k # ks) =
     (if map_of params k \<noteq> None then
        (case found of
           Some k0 \<Rightarrow> Some (VE (''parameters '' @ q k0 @ '' and '' @ q k @ '' are mutually exclusive''))
         | None \<Rightarrow> check_exclusive params (Some k) ks)
      else check_exclusive params found ks)"

definition CheckExclusive :: "params \<Rightarrow> string list \<Rightarrow> goerr option" where
  "CheckExclusive params exclusiveKeys = check_exclusive params None exclusiveKeys"

definition is_nil :: "goval \<Rightarrow> bool" where
  "is_nil v \<longleftrightarrow> v = VNil \<or> v = VNilMap \<or> v = VNilSlice"

fun Coalesce :: "goval list \<Rightarrow> goval" where
  "Coalesce [] = VNil"
| "Coalesce (v # vs) = (if is_nil v then Coalesce vs else v)"

subsection \<open>What the checks decide\<close>

lemma find_None_set: "List.find P xs = None \<longleftrightarrow> (\<forall>x \<in> set xs. \<not> P x)"
  by (auto simp: find_None_iff)

lemma CheckRequired_None: "CheckRequired params required = None \<longleftrightarrow> set required \<subseteq> set (keys params)"
  by (auto simp: CheckRequired_def find_None_set set_keys)

lemma CheckAllowed_None:
  "permutes rng \<Longrightarrow> CheckAllowed rng params allowed = None \<longleftrightarrow> allowed = [] \<or> set (keys params) \<subseteq> set allowed"
  by (auto simp: CheckAllowed_def find_None_set)

lemma check_exclusive_None:
  "check_exclusive params found ks = None \<longleftrightarrow>
     length (filter (\<lambda>k. k \<in> set (keys params)) ks) + (if found = None then 0 else 1) \<le> 1 \<or>
     filter (\<lambda>k. k \<in> set (keys params)) ks = []"
  by (induction params found ks rule: check_exclusive.induct) (auto simp: set_keys)

lemma CheckExclusive_None:
  "CheckExclusive params ks = None \<longleftrightarrow> length (filter (\<lambda>k. k \<in> set (keys params)) ks) \<le> 1"
  unfolding CheckExclusive_def check_exclusive_None by auto

lemma map_VStr_eq [simp]: "map VStr xs = map VStr ys \<longleftrightarrow> xs = ys"
  by (simp add: inj_map_eq_map inj_def)

lemma strings_of_Inr: "strings_of key i xs = Inr ss \<longleftrightarrow> xs = map VStr ss"
  by (induction key i xs arbitrary: ss rule: strings_of.induct) (auto split: sum.splits, metis)

fun text_of :: "goval \<Rightarrow> string" where
  "text_of (VStr s) = s"
| "text_of _ = []"

definition is_text :: "goval \<Rightarrow> bool" where
  "is_text v \<longleftrightarrow> v = VStr (text_of v)"

lemma string_keyed_result:
  "string_keyed key kvs acc =
     (case List.find (\<lambda>(k, v). \<not> is_text k) kvs of
        None \<Rightarrow> Inr (fold (\<lambda>(k, v). AList.update (text_of k) v) kvs acc)
      | Some (k, v) \<Rightarrow> Inl (VE (''parameter '' @ q key @ '' must be a map with string keys, found key of type '' @ type_name k)))"
  by (induction key kvs acc rule: string_keyed.induct) (simp_all add: is_text_def cong del: option.case_cong_weak)

text \<open>A whole number in the range of int64 comes back as itself, from any accepted kind.\<close>

lemma GetOptionalInt_whole:
  assumes "fe_round fe (of_int i) = FNum (of_int i)" and "in_int64 i"
    and "map_of params key = Some (VFloat KFloat64 (FNum (of_int i)))"
  shows "GetOptionalInt fe show_val params key = Inr (Some i)"
  using assms by (simp add: GetOptionalInt_def whole_number_def to_int64_def)

lemma Coalesce_find: "Coalesce vs = (case List.find (\<lambda>v. \<not> is_nil v) vs of None \<Rightarrow> VNil | Some v \<Rightarrow> v)"
  by (induction vs) auto

text \<open>A slice of strings is read exactly from a list whose elements are all strings.\<close>

lemma GetOptionalStringSlice_exact:
  assumes "map_of params k = Some (VSlice xs)"
  shows "GetOptionalStringSlice params k = Inr (Some ss) \<longleftrightarrow> xs = map VStr ss"
proof -
  have "GetOptionalStringSlice params k = Inr (Some ss) \<longleftrightarrow> strings_of k 0 xs = Inr ss"
    using assms by (cases "strings_of k 0 xs") (simp_all add: GetOptionalStringSlice_def)
  then show ?thesis by (simp add: strings_of_Inr)
qed

end
