(* ===== verification/Gxo_Graph.thy ===== *)
theory Gxo_Graph
  imports Gxo_Prelude
begin

text \<open>
  Cycle detection as \<open>internal/engine/dag.go\<close> does it: \<open>hasCycleDFS\<close> with the two maps \<open>path\<close>
  and \<open>visited\<close> passed along, its loop over the dependents of a node, and the outer loop of
  \<open>detectCycle\<close>. The recursion carries fuel; running out is \<open>None\<close>, and as much fuel as there
  are vertices is enough. The interface to the graph is a locale.
\<close>

subsection \<open>The search\<close>

function hasCycleDFS ::
    "nat \<Rightarrow> ('a \<Rightarrow> 'a list) \<Rightarrow> 'a \<Rightarrow> ('a \<Rightarrow> bool) \<Rightarrow> ('a \<Rightarrow> bool) \<Rightarrow> (bool \<times> ('a \<Rightarrow> bool) \<times> ('a \<Rightarrow> bool)) option"
  and visitDependents ::
    "nat \<Rightarrow> ('a \<Rightarrow> 'a list) \<Rightarrow> 'a list \<Rightarrow> ('a \<Rightarrow> bool) \<Rightarrow> ('a \<Rightarrow> bool) \<Rightarrow> (bool \<times> ('a \<Rightarrow> bool) \<times> ('a \<Rightarrow> bool)) option"
where
  "hasCycleDFS 0 requiredBy nodeID path visited = None"
| "hasCycleDFS (Suc fuel) requiredBy nodeID path visited =
     (case visitDependents fuel requiredBy (requiredBy nodeID) (path(nodeID := True)) (visited(nodeID := True)) of
        None \<Rightarrow> None
      | Some (found, path', visited') \<Rightarrow>
          if found then Some (True, path', visited') else Some (False, path'(nodeID := False), visited'))"
| "visitDependents fuel requiredBy [] path visited = Some (False, path, visited)"
| "visitDependents fuel requiredBy (dependentID # rest) path visited =
     (if path dependentID then Some (True, path, visited)
      else if \<not> visited dependentID then
        (case hasCycleDFS fuel requiredBy dependentID path visited of
           None \<Rightarrow> None
         | Some (found, path', visited') \<Rightarrow>
             if found then Some (True, path', visited') else visitDependents fuel requiredBy rest path' visited')
      else visitDependents fuel requiredBy rest path visited)"
  by pat_completeness auto
termination
  by (relation "measures [\<lambda>x. case x of Inl (f, _) \<Rightarrow> f | Inr (f, _) \<Rightarrow> f,
        \<lambda>x. case x of Inl _ \<Rightarrow> 0 | Inr (_, _, ds, _) \<Rightarrow> Suc (length ds)]") auto

fun detectCycleLoop ::
    "nat \<Rightarrow> ('a \<Rightarrow> 'a list) \<Rightarrow> 'a list \<Rightarrow> ('a \<Rightarrow> bool) \<Rightarrow> ('a \<Rightarrow> bool) \<Rightarrow> bool option" where
  "detectCycleLoop fuel requiredBy [] path visited = Some False"
| "detectCycleLoop fuel requiredBy (nodeID # rest) path visited =
     (if \<not> visited nodeID then
        (case hasCycleDFS fuel requiredBy nodeID path visited of
           None \<Rightarrow> None
         | Some (found, path', visited') \<Rightarrow>
             if found then Some True else detectCycleLoop fuel requiredBy rest path' visited')
      else detectCycleLoop fuel requiredBy rest path visited)"

subsection \<open>The graph interface\<close>

text \<open>
  What the search relies on: a finite list of vertices, and successors that stay among them.
\<close>

locale succ_graph =
  fixes verts :: "'g \<Rightarrow> 'a list"
    and succs :: "'g \<Rightarrow> 'a \<Rightarrow> 'a list"
    and wf_graph :: "'g \<Rightarrow> bool"
  assumes succs_closed: "wf_graph g \<Longrightarrow> x \<in> set (verts g) \<Longrightarrow> set (succs g x) \<subseteq> set (verts g)"
begin

definition arcs :: "'g \<Rightarrow> ('a \<times> 'a) set" where
  "arcs g = {(x, y). x \<in> set (verts g) \<and> y \<in> set (succs g x)}"

definition black :: "('a \<Rightarrow> bool) \<Rightarrow> ('a \<Rightarrow> bool) \<Rightarrow> 'a set" where
  "black path visited = {x. visited x \<and> \<not> path x}"

definition search_inv :: "'g \<Rightarrow> ('a \<Rightarrow> bool) \<Rightarrow> ('a \<Rightarrow> bool) \<Rightarrow> bool" where
  "search_inv g path visited \<longleftrightarrow>
     {x. visited x} \<subseteq> set (verts g) \<and> (\<forall>x. path x \<longrightarrow> visited x) \<and>
     (\<forall>b \<in> black path visited. set (succs g b) \<subseteq> black path visited) \<and>
     (\<forall>b \<in> black path visited. (b, b) \<notin> (arcs g)\<^sup>+)"

definition unvisited :: "'g \<Rightarrow> ('a \<Rightarrow> bool) \<Rightarrow> nat" where
  "unvisited g visited = card {x \<in> set (verts g). \<not> visited x}"

lemma unvisited_mono: "visited \<le> visited' \<Longrightarrow> unvisited g visited' \<le> unvisited g visited"
  by (auto simp: unvisited_def le_fun_def intro!: card_mono)

lemma unvisited_mark:
  assumes "x \<in> set (verts g)" and "\<not> visited x"
  shows "Suc (unvisited g (visited(x := True))) = unvisited g visited"
proof -
  have "{y \<in> set (verts g). \<not> visited y} = insert x {y \<in> set (verts g). \<not> (visited(x := True)) y}"
    using assms by auto
  then show ?thesis by (simp add: unvisited_def)
qed

lemma visited_grows:
  "hasCycleDFS fuel (succs g) n path visited = Some (b, path', visited') \<Longrightarrow> visited \<le> visited' \<and> visited' n"
  "visitDependents fuel (succs g) ds path visited = Some (b, path', visited') \<Longrightarrow> visited \<le> visited'"
proof (induction fuel "succs g" n path visited and fuel "succs g" ds path visited
    arbitrary: b path' visited' and b path' visited' rule: hasCycleDFS_visitDependents.induct)
  case (2 fuel nodeID path visited)
  then show ?case
    by (fastforce simp: le_fun_def split: option.splits if_splits prod.splits)
next
  case (4 fuel d rest path visited)
  then show ?case
    by (fastforce simp: le_fun_def split: option.splits if_splits prod.splits)
qed auto

lemma enough_fuel:
  assumes "wf_graph g"
  shows "n \<in> set (verts g) \<Longrightarrow> \<not> visited n \<Longrightarrow> unvisited g visited \<le> fuel \<Longrightarrow>
           hasCycleDFS fuel (succs g) n path visited \<noteq> None"
    and "set ds \<subseteq> set (verts g) \<Longrightarrow> unvisited g visited \<le> fuel \<Longrightarrow>
           visitDependents fuel (succs g) ds path visited \<noteq> None"
proof (induction fuel "succs g" n path visited and fuel "succs g" ds path visited
    rule: hasCycleDFS_visitDependents.induct)
  case (1 nodeID path visited)
  then have "{x \<in> set (verts g). \<not> visited x} = {}" by (simp add: unvisited_def)
  with 1 show ?case by blast
next
  case (2 fuel nodeID path visited)
  have "unvisited g (visited(nodeID := True)) \<le> fuel" using unvisited_mark [of nodeID g visited] 2(2-4) by simp
  with 2 succs_closed [OF assms] have "visitDependents fuel (succs g) (succs g nodeID)
      (path(nodeID := True)) (visited(nodeID := True)) \<noteq> None" by blast
  then show ?case by (auto split: option.splits)
next
  case (4 fuel d rest path visited)
  show ?case
  proof (cases "path d \<or> visited d")
    case True
    with 4 show ?thesis by auto
  next
    case False
    with 4 obtain b path' visited' where r: "hasCycleDFS fuel (succs g) d path visited = Some (b, path', visited')"
      by (cases "hasCycleDFS fuel (succs g) d path visited") auto
    with visited_grows(1) have "unvisited g visited' \<le> fuel"
      using unvisited_mono 4(5) by (meson order_trans)
    with 4 False r show ?thesis by auto
  qed
qed auto

text \<open>The two stacks of facts of one call: a failed search keeps the invariant and blackens its
  vertices; a successful one has found a cycle.\<close>

lemma black_finish:
  assumes inv: "search_inv g (path(n := True)) visited" and n: "n \<in> set (verts g)" "\<not> path n" "visited n"
    and kids: "set (succs g n) \<subseteq> black (path(n := True)) visited"
  shows "search_inv g path visited"
proof -
  obtain B where B: "B = black (path(n := True)) visited" by simp
  have black: "black path visited = insert n B" using n by (auto simp: black_def B)
  have closed: "set (succs g b) \<subseteq> B" and acyclic: "(b, b) \<notin> (arcs g)\<^sup>+" if "b \<in> B" for b
    using inv that by (simp_all add: search_inv_def B)
  have n_succs: "set (succs g n) \<subseteq> B" using kids by (simp add: B)
  have stay: "y \<in> B" if "(x, y) \<in> (arcs g)\<^sup>+" "x \<in> insert n B" for x y
    using that
  proof (induction rule: trancl_induct)
    case (base y)
    then show ?case using closed n_succs by (auto simp: arcs_def)
  next
    case (step y z)
    then show ?case using closed by (auto simp: arcs_def)
  qed
  have "n \<notin> B" by (simp add: black_def B)
  then have "(n, n) \<notin> (arcs g)\<^sup>+" using stay [of n n] by auto
  moreover have "{x. visited x} \<subseteq> set (verts g)" "\<forall>x. path x \<longrightarrow> visited x"
    using inv by (auto simp: search_inv_def split: if_splits)
  ultimately show ?thesis
    using closed acyclic n_succs unfolding search_inv_def black by blast
qed

lemma black_start:
  "search_inv g path visited \<Longrightarrow> n \<in> set (verts g) \<Longrightarrow> \<not> visited n \<Longrightarrow>
     search_inv g (path(n := True)) (visited(n := True))"
proof -
  assume a: "search_inv g path visited" "n \<in> set (verts g)" "\<not> visited n"
  then have "black (path(n := True)) (visited(n := True)) = black path visited"
    by (auto simp: black_def)
  with a show ?thesis by (auto simp: search_inv_def)
qed

lemma search_no_cycle:
  assumes "wf_graph g"
  shows "hasCycleDFS fuel (succs g) n path visited = Some (False, path', visited') \<Longrightarrow>
           n \<in> set (verts g) \<Longrightarrow> \<not> visited n \<Longrightarrow> search_inv g path visited \<Longrightarrow>
           path' = path \<and> search_inv g path visited' \<and> visited' n"
    and "visitDependents fuel (succs g) ds path visited = Some (False, path', visited') \<Longrightarrow>
           set ds \<subseteq> set (verts g) \<Longrightarrow> search_inv g path visited \<Longrightarrow>
           path' = path \<and> search_inv g path visited' \<and> set ds \<subseteq> black path visited'"
proof (induction fuel "succs g" n path visited and fuel "succs g" ds path visited
    arbitrary: path' visited' and path' visited' rule: hasCycleDFS_visitDependents.induct)
  case (2 fuel nodeID path visited)
  let ?path1 = "path(nodeID := True)" and ?visited1 = "visited(nodeID := True)"
  from 2(2) obtain p where r: "visitDependents fuel (succs g) (succs g nodeID) ?path1 ?visited1 =
      Some (False, p, visited')" and path': "path' = p(nodeID := False)"
    by (auto split: option.splits if_splits)
  have inv1: "search_inv g ?path1 ?visited1" using 2 by (intro black_start)
  have "p = ?path1 \<and> search_inv g ?path1 visited' \<and> set (succs g nodeID) \<subseteq> black ?path1 visited'"
    using 2(1) [OF r _ inv1] succs_closed [OF assms 2(3)] by simp
  moreover have "visited' nodeID" using visited_grows(2) [OF r] by (auto simp: le_fun_def)
  moreover have "\<not> path nodeID" using 2(4,5) by (auto simp: search_inv_def)
  ultimately show ?case
    using black_finish [of g path nodeID visited'] 2(3) path' by (auto simp: fun_upd_idem)
next
  case (4 fuel d rest path visited)
  have nd: "\<not> path d" using 4(4) by auto
  have ds: "d \<in> set (verts g)" "set rest \<subseteq> set (verts g)" using 4(5) by auto
  show ?case
  proof (cases "visited d")
    case True
    then have rest: "visitDependents fuel (succs g) rest path visited = Some (False, path', visited')"
      using 4(4) nd by simp
    have r: "path' = path \<and> search_inv g path visited' \<and> set rest \<subseteq> black path visited'"
      using 4(3) [OF nd _ rest ds(2) 4(6)] True by simp
    have "visited' d" using visited_grows(2) [OF rest] True by (auto simp: le_fun_def)
    with nd r show ?thesis by (simp add: black_def)
  next
    case False
    from 4(4) False nd obtain p v where r: "hasCycleDFS fuel (succs g) d path visited = Some (False, p, v)"
      and rest: "visitDependents fuel (succs g) rest p v = Some (False, path', visited')"
      by (auto split: option.splits if_splits)
    have pv: "p = path" "search_inv g path v" "v d" using 4(1) [OF nd False r ds(1) False 4(6)] by simp_all
    have "path' = path \<and> search_inv g path visited' \<and> set rest \<subseteq> black path visited'"
      using 4(2) [OF nd False r refl refl] rest ds(2) pv(1,2) by simp
    moreover have "visited' d" using visited_grows(2) [OF rest] pv(3) by (auto simp: le_fun_def)
    ultimately show ?thesis using nd by (simp add: black_def)
  qed
qed (auto simp: black_def)

lemma search_cycle:
  assumes "wf_graph g"
  shows "hasCycleDFS fuel (succs g) n path visited = Some (True, path', visited') \<Longrightarrow>
           n \<in> set (verts g) \<Longrightarrow> \<not> visited n \<Longrightarrow> search_inv g path visited \<Longrightarrow>
           \<forall>x. path x \<longrightarrow> (x, n) \<in> (arcs g)\<^sup>+ \<Longrightarrow> \<exists>x. (x, x) \<in> (arcs g)\<^sup>+"
    and "visitDependents fuel (succs g) ds path visited = Some (True, path', visited') \<Longrightarrow>
           u \<in> set (verts g) \<Longrightarrow> set ds \<subseteq> set (succs g u) \<Longrightarrow> search_inv g path visited \<Longrightarrow>
           \<forall>x. path x \<longrightarrow> (x, u) \<in> (arcs g)\<^sup>* \<Longrightarrow> \<exists>x. (x, x) \<in> (arcs g)\<^sup>+"
proof (induction fuel "succs g" n path visited and fuel "succs g" ds path visited
    arbitrary: path' visited' and path' visited' u rule: hasCycleDFS_visitDependents.induct)
  case (2 fuel nodeID path visited)
  let ?path1 = "path(nodeID := True)" and ?visited1 = "visited(nodeID := True)"
  from 2(2) obtain p where r: "visitDependents fuel (succs g) (succs g nodeID) ?path1 ?visited1 =
      Some (True, p, visited')"
    by (auto split: option.splits if_splits)
  have inv1: "search_inv g ?path1 ?visited1" using 2 by (intro black_start)
  have "\<forall>x. ?path1 x \<longrightarrow> (x, nodeID) \<in> (arcs g)\<^sup>*" using 2(6) by (simp add: trancl_into_rtrancl)
  then show ?case using 2(1) [OF r 2(3) _ inv1] by blast
next
  case (4 fuel d rest path visited)
  have arc: "(u, d) \<in> arcs g" and rest_u: "set rest \<subseteq> set (succs g u)" using 4(5,6) by (auto simp: arcs_def)
  have dv: "d \<in> set (verts g)" using arc succs_closed [OF assms] by (auto simp: arcs_def)
  have to_d: "\<forall>x. path x \<longrightarrow> (x, d) \<in> (arcs g)\<^sup>+" using 4(8) arc by (meson rtrancl_into_trancl1)
  show ?case
  proof (cases "path d")
    case True
    with to_d show ?thesis by blast
  next
    case nd: False
    show ?thesis
    proof (cases "visited d")
      case True
      then have "visitDependents fuel (succs g) rest path visited = Some (True, path', visited')"
        using 4(4) nd by simp
      from 4(3) [OF nd _ this 4(5) rest_u 4(7,8)] True show ?thesis by simp
    next
      case False
      from 4(4) False nd obtain b p v where r: "hasCycleDFS fuel (succs g) d path visited = Some (b, p, v)"
        by (auto split: option.splits if_splits)
      show ?thesis
      proof (cases b)
        case True
        from r True have r1: "hasCycleDFS fuel (succs g) d path visited = Some (True, p, v)" by simp
        show ?thesis by (rule 4(1) [OF nd False r1 dv False 4(7) to_d])
      next
        case nb: False
        with r have r': "hasCycleDFS fuel (succs g) d path visited = Some (False, p, v)" by simp
        have pv: "p = path" "search_inv g path v"
          using search_no_cycle(1) [OF assms r' dv False 4(7)] by simp_all
        have "visitDependents fuel (succs g) rest p v = Some (True, path', visited')"
          using 4(4) nd False r' by simp
        with 4(2) [OF nd False r' refl refl _ _ 4(5) rest_u] pv 4(8) show ?thesis by simp
      qed
    qed
  qed
qed auto

lemma detectCycleLoop_correct:
  assumes "wf_graph g" and "set ids \<subseteq> set (verts g)" and "unvisited g visited \<le> fuel"
    and "search_inv g (\<lambda>_. False) visited"
  shows "\<exists>b. detectCycleLoop fuel (succs g) ids (\<lambda>_. False) visited = Some b \<and>
     (b \<longrightarrow> (\<exists>x. (x, x) \<in> (arcs g)\<^sup>+)) \<and>
     (\<not> b \<longrightarrow> (\<forall>x \<in> set ids \<union> {x. visited x}. (x, x) \<notin> (arcs g)\<^sup>+))"
  using assms(2-4)
proof (induction ids arbitrary: visited)
  case Nil
  then show ?case by (auto simp: search_inv_def black_def)
next
  case (Cons n ids)
  show ?case
  proof (cases "visited n")
    case True
    have "set ids \<subseteq> set (verts g)" using Cons.prems(1) by simp
    from Cons.IH [OF this Cons.prems(2,3)] show ?thesis using True by auto
  next
    case False
    have n: "n \<in> set (verts g)" using Cons.prems(1) by simp
    obtain b p v where r: "hasCycleDFS fuel (succs g) n (\<lambda>_. False) visited = Some (b, p, v)"
      using enough_fuel(1) [OF assms(1) n False Cons.prems(2)] by (metis option.exhaust prod_cases3)
    show ?thesis
    proof (cases b)
      case True
      with search_cycle(1) [OF assms(1) _ n False Cons.prems(3)] r False show ?thesis
        by (intro exI [of _ True]) simp
    next
      case nb: False
      with r have r': "hasCycleDFS fuel (succs g) n (\<lambda>_. False) visited = Some (False, p, v)" by simp
      have pv: "p = (\<lambda>_. False)" "search_inv g (\<lambda>_. False) v" "v n"
        using search_no_cycle(1) [OF assms(1) r' n False Cons.prems(3)] by simp_all
      have grow: "visited \<le> v" using visited_grows(1) [OF r'] by simp
      then have fuel: "unvisited g v \<le> fuel" using unvisited_mono Cons.prems(2) by (meson order_trans)
      have "set ids \<subseteq> set (verts g)" using Cons.prems(1) by simp
      from Cons.IH [OF this fuel pv(2)] obtain b where
        b: "detectCycleLoop fuel (succs g) ids (\<lambda>_. False) v = Some b" "b \<longrightarrow> (\<exists>x. (x, x) \<in> (arcs g)\<^sup>+)"
          "\<not> b \<longrightarrow> (\<forall>x \<in> set ids \<union> {x. v x}. (x, x) \<notin> (arcs g)\<^sup>+)" by blast
      have "detectCycleLoop fuel (succs g) (n # ids) (\<lambda>_. False) visited = Some b"
        using False r' pv(1) b(1) by simp
      moreover have "set (n # ids) \<union> {x. visited x} \<subseteq> set ids \<union> {x. v x}"
        using grow pv(3) by (auto simp: le_fun_def)
      ultimately show ?thesis using b(2,3) by blast
    qed
  qed
qed

text \<open>
  The outer loop over the vertices in any order, started with empty maps and as much fuel as
  there are vertices, returns, and its answer is whether the graph has a cycle.
\<close>

lemma detect_decides:
  assumes "wf_graph g" and "set ids = set (verts g)"
  shows "detectCycleLoop (length (verts g)) (succs g) ids (\<lambda>_. False) (\<lambda>_. False) =
     Some (\<not> acyclic (arcs g))"
proof -
  have fuel: "unvisited g (\<lambda>_. False) \<le> length (verts g)"
    by (simp add: unvisited_def card_length)
  have inv: "search_inv g (\<lambda>_. False) (\<lambda>_. False)" by (simp add: search_inv_def black_def)
  have src: "x \<in> set (verts g)" if "(x, x) \<in> (arcs g)\<^sup>+" for x
    using that by (metis (no_types, lifting) arcs_def case_prodD mem_Collect_eq tranclD)
  obtain b where b: "detectCycleLoop (length (verts g)) (succs g) ids (\<lambda>_. False) (\<lambda>_. False) = Some b"
    and "b \<longrightarrow> (\<exists>x. (x, x) \<in> (arcs g)\<^sup>+)" and "\<not> b \<longrightarrow> (\<forall>x \<in> set ids. (x, x) \<notin> (arcs g)\<^sup>+)"
    using detectCycleLoop_correct [OF assms(1) _ fuel inv, of ids] assms(2) by auto
  with src assms(2) have "b \<longleftrightarrow> \<not> acyclic (arcs g)" by (auto simp: acyclic_def)
  with b show ?thesis by simp
qed

lemma finite_arcs: "wf_graph g \<Longrightarrow> finite (arcs g)"
proof -
  assume "wf_graph g"
  then have "arcs g \<subseteq> set (verts g) \<times> set (verts g)" using succs_closed by (auto simp: arcs_def)
  then show ?thesis by (rule finite_subset) simp
qed

text \<open>Every non-empty set of vertices of an acyclic graph has a member with no predecessor in it.\<close>

lemma acyclic_source:
  assumes "wf_graph g" and "acyclic (arcs g)" and "x \<in> A"
  shows "\<exists>z \<in> A. \<forall>y. (y, z) \<in> arcs g \<longrightarrow> y \<notin> A"
proof -
  have "wf (arcs g)" using assms(1,2) by (simp add: finite_acyclic_wf finite_arcs)
  from this assms(3) show ?thesis by (rule wfE_min) blast
qed

end

end
