(* ===== verification/Gxo_Load.thy ===== *)
theory Gxo_Load
  imports Gxo_Validate
begin

text \<open>
  Loading a playbook (\<open>internal/config/load.go\<close>, \<open>schema.go\<close>). The YAML library, the JSON schema
  library with the embedded schema, and the semver library are fields of \<open>load_env\<close>: what the
  code asks of them and the answers it distinguishes.
\<close>

record load_env =
  le_loadSchema :: "goerr option"  \<comment> \<open>the error of loading the embedded schema, if any\<close>
  le_yamlUnmarshal :: "string \<Rightarrow> goerr + goval"  \<comment> \<open>yaml.Unmarshal into interface{}\<close>
  le_schemaValidate :: "goval \<Rightarrow> goerr + (string \<times> string \<times> string) list"
    \<comment> \<open>schema.Validate: the violations as field, context and description; none when valid\<close>
  le_yamlDecode :: "string \<Rightarrow> goerr + Playbook"  \<comment> \<open>the strict decoder into the struct\<close>
  le_semverIsValid :: "string \<Rightarrow> bool"
  le_semverMajor :: "string \<Rightarrow> string"

definition SupportedSchemaVersionConstraint :: string where
  "SupportedSchemaVersionConstraint = ''v1''"

definition schema_violation :: "string \<times> string \<times> string \<Rightarrow> string" where
  "schema_violation v =
     (case v of (fld, ctx, desc) \<Rightarrow>
        let field = (if fld = ''(root)'' \<or> fld = [] then ctx else fld)
        in [newline] @ ''  - Field '' @ q field @ '': '' @ desc)"

definition ValidateWithSchema :: "load_env \<Rightarrow> string \<Rightarrow> goerr option" where
  "ValidateWithSchema env documentYAML =
     (case le_loadSchema env of Some err \<Rightarrow> Some err
      | None \<Rightarrow>
        (case le_yamlUnmarshal env documentYAML of
           Inl err \<Rightarrow> Some (ConfigError ''failed to parse playbook YAML for schema validation'' (Some err))
         | Inr jsonData \<Rightarrow>
           (case le_schemaValidate env jsonData of
              Inl err \<Rightarrow> Some (ConfigError ''schema validation process failed'' (Some err))
            | Inr violations \<Rightarrow>
                if violations \<noteq> [] then
                  Some (VE (''Playbook failed JSON schema validation:'' @ concat (map schema_violation violations)))
                else None)))"

definition yamlUnmarshalStrict :: "load_env \<Rightarrow> string \<Rightarrow> goerr + Playbook" where
  "yamlUnmarshalStrict env inp =
     (case le_yamlDecode env inp of
        Inl err \<Rightarrow> Inl (WrapError ''YAML parsing error: '' err [])
      | Inr p \<Rightarrow> Inr p)"

definition semver_text :: "string \<Rightarrow> string" where
  "semver_text v = (if \<not> prefix ''v'' v then ''v'' @ v else v)"

definition check_version :: "load_env \<Rightarrow> string \<Rightarrow> string \<Rightarrow> goerr option" where
  "check_version env filePathHint v =
     (if v = [] then
        Some (VE (''playbook '' @ q filePathHint @ '' is missing required '' @ q ''schemaVersion'' @ '' field''))
      else if \<not> le_semverIsValid env (semver_text v) then
        Some (VE (''playbook '' @ q filePathHint @ '' has invalid '' @ q ''schemaVersion'' @ '' format: '' @ q v))
      else if le_semverMajor env (semver_text v) \<noteq> SupportedSchemaVersionConstraint then
        Some (VE (''playbook '' @ q filePathHint @ '' schemaVersion '' @ q v @
          '' is not compatible with engine requirement '' @ q SupportedSchemaVersionConstraint))
      else None)"

definition combined_validation_error :: "string \<Rightarrow> goerr list \<Rightarrow> goerr" where
  "combined_validation_error filePathHint es =
     ValidationError
       (''playbook '' @ q filePathHint @ '' has '' @ show_nat (length es) @ '' validation error(s):'' @
        [newline] @ ''- '' @ join_str ([newline] @ ''- '') (map Error es)) (Some (hd es))"

definition LoadPlaybook ::
    "load_env \<Rightarrow> string ranger \<Rightarrow> extractor \<Rightarrow> string \<Rightarrow> string \<Rightarrow> goerr + Playbook" where
  "LoadPlaybook env rng extract playbookYAML filePathHint =
     (if playbookYAML = [] then Inl (ConfigError ''playbook content cannot be empty'' None)
      else case ValidateWithSchema env playbookYAML of
        Some err \<Rightarrow> Inl (ConfigError (''playbook '' @ q filePathHint @ '' failed schema validation'') (Some err))
      | None \<Rightarrow>
        (case yamlUnmarshalStrict env playbookYAML of
           Inl err \<Rightarrow> Inl (ConfigError (''failed to parse playbook YAML '' @ q filePathHint) (Some err))
         | Inr playbook0 \<Rightarrow>
           (let playbook = playbook0\<lparr>pb_FilePath := filePathHint\<rparr> in
            case check_version env filePathHint (pb_SchemaVersion playbook) of
              Some err \<Rightarrow> Inl err
            | None \<Rightarrow>
              (let validationErrs = ValidatePlaybookStructure rng extract playbook in
               if length validationErrs > 0 then Inl (combined_validation_error filePathHint validationErrs)
               else Inr (assignInternalTaskIDs playbook)))))"

text \<open>Reading the playbook from a file: the absolute path and the reading are arguments.\<close>

definition LoadPlaybookFromFile ::
    "(string \<Rightarrow> goerr + string) \<Rightarrow> (string \<Rightarrow> goerr + string) \<Rightarrow> load_env \<Rightarrow> string ranger \<Rightarrow> extractor \<Rightarrow> string \<Rightarrow>
     goerr + Playbook" where
  "LoadPlaybookFromFile absPathOf readFile env rng extract filePath =
     (if filePath = [] then Inl (ConfigError ''playbook file path cannot be empty'' None)
      else case absPathOf filePath of
        Inl err \<Rightarrow> Inl (ConfigError (''failed to get absolute path for '' @ q filePath) (Some err))
      | Inr absPath \<Rightarrow>
         (case readFile absPath of
            Inl err \<Rightarrow> Inl (ConfigError (''failed to read playbook file '' @ q absPath) (Some err))
          | Inr yamlFile \<Rightarrow> LoadPlaybook env rng extract yamlFile absPath))"

text \<open>The extractor the validator builds: a renderer without a secrets provider.\<close>

definition dummyRenderer_extract :: "parser \<Rightarrow> extractor" where
  "dummyRenderer_extract parse s = Inr (template_vars parse (GetFuncMap False) s)"

lemma wf_playbook_FilePath [simp]: "wf_playbook extract (p\<lparr>pb_FilePath := f\<rparr>) = wf_playbook extract p"
  by (simp add: wf_playbook_def check_global_def task_names_def task_registers_def)

lemma check_version_None:
  "check_version env hint v = None \<longleftrightarrow>
     v \<noteq> [] \<and> le_semverIsValid env (semver_text v) \<and> le_semverMajor env (semver_text v) = ''v1''"
  by (auto simp: check_version_def SupportedSchemaVersionConstraint_def)

lemma LoadPlaybook_Inr:
  assumes "permutes rng"
  shows "LoadPlaybook env rng extract yaml hint = Inr p' \<longleftrightarrow>
     (\<exists>p. yaml \<noteq> [] \<and> ValidateWithSchema env yaml = None \<and> le_yamlDecode env yaml = Inr p \<and>
        check_version env hint (pb_SchemaVersion p) = None \<and> wf_playbook extract p \<and>
        p' = assignInternalTaskIDs (p\<lparr>pb_FilePath := hint\<rparr>))"
  using validate_iff_wf [OF assms]
  by (auto simp: LoadPlaybook_def yamlUnmarshalStrict_def Let_def
      split: option.splits sum.splits if_splits)

lemma LoadPlaybook_Inl:
  "LoadPlaybook env rng extract yaml hint = Inl e \<Longrightarrow>
     (\<exists>m c. e = ConfigError m c) \<or> (\<exists>m c. e = ValidationError m c)"
  by (auto simp: LoadPlaybook_def combined_validation_error_def check_version_def VE_def Let_def
      split: option.splits sum.splits if_splits)

lemma wf_playbook_names: "wf_playbook extract p \<Longrightarrow> distinct (task_names p)"
  by (simp add: wf_playbook_def)

lemma task_names_FilePath [simp]: "task_names (p\<lparr>pb_FilePath := f\<rparr>) = task_names p"
  by (simp add: task_names_def)

end
