(* ===== verification/Gxo_Dag.thy ===== *)
theory Gxo_Dag
  imports Gxo_Graph Gxo_Load
begin

text \<open>
  The task graph (\<open>internal/engine/dag.go\<close>): nodes with their dependency sets and counters,
  policy resolution, the three passes of \<open>BuildDAG\<close> and cycle detection. A pointer to a node
  inside a dependency map is the node's id, since every such pointer is \<open>dag.Nodes[id]\<close>. The
  template renderer enters as \<open>extract\<close>, the function \<open>ExtractVariables\<close> computes.
\<close>

subsection \<open>Data\<close>

datatype TaskStatus =
    StatusPending
  | StatusReady
  | StatusRunning
  | StatusCompleted
  | StatusFailed
  | StatusSkipped

record Node =
  nd_Task :: Task
  nd_ID :: string
  nd_StreamDependsOn :: "string list"
  nd_StateDependsOn :: "string list"
  nd_RequiredBy :: "string list"
  nd_StreamDepsRemaining :: int
  nd_StateDepsRemaining :: int
  nd_Status :: TaskStatus
  nd_TaskPolicy :: TaskPolicy
  nd_StatePolicy :: StatePolicy

type_synonym DAG = "Node gomap"

subsection \<open>Pass 1: nodes and their policies\<close>

definition resolveTaskPolicy :: "Playbook \<Rightarrow> Task \<Rightarrow> TaskPolicy" where
  "resolveTaskPolicy playbook task =
     (let r0 = \<lparr>tp_Name = [], tp_SkipOnNoInput = Some False\<rparr>;
          r1 = (case pb_TaskPolicy playbook of
                  Some p \<Rightarrow> if tp_SkipOnNoInput p \<noteq> None then r0\<lparr>tp_SkipOnNoInput := tp_SkipOnNoInput p\<rparr> else r0
                | None \<Rightarrow> r0)
      in case tk_Policy task of
           Some p \<Rightarrow> if tp_SkipOnNoInput p \<noteq> None then r1\<lparr>tp_SkipOnNoInput := tp_SkipOnNoInput p\<rparr> else r1
         | None \<Rightarrow> r1)"

definition resolveStatePolicy :: "Playbook \<Rightarrow> Task \<Rightarrow> StatePolicy" where
  "resolveStatePolicy playbook task =
     (let r0 = \<lparr>sp_AccessMode = StateAccessDeepCopy\<rparr>;
          r1 = (case pb_StatePolicy playbook of
                  Some p \<Rightarrow> if sp_AccessMode p \<noteq> [] then r0\<lparr>sp_AccessMode := sp_AccessMode p\<rparr> else r0
                | None \<Rightarrow> r0)
      in case tk_StatePolicy task of
           Some p \<Rightarrow> if sp_AccessMode p \<noteq> [] then r1\<lparr>sp_AccessMode := sp_AccessMode p\<rparr> else r1
         | None \<Rightarrow> r1)"

definition new_node :: "Playbook \<Rightarrow> Task \<Rightarrow> Node" where
  "new_node playbook task =
     \<lparr>nd_Task = task, nd_ID = tk_InternalID task,
      nd_StreamDependsOn = [], nd_StateDependsOn = [], nd_RequiredBy = [],
      nd_StreamDepsRemaining = 0, nd_StateDepsRemaining = 0, nd_Status = StatusPending,
      nd_TaskPolicy = resolveTaskPolicy playbook task, nd_StatePolicy = resolveStatePolicy playbook task\<rparr>"

record dag_build =
  db_Nodes :: DAG
  db_nameToTaskID :: "string gomap"
  db_registeredVarsToTaskID :: "string gomap"

definition add_task :: "Playbook \<Rightarrow> Task \<Rightarrow> dag_build \<Rightarrow> dag_build" where
  "add_task playbook task b =
     b\<lparr>db_Nodes := AList.update (tk_InternalID task) (new_node playbook task) (db_Nodes b),
       db_nameToTaskID :=
         (if tk_Name task \<noteq> [] then AList.update (tk_Name task) (tk_InternalID task) (db_nameToTaskID b)
          else db_nameToTaskID b),
       db_registeredVarsToTaskID :=
         (if tk_Register task \<noteq> []
          then AList.update (tk_Register task) (tk_InternalID task) (db_registeredVarsToTaskID b)
          else db_registeredVarsToTaskID b)\<rparr>"

fun create_nodes :: "Playbook \<Rightarrow> nat \<Rightarrow> Task list \<Rightarrow> dag_build \<Rightarrow> goerr + dag_build" where
  "create_nodes playbook i [] b = Inr b"
| "create_nodes playbook i (task # rest) b =
     (if tk_InternalID task = [] then
        Inl (PlainError (''internal error: task at index '' @ show_nat i @ '' has no InternalID during DAG build''))
      else create_nodes playbook (Suc i) rest (add_task playbook task b))"

definition empty_build :: dag_build where
  "empty_build = \<lparr>db_Nodes = [], db_nameToTaskID = [], db_registeredVarsToTaskID = []\<rparr>"

subsection \<open>Pass 2: edges\<close>

definition addStreamEdge :: "string \<Rightarrow> string \<Rightarrow> DAG \<Rightarrow> DAG" where
  "addStreamEdge producerID consumerID dag =
     (case map_of dag consumerID of
        None \<Rightarrow> dag
      | Some consumerNode \<Rightarrow>
          if producerID \<notin> set (nd_StreamDependsOn consumerNode) then
            AList.map_entry producerID (\<lambda>n. n\<lparr>nd_RequiredBy := List.insert consumerID (nd_RequiredBy n)\<rparr>)
              (AList.map_entry consumerID (\<lambda>n. n\<lparr>nd_StreamDependsOn := List.insert producerID (nd_StreamDependsOn n)\<rparr>) dag)
          else dag)"

definition addStateEdge :: "string \<Rightarrow> string \<Rightarrow> DAG \<Rightarrow> DAG" where
  "addStateEdge producerID consumerID dag =
     (case map_of dag consumerID of
        None \<Rightarrow> dag
      | Some consumerNode \<Rightarrow>
          if producerID \<notin> set (nd_StateDependsOn consumerNode) then
            AList.map_entry producerID (\<lambda>n. n\<lparr>nd_RequiredBy := List.insert consumerID (nd_RequiredBy n)\<rparr>)
              (AList.map_entry consumerID (\<lambda>n. n\<lparr>nd_StateDependsOn := List.insert producerID (nd_StateDependsOn n)\<rparr>) dag)
          else dag)"

definition undefined_input_error :: "string \<Rightarrow> string \<Rightarrow> goerr" where
  "undefined_input_error taskName producerName =
     ConfigError (''task '' @ sq @ taskName @ sq @ '' has stream_inputs referencing undefined task '' @
       sq @ producerName @ sq) None"

fun add_stream_edges :: "(string \<Rightarrow> string option) \<Rightarrow> string \<Rightarrow> string \<Rightarrow> string list \<Rightarrow> DAG \<Rightarrow> goerr + DAG" where
  "add_stream_edges nameToTaskID taskName nodeID [] dag = Inr dag"
| "add_stream_edges nameToTaskID taskName nodeID (producerName # rest) dag =
     (case nameToTaskID producerName of
        None \<Rightarrow> Inl (undefined_input_error taskName producerName)
      | Some producerID \<Rightarrow>
          add_stream_edges nameToTaskID taskName nodeID rest (addStreamEdge producerID nodeID dag))"

text \<open>The node a variable path of a template refers to, before the tests of its use.\<close>

definition producer_of_var ::
    "(string \<Rightarrow> string option) \<Rightarrow> (string \<Rightarrow> string option) \<Rightarrow> string \<Rightarrow> string option" where
  "producer_of_var nameToTaskID registeredVarsToTaskID fullVarPath =
     (if prefix (GxoStateKeyPrefix @ ''.tasks.'') fullVarPath then
        (let parts = split_on CHR ''.'' fullVarPath
         in if length parts = 4 then nameToTaskID (parts ! 2) else None)
      else registeredVarsToTaskID fullVarPath)"

definition template_vars_to_scan :: "extractor \<Rightarrow> string \<Rightarrow> string list" where
  "template_vars_to_scan extract tmplStr =
     (if tmplStr = [] then [] else case extract tmplStr of Inl e \<Rightarrow> [] | Inr vars \<Rightarrow> vars)"

definition add_state_edge_for ::
    "(string \<Rightarrow> string option) \<Rightarrow> (string \<Rightarrow> string option) \<Rightarrow> string \<Rightarrow> string \<Rightarrow> DAG \<Rightarrow> DAG" where
  "add_state_edge_for nameToTaskID registered nodeID fullVarPath dag =
     (case producer_of_var nameToTaskID registered fullVarPath of
        Some producerID \<Rightarrow>
          if producerID \<noteq> [] \<and> producerID \<noteq> nodeID then addStateEdge producerID nodeID dag else dag
      | None \<Rightarrow> dag)"

definition add_node_edges ::
    "string ranger \<Rightarrow> extractor \<Rightarrow> (string \<Rightarrow> string option) \<Rightarrow> (string \<Rightarrow> string option) \<Rightarrow>
     string \<Rightarrow> DAG \<Rightarrow> goerr + DAG" where
  "add_node_edges rng extract nameToTaskID registered nodeID dag =
     (case map_of dag nodeID of
        None \<Rightarrow> Inr dag
      | Some node \<Rightarrow>
          (case add_stream_edges nameToTaskID (tk_Name (nd_Task node)) (nd_ID node)
                  (tk_StreamInputs (nd_Task node)) dag of
             Inl e \<Rightarrow> Inl e
           | Inr dag1 \<Rightarrow>
               Inr (fold (add_state_edge_for nameToTaskID registered (nd_ID node))
                 (concat (map (template_vars_to_scan extract) (collectTemplatesToScan rng (nd_Task node))))
                 dag1)))"

fun add_all_edges ::
    "string ranger \<Rightarrow> extractor \<Rightarrow> (string \<Rightarrow> string option) \<Rightarrow> (string \<Rightarrow> string option) \<Rightarrow>
     string list \<Rightarrow> DAG \<Rightarrow> goerr + DAG" where
  "add_all_edges rng extract nm rv [] dag = Inr dag"
| "add_all_edges rng extract nm rv (nodeID # rest) dag =
     (case add_node_edges rng extract nm rv nodeID dag of
        Inl e \<Rightarrow> Inl e
      | Inr dag1 \<Rightarrow> add_all_edges rng extract nm rv rest dag1)"

subsection \<open>Pass 3: counters, ready nodes, cycle detection\<close>

text \<open>
  The counters are \<open>int32\<close> in the source; they hold the number of a task's dependencies, which
  is below the number of tasks.
\<close>

definition init_counters :: "Node \<Rightarrow> Node" where
  "init_counters n =
     n\<lparr>nd_StreamDepsRemaining := int (length (nd_StreamDependsOn n)),
       nd_StateDepsRemaining := int (length (nd_StateDependsOn n))\<rparr>"

definition node_ready :: "Node \<Rightarrow> bool" where
  "node_ready n \<longleftrightarrow> nd_StreamDepsRemaining n = 0 \<and> nd_StateDepsRemaining n = 0"

definition RequiredBy :: "DAG \<Rightarrow> string \<Rightarrow> string list" where
  "RequiredBy dag nodeID = (case map_of dag nodeID of None \<Rightarrow> [] | Some n \<Rightarrow> nd_RequiredBy n)"

definition cycle_error :: goerr where
  "cycle_error = ConfigError ''cycle detected in task dependencies'' None"

text \<open>The outer option is the fuel's: \<open>None\<close> would be a search that does not return.\<close>

definition detectCycle :: "string ranger \<Rightarrow> DAG \<Rightarrow> goerr option option" where
  "detectCycle rng dag =
     map_option (\<lambda>found. if found then Some cycle_error else None)
       (detectCycleLoop (length dag) (\<lambda>x. rng 3 (RequiredBy dag x)) (rng 2 (keys dag)) (\<lambda>_. False) (\<lambda>_. False))"

definition BuildDAG :: "string ranger \<Rightarrow> extractor \<Rightarrow> Playbook \<Rightarrow> (goerr + DAG \<times> string list) option" where
  "BuildDAG rng extract playbook =
     (if pb_Tasks playbook = [] then Some (Inr ([], []))
      else case create_nodes playbook 0 (pb_Tasks playbook) empty_build of
        Inl e \<Rightarrow> Some (Inl e)
      | Inr b \<Rightarrow>
          (case add_all_edges rng extract (map_of (db_nameToTaskID b)) (map_of (db_registeredVarsToTaskID b))
                  (rng 1 (keys (db_Nodes b))) (db_Nodes b) of
             Inl e \<Rightarrow> Some (Inl e)
           | Inr dag \<Rightarrow>
               (let dag' = map (\<lambda>(k, n). (k, init_counters n)) dag;
                    ready = filter (\<lambda>x. case map_of dag' x of None \<Rightarrow> False | Some n \<Rightarrow> node_ready n)
                              (rng 4 (keys dag'))
                in case detectCycle rng dag' of
                     None \<Rightarrow> None
                   | Some (Some e) \<Rightarrow> Some (Inl e)
                   | Some None \<Rightarrow> Some (Inr (dag', ready)))))"

subsection \<open>Views of a graph and its invariant\<close>

definition StreamDependsOn :: "DAG \<Rightarrow> string \<Rightarrow> string list" where
  "StreamDependsOn dag x = (case map_of dag x of None \<Rightarrow> [] | Some n \<Rightarrow> nd_StreamDependsOn n)"

definition StateDependsOn :: "DAG \<Rightarrow> string \<Rightarrow> string list" where
  "StateDependsOn dag x = (case map_of dag x of None \<Rightarrow> [] | Some n \<Rightarrow> nd_StateDependsOn n)"

text \<open>What no edge insertion changes of a node.\<close>

definition node_core :: "Node \<Rightarrow> Task \<times> string \<times> TaskStatus \<times> TaskPolicy \<times> StatePolicy" where
  "node_core n = (nd_Task n, nd_ID n, nd_Status n, nd_TaskPolicy n, nd_StatePolicy n)"

definition cores :: "DAG \<Rightarrow> string \<Rightarrow> (Task \<times> string \<times> TaskStatus \<times> TaskPolicy \<times> StatePolicy) option" where
  "cores dag x = map_option node_core (map_of dag x)"

text \<open>
  The graph invariant: a node is filed under its id, its dependency sets have no duplicates, and
  \<open>RequiredBy\<close> is the inverse of the two kinds of dependency together.
\<close>

definition dag_wf :: "DAG \<Rightarrow> bool" where
  "dag_wf dag \<longleftrightarrow> gomap_ok dag \<and>
     (\<forall>x n. map_of dag x = Some n \<longrightarrow> nd_ID n = x) \<and>
     (\<forall>x. distinct (StreamDependsOn dag x) \<and> distinct (StateDependsOn dag x) \<and> distinct (RequiredBy dag x)) \<and>
     (\<forall>p c. c \<in> set (RequiredBy dag p) \<longleftrightarrow> p \<in> set (StreamDependsOn dag c) \<union> set (StateDependsOn dag c))"

definition edges_added ::
    "DAG \<Rightarrow> DAG \<Rightarrow> (string \<Rightarrow> string set) \<Rightarrow> (string \<Rightarrow> string set) \<Rightarrow> bool" where
  "edges_added d d' S T \<longleftrightarrow> dag_wf d' \<and> keys d' = keys d \<and> cores d' = cores d \<and>
     (\<forall>c. set (StreamDependsOn d' c) = set (StreamDependsOn d c) \<union> S c) \<and>
     (\<forall>c. set (StateDependsOn d' c) = set (StateDependsOn d c) \<union> T c)"

lemma edges_added_refl: "dag_wf d \<Longrightarrow> edges_added d d (\<lambda>_. {}) (\<lambda>_. {})"
  by (simp add: edges_added_def)

lemma edges_added_trans:
  "edges_added d d1 S T \<Longrightarrow> edges_added d1 d2 S' T' \<Longrightarrow>
     edges_added d d2 (\<lambda>c. S c \<union> S' c) (\<lambda>c. T c \<union> T' c)"
  by (auto simp: edges_added_def)

lemma edges_added_cong:
  "edges_added d d' S T \<Longrightarrow> (\<And>c. S c = S' c) \<Longrightarrow> (\<And>c. T c = T' c) \<Longrightarrow> edges_added d d' S' T'"
  by (simp add: edges_added_def)

lemma edges_added_dest:
  "edges_added d d' S T \<Longrightarrow> dag_wf d'"
  "edges_added d d' S T \<Longrightarrow> keys d' = keys d"
  "edges_added d d' S T \<Longrightarrow> cores d' = cores d"
  by (simp_all add: edges_added_def)

lemma keys_map_entry [simp]: "keys (AList.map_entry k f m) = keys m"
  by (induction m) auto

lemma gomap_ok_map_entry [simp]: "gomap_ok (AList.map_entry k f m) = gomap_ok m"
  by (simp add: gomap_ok_keys)

lemma in_keys_conv: "x \<in> set (keys m) \<longleftrightarrow> (\<exists>v. map_of m x = Some v)"
  by (auto simp: set_keys)

lemma addStreamEdge_edges:
  assumes wf: "dag_wf d" and p: "p \<in> set (keys d)" and c: "c \<in> set (keys d)"
  shows "edges_added d (addStreamEdge p c d) ((\<lambda>_. {})(c := {p})) (\<lambda>_. {})"
proof (cases "p \<in> set (StreamDependsOn d c)")
  case True
  with c have "addStreamEdge p c d = d"
    by (auto simp: addStreamEdge_def StreamDependsOn_def in_keys_conv)
  with wf True show ?thesis by (auto simp: edges_added_def)
next
  case False
  let ?d = "AList.map_entry p (\<lambda>n. n\<lparr>nd_RequiredBy := List.insert c (nd_RequiredBy n)\<rparr>)
      (AList.map_entry c (\<lambda>n. n\<lparr>nd_StreamDependsOn := List.insert p (nd_StreamDependsOn n)\<rparr>) d)"
  have d': "addStreamEdge p c d = ?d"
    using c False by (auto simp: addStreamEdge_def StreamDependsOn_def in_keys_conv)
  have views: "StreamDependsOn ?d x = (if x = c then List.insert p (StreamDependsOn d c) else StreamDependsOn d x)"
    "StateDependsOn ?d x = StateDependsOn d x"
    "RequiredBy ?d x = (if x = p then List.insert c (RequiredBy d p) else RequiredBy d x)" for x
    using p c by (auto simp: StreamDependsOn_def StateDependsOn_def RequiredBy_def in_keys_conv map_of_map_entry
        split: option.splits)
  have core: "cores ?d = cores d"
    by (auto simp: cores_def fun_eq_iff map_of_map_entry node_core_def split: option.splits)
  have ids: "nd_ID n = x" if "map_of ?d x = Some n" for x n
    using that wf by (auto simp: dag_wf_def map_of_map_entry split: option.splits if_splits)
  show ?thesis unfolding d' edges_added_def dag_wf_def
    using wf ids by (auto simp: views core dag_wf_def)
qed

lemma addStateEdge_edges:
  assumes wf: "dag_wf d" and p: "p \<in> set (keys d)" and c: "c \<in> set (keys d)"
  shows "edges_added d (addStateEdge p c d) (\<lambda>_. {}) ((\<lambda>_. {})(c := {p}))"
proof (cases "p \<in> set (StateDependsOn d c)")
  case True
  with c have "addStateEdge p c d = d"
    by (auto simp: addStateEdge_def StateDependsOn_def in_keys_conv)
  with wf True show ?thesis by (auto simp: edges_added_def)
next
  case False
  let ?d = "AList.map_entry p (\<lambda>n. n\<lparr>nd_RequiredBy := List.insert c (nd_RequiredBy n)\<rparr>)
      (AList.map_entry c (\<lambda>n. n\<lparr>nd_StateDependsOn := List.insert p (nd_StateDependsOn n)\<rparr>) d)"
  have d': "addStateEdge p c d = ?d"
    using c False by (auto simp: addStateEdge_def StateDependsOn_def in_keys_conv)
  have views: "StateDependsOn ?d x = (if x = c then List.insert p (StateDependsOn d c) else StateDependsOn d x)"
    "StreamDependsOn ?d x = StreamDependsOn d x"
    "RequiredBy ?d x = (if x = p then List.insert c (RequiredBy d p) else RequiredBy d x)" for x
    using p c by (auto simp: StreamDependsOn_def StateDependsOn_def RequiredBy_def in_keys_conv map_of_map_entry
        split: option.splits)
  have core: "cores ?d = cores d"
    by (auto simp: cores_def fun_eq_iff map_of_map_entry node_core_def split: option.splits)
  have ids: "nd_ID n = x" if "map_of ?d x = Some n" for x n
    using that wf by (auto simp: dag_wf_def map_of_map_entry split: option.splits if_splits)
  show ?thesis unfolding d' edges_added_def dag_wf_def
    using wf ids by (auto simp: views core dag_wf_def)
qed

definition names_resolve :: "(string \<Rightarrow> string option) \<Rightarrow> DAG \<Rightarrow> bool" where
  "names_resolve nm d \<longleftrightarrow> ran nm \<subseteq> set (keys d)"

lemma names_resolveD: "names_resolve nm d \<Longrightarrow> nm x = Some y \<Longrightarrow> y \<in> set (keys d)"
  by (auto simp: names_resolve_def ran_def)

lemma names_resolve_edges: "edges_added d d' S T \<Longrightarrow> names_resolve nm d \<Longrightarrow> names_resolve nm d'"
  by (simp add: names_resolve_def edges_added_def)

lemma keys_edges: "edges_added d d' S T \<Longrightarrow> x \<in> set (keys d) \<Longrightarrow> x \<in> set (keys d')"
  by (simp add: edges_added_def)

lemma add_stream_edges_edges:
  assumes "dag_wf d" and "names_resolve nm d" and "c \<in> set (keys d)"
    and "add_stream_edges nm tn c ins d = Inr d'"
  shows "edges_added d d' ((\<lambda>_. {})(c := {p. \<exists>i \<in> set ins. nm i = Some p})) (\<lambda>_. {})"
  using assms
proof (induction ins arbitrary: d)
  case Nil
  then show ?case by (auto simp: edges_added_def)
next
  case (Cons i ins)
  from Cons.prems(4) obtain p where p: "nm i = Some p" and
    rest: "add_stream_edges nm tn c ins (addStreamEdge p c d) = Inr d'"
    by (auto split: option.splits)
  have step: "edges_added d (addStreamEdge p c d) ((\<lambda>_. {})(c := {p})) (\<lambda>_. {})"
    using Cons.prems p by (intro addStreamEdge_edges) (auto dest: names_resolveD)
  have "edges_added (addStreamEdge p c d) d' ((\<lambda>_. {})(c := {p. \<exists>i \<in> set ins. nm i = Some p})) (\<lambda>_. {})"
    using Cons.prems rest
    by (intro Cons.IH edges_added_dest(1) [OF step] names_resolve_edges [OF step] keys_edges [OF step])
  from edges_added_trans [OF step this] show ?case
    by (rule edges_added_cong) (auto simp: p)
qed

lemma add_stream_edges_error:
  "(\<exists>e. add_stream_edges nm tn c ins d = Inl e) \<longleftrightarrow> (\<exists>i \<in> set ins. nm i = None)"
  "add_stream_edges nm tn c ins d = Inl e \<Longrightarrow> \<exists>i \<in> set ins. nm i = None \<and> e = undefined_input_error tn i"
  by (induction ins arbitrary: d) (auto split: option.splits)

definition state_producer ::
    "(string \<Rightarrow> string option) \<Rightarrow> (string \<Rightarrow> string option) \<Rightarrow> string \<Rightarrow> string list \<Rightarrow> string set" where
  "state_producer nm rv c vars =
     {p. p \<noteq> [] \<and> p \<noteq> c \<and> (\<exists>v \<in> set vars. producer_of_var nm rv v = Some p)}"

lemma producer_resolves:
  "names_resolve nm d \<Longrightarrow> names_resolve rv d \<Longrightarrow> producer_of_var nm rv v = Some p \<Longrightarrow> p \<in> set (keys d)"
  by (auto simp: producer_of_var_def Let_def dest: names_resolveD split: if_splits)

lemma add_state_edges_edges:
  assumes "dag_wf d" and "names_resolve nm d" and "names_resolve rv d" and "c \<in> set (keys d)"
  shows "edges_added d (fold (add_state_edge_for nm rv c) vars d) (\<lambda>_. {})
           ((\<lambda>_. {})(c := state_producer nm rv c vars))"
  using assms
proof (induction vars arbitrary: d)
  case Nil
  then show ?case by (auto simp: edges_added_def state_producer_def)
next
  case (Cons v vars)
  let ?d = "add_state_edge_for nm rv c v d"
  have step: "edges_added d ?d (\<lambda>_. {}) ((\<lambda>_. {})(c := state_producer nm rv c [v]))"
  proof (cases "state_producer nm rv c [v] = {}")
    case True
    then have "?d = d" by (auto simp: add_state_edge_for_def state_producer_def split: option.splits)
    with True Cons.prems show ?thesis by (simp add: edges_added_def)
  next
    case False
    then obtain p where p: "producer_of_var nm rv v = Some p" "p \<noteq> []" "p \<noteq> c"
      by (auto simp: state_producer_def)
    then have "state_producer nm rv c [v] = {p}" "?d = addStateEdge p c d"
      by (auto simp: add_state_edge_for_def state_producer_def)
    with addStateEdge_edges [of d p c] producer_resolves p Cons.prems show ?thesis by simp
  qed
  have "edges_added ?d (fold (add_state_edge_for nm rv c) vars ?d) (\<lambda>_. {})
      ((\<lambda>_. {})(c := state_producer nm rv c vars))"
    using Cons.prems
    by (intro Cons.IH edges_added_dest(1) [OF step] names_resolve_edges [OF step] keys_edges [OF step])
  from edges_added_trans [OF step this] show ?case unfolding fold_simps
    by (rule edges_added_cong) (auto simp: state_producer_def)
qed
text \<open>The producers pass 2 gives a node, read off its task.\<close>

definition stream_producers :: "(string \<Rightarrow> string option) \<Rightarrow> Task \<Rightarrow> string set" where
  "stream_producers nm task = {p. \<exists>i \<in> set (tk_StreamInputs task). nm i = Some p}"

definition template_producers ::
    "extractor \<Rightarrow> (string \<Rightarrow> string option) \<Rightarrow> (string \<Rightarrow> string option) \<Rightarrow> string \<Rightarrow> Task \<Rightarrow> string set" where
  "template_producers extract nm rv c task =
     {p. p \<noteq> [] \<and> p \<noteq> c \<and> (\<exists>tmpl \<in> task_templates task. \<exists>v \<in> set (template_vars_of extract tmpl).
        producer_of_var nm rv v = Some p)}"

definition task_at :: "DAG \<Rightarrow> string \<Rightarrow> Task option" where
  "task_at dag x = map_option nd_Task (map_of dag x)"

lemma task_at_cores: "cores d' = cores d \<Longrightarrow> task_at d' x = task_at d x"
proof -
  assume "cores d' = cores d"
  then have "map_option fst (cores d' x) = map_option fst (cores d x)" by simp
  then show ?thesis by (simp add: cores_def task_at_def node_core_def option.map_comp comp_def)
qed

lemma Nil_not_template: "[] \<notin> task_templates task"
  by (auto simp: task_templates_def collectTemplatesToScan_def set_map_filter has_action_def contains_def
      split: goval.splits option.splits if_splits)

definition of_node :: "DAG \<Rightarrow> (Task \<Rightarrow> string set) \<Rightarrow> string \<Rightarrow> string set" where
  "of_node dag f x = (case task_at dag x of None \<Rightarrow> {} | Some task \<Rightarrow> f task)"

lemma of_node_cores: "cores d' = cores d \<Longrightarrow> of_node d' f x = of_node d f x"
  by (simp add: of_node_def task_at_cores [of d' d])

lemma template_producers_scan:
  assumes "permutes rng"
  shows "state_producer nm rv c (concat (map (template_vars_to_scan extract) (collectTemplatesToScan rng task)))
    = template_producers extract nm rv c task"
proof -
  have v: "template_vars_to_scan extract tmpl = template_vars_of extract tmpl" if "tmpl \<in> task_templates task" for tmpl
    using that Nil_not_template by (auto simp: template_vars_to_scan_def template_vars_of_def)
  show ?thesis
    using set_collectTemplatesToScan [OF assms, of task]
    by (auto simp: state_producer_def template_producers_def v)
qed

lemma add_node_edges_edges:
  assumes "permutes rng" and wf: "dag_wf d" and nm: "names_resolve nm d" and rv: "names_resolve rv d"
    and x: "x \<in> set (keys d)" and r: "add_node_edges rng extract nm rv x d = Inr d'"
  shows "edges_added d d' ((\<lambda>_. {})(x := of_node d (stream_producers nm) x))
    ((\<lambda>_. {})(x := of_node d (template_producers extract nm rv x) x))"
proof -
  obtain n where n: "map_of d x = Some n" using x by (auto simp: in_keys_conv)
  with wf have id: "nd_ID n = x" by (simp add: dag_wf_def)
  let ?vars = "concat (map (template_vars_to_scan extract) (collectTemplatesToScan rng (nd_Task n)))"
  obtain d1 where d1: "add_stream_edges nm (tk_Name (nd_Task n)) x (tk_StreamInputs (nd_Task n)) d = Inr d1"
    and d': "d' = fold (add_state_edge_for nm rv x) ?vars d1"
    using r n id by (auto simp: add_node_edges_def split: sum.splits)
  note e1 = add_stream_edges_edges [OF wf nm x d1]
  have e2: "edges_added d1 d' (\<lambda>_. {}) ((\<lambda>_. {})(x := state_producer nm rv x ?vars))"
    unfolding d' using nm rv x
    by (intro add_state_edges_edges edges_added_dest(1) [OF e1] names_resolve_edges [OF e1] keys_edges [OF e1])
  show ?thesis
    by (rule edges_added_cong [OF edges_added_trans [OF e1 e2]])
      (simp_all add: template_producers_scan [OF assms(1)] of_node_def task_at_def n stream_producers_def)
qed

lemma add_all_edges_edges:
  assumes "permutes rng" and "dag_wf d" and "names_resolve nm d" and "names_resolve rv d"
    and "set xs \<subseteq> set (keys d)" and "add_all_edges rng extract nm rv xs d = Inr d'"
  shows "edges_added d d'
    (\<lambda>c. if c \<in> set xs then of_node d (stream_producers nm) c else {})
    (\<lambda>c. if c \<in> set xs then of_node d (template_producers extract nm rv c) c else {})"
  using assms(2-)
proof (induction xs arbitrary: d)
  case Nil
  then show ?case by (simp add: edges_added_def)
next
  case (Cons x xs)
  from Cons.prems(5) obtain d1 where d1: "add_node_edges rng extract nm rv x d = Inr d1"
    and rest: "add_all_edges rng extract nm rv xs d1 = Inr d'"
    by (auto split: sum.splits)
  have x: "x \<in> set (keys d)" "set xs \<subseteq> set (keys d)" using Cons.prems(4) by simp_all
  note e1 = add_node_edges_edges [OF assms(1) Cons.prems(1-3) x(1) d1]
  have "set xs \<subseteq> set (keys d1)" using x(2) edges_added_dest(2) [OF e1] by simp
  note e2 = Cons.IH [OF edges_added_dest(1) [OF e1] names_resolve_edges [OF e1 Cons.prems(2)]
      names_resolve_edges [OF e1 Cons.prems(3)] this rest]
  show ?case
    by (rule edges_added_cong [OF edges_added_trans [OF e1 e2]])
      (auto simp: of_node_cores [OF edges_added_dest(3) [OF e1]])
qed

definition undefined_input :: "(string \<Rightarrow> string option) \<Rightarrow> DAG \<Rightarrow> string \<Rightarrow> bool" where
  "undefined_input nm dag x \<longleftrightarrow>
     (\<exists>task. task_at dag x = Some task \<and> (\<exists>i \<in> set (tk_StreamInputs task). nm i = None))"

lemma undefined_input_cores: "cores d' = cores d \<Longrightarrow> undefined_input nm d' x = undefined_input nm d x"
  by (simp add: undefined_input_def task_at_cores [of d' d])

lemma add_node_edges_error:
  assumes "dag_wf d"
  shows "(\<exists>e. add_node_edges rng extract nm rv x d = Inl e) \<longleftrightarrow> undefined_input nm d x"
proof (cases "map_of d x")
  case None
  then show ?thesis by (simp add: add_node_edges_def task_at_def undefined_input_def)
next
  case (Some n)
  with add_stream_edges_error(1) [of nm "tk_Name (nd_Task n)" "nd_ID n" "tk_StreamInputs (nd_Task n)" d]
  show ?thesis by (auto simp: add_node_edges_def task_at_def undefined_input_def split: sum.splits)
qed

lemma add_all_edges_error:
  assumes "permutes rng" and "dag_wf d" and "names_resolve nm d" and "names_resolve rv d"
    and "set xs \<subseteq> set (keys d)"
  shows "(\<exists>e. add_all_edges rng extract nm rv xs d = Inl e) \<longleftrightarrow> (\<exists>x \<in> set xs. undefined_input nm d x)"
  using assms(2-)
proof (induction xs arbitrary: d)
  case (Cons x xs)
  have x: "x \<in> set (keys d)" "set xs \<subseteq> set (keys d)" using Cons.prems(4) by simp_all
  show ?case
  proof (cases "add_node_edges rng extract nm rv x d")
    case (Inl e)
    then have "\<exists>e. add_node_edges rng extract nm rv x d = Inl e" by blast
    then have "undefined_input nm d x"
      by (simp only: add_node_edges_error [OF Cons.prems(1)])
    with Inl show ?thesis by auto
  next
    case (Inr d1)
    then have "\<not> (\<exists>e. add_node_edges rng extract nm rv x d = Inl e)" by simp
    then have none: "\<not> undefined_input nm d x" by (simp only: add_node_edges_error [OF Cons.prems(1)] not_False_eq_True)
    note e1 = add_node_edges_edges [OF assms(1) Cons.prems(1-3) x(1) Inr]
    have "set xs \<subseteq> set (keys d1)" using x(2) edges_added_dest(2) [OF e1] by simp
    from Cons.IH [OF edges_added_dest(1) [OF e1] names_resolve_edges [OF e1 Cons.prems(2)]
        names_resolve_edges [OF e1 Cons.prems(3)] this] none Inr
    show ?thesis by (simp add: undefined_input_cores [OF edges_added_dest(3) [OF e1]])
  qed
qed simp

lemma add_all_edges_error_shape:
  "add_all_edges rng extract nm rv xs d = Inl e \<Longrightarrow> \<exists>tn i. e = undefined_input_error tn i \<and> nm i = None"
proof (induction xs arbitrary: d)
  case (Cons x xs)
  then show ?case
    using add_stream_edges_error(2) by (fastforce simp: add_node_edges_def split: option.splits sum.splits)
qed simp

subsection \<open>The three passes together\<close>

text \<open>The tables of pass 1: a name or a register maps to the last task that has it.\<close>

definition last_with :: "('t \<Rightarrow> string) \<Rightarrow> ('t \<Rightarrow> 'v) \<Rightarrow> 't list \<Rightarrow> string \<Rightarrow> 'v option" where
  "last_with k v ts = map_of (rev (map (\<lambda>t. (k t, v t)) (filter (\<lambda>t. k t \<noteq> []) ts)))"

definition name_table :: "Playbook \<Rightarrow> string \<Rightarrow> string option" where
  "name_table pb = last_with tk_Name tk_InternalID (pb_Tasks pb)"

definition register_table :: "Playbook \<Rightarrow> string \<Rightarrow> string option" where
  "register_table pb = last_with tk_Register tk_InternalID (pb_Tasks pb)"

lemma last_with_fold:
  "map_of (fold (\<lambda>t m. if k t \<noteq> [] then AList.update (k t) (v t) m else m) ts m) = map_of m ++ last_with k v ts"
  by (induction ts arbitrary: m) (auto simp: last_with_def fun_eq_iff map_add_def split: option.splits)

lemma last_with_ran: "last_with k v ts x = Some y \<Longrightarrow> \<exists>t \<in> set ts. k t = x \<and> x \<noteq> [] \<and> v t = y"
  unfolding last_with_def by (drule map_of_SomeD) auto

lemma last_with_distinct:
  assumes "distinct (filter (\<lambda>n. n \<noteq> []) (map k ts))"
  shows "last_with k v ts x = Some y \<longleftrightarrow> (\<exists>t \<in> set ts. k t = x \<and> x \<noteq> [] \<and> v t = y)"
proof -
  let ?al = "map (\<lambda>t. (k t, v t)) (filter (\<lambda>t. k t \<noteq> []) ts)"
  have "map fst ?al = filter (\<lambda>n. n \<noteq> []) (map k ts)" by (simp add: filter_map comp_def)
  with assms have "distinct (map fst (rev ?al))" by (simp flip: rev_map)
  then have "last_with k v ts x = Some y \<longleftrightarrow> (x, y) \<in> set (rev ?al)"
    unfolding last_with_def by (rule map_of_eq_Some_iff)
  then show ?thesis by auto
qed

lemma last_with_None: "last_with k v ts x = None \<longleftrightarrow> (\<forall>t \<in> set ts. k t = x \<longrightarrow> x = [])"
  by (auto simp: last_with_def map_of_eq_None_iff image_iff)

definition built :: "Playbook \<Rightarrow> dag_build" where
  "built pb = fold (add_task pb) (pb_Tasks pb) empty_build"

lemma add_task_parts:
  "db_Nodes (fold (add_task pb) ts b) =
     fold (\<lambda>t. AList.update (tk_InternalID t) (new_node pb t)) ts (db_Nodes b)"
  "db_nameToTaskID (fold (add_task pb) ts b) =
     fold (\<lambda>t m. if tk_Name t \<noteq> [] then AList.update (tk_Name t) (tk_InternalID t) m else m) ts (db_nameToTaskID b)"
  "db_registeredVarsToTaskID (fold (add_task pb) ts b) =
     fold (\<lambda>t m. if tk_Register t \<noteq> [] then AList.update (tk_Register t) (tk_InternalID t) m else m) ts
       (db_registeredVarsToTaskID b)"
  by (induction ts arbitrary: b) (simp_all add: add_task_def)

lemma create_nodes_spec:
  "create_nodes pb i ts b =
     (case List.find (\<lambda>(j, t). tk_InternalID t = []) (List.enumerate i ts) of
        Some (j, t) \<Rightarrow>
          Inl (PlainError (''internal error: task at index '' @ show_nat j @ '' has no InternalID during DAG build''))
      | None \<Rightarrow> Inr (fold (add_task pb) ts b))"
  by (induction ts arbitrary: i b) (auto split: option.splits)

lemma create_nodes_ok: "[] \<notin> set (map tk_InternalID ts) \<Longrightarrow> create_nodes pb i ts b = Inr (fold (add_task pb) ts b)"
  by (induction ts arbitrary: i b) auto

lemma built_names: "map_of (db_nameToTaskID (built pb)) = name_table pb"
  unfolding built_def add_task_parts last_with_fold name_table_def by (simp add: empty_build_def)

lemma built_registers: "map_of (db_registeredVarsToTaskID (built pb)) = register_table pb"
  unfolding built_def add_task_parts last_with_fold register_table_def by (simp add: empty_build_def)

lemma built_nodes:
  assumes "[] \<notin> set (task_ids pb)"
  shows "map_of (db_Nodes (built pb)) = last_with tk_InternalID (new_node pb) (pb_Tasks pb)"
proof -
  have "fold (\<lambda>t. AList.update (tk_InternalID t) (new_node pb t)) ts m =
      fold (\<lambda>t m. if tk_InternalID t \<noteq> [] then AList.update (tk_InternalID t) (new_node pb t) m else m) ts m"
    if "[] \<notin> set (map tk_InternalID ts)" for ts m
    using that by (induction ts arbitrary: m) auto
  with assms show ?thesis
    unfolding built_def add_task_parts by (simp add: task_ids_def last_with_fold empty_build_def)
qed

lemma gomap_ok_fold_update:
  "gomap_ok m \<Longrightarrow> gomap_ok (fold (\<lambda>t. AList.update (k t) (v t)) ts m)"
  by (induction ts arbitrary: m) auto

lemma built_nodeD:
  assumes "[] \<notin> set (task_ids pb)" and "map_of (db_Nodes (built pb)) x = Some n"
  shows "\<exists>t \<in> set (pb_Tasks pb). tk_InternalID t = x \<and> n = new_node pb t"
  using last_with_ran [OF assms(2) [unfolded built_nodes [OF assms(1)]]] by auto

lemma built_keys: "[] \<notin> set (task_ids pb) \<Longrightarrow> set (keys (db_Nodes (built pb))) = set (task_ids pb)"
proof -
  assume a: "[] \<notin> set (task_ids pb)"
  have "last_with tk_InternalID (new_node pb) (pb_Tasks pb) x \<noteq> None \<longleftrightarrow> x \<in> set (task_ids pb)" for x
    using a by (auto simp: last_with_None task_ids_def image_iff)
  then show ?thesis by (auto simp: set_keys built_nodes [OF a] simp del: not_None_eq)
qed

lemma built_no_edges:
  assumes "[] \<notin> set (task_ids pb)"
  shows "StreamDependsOn (db_Nodes (built pb)) x = []" "StateDependsOn (db_Nodes (built pb)) x = []"
    "RequiredBy (db_Nodes (built pb)) x = []"
  using built_nodeD [OF assms, of x]
  by (auto simp: StreamDependsOn_def StateDependsOn_def RequiredBy_def new_node_def split: option.splits)

lemma built_wf: "[] \<notin> set (task_ids pb) \<Longrightarrow> dag_wf (db_Nodes (built pb))"
proof -
  assume a: "[] \<notin> set (task_ids pb)"
  have "gomap_ok (db_Nodes (built pb))"
    unfolding built_def add_task_parts by (rule gomap_ok_fold_update) (simp add: empty_build_def)
  moreover have "nd_ID n = x" if "map_of (db_Nodes (built pb)) x = Some n" for x n
    using built_nodeD [OF a that] by (auto simp: new_node_def)
  ultimately show ?thesis by (simp add: dag_wf_def built_no_edges [OF a])
qed

lemma built_resolves:
  assumes "[] \<notin> set (task_ids pb)"
  shows "names_resolve (name_table pb) (db_Nodes (built pb))"
    and "names_resolve (register_table pb) (db_Nodes (built pb))"
  using assms by (auto simp: names_resolve_def built_keys ran_def name_table_def register_table_def task_ids_def
      dest!: last_with_ran)

lemma built_task_at:
  assumes "[] \<notin> set (task_ids pb)" and "distinct (task_ids pb)" and "t \<in> set (pb_Tasks pb)"
  shows "map_of (db_Nodes (built pb)) (tk_InternalID t) = Some (new_node pb t)"
proof -
  have "distinct (filter (\<lambda>n. n \<noteq> []) (map tk_InternalID (pb_Tasks pb)))"
    using assms(2) by (simp add: task_ids_def)
  moreover have "tk_InternalID t \<noteq> []" using assms(1,3) by (auto simp: task_ids_def image_iff)
  ultimately show ?thesis using assms(3) by (auto simp: built_nodes [OF assms(1)] last_with_distinct)
qed
subsection \<open>Cycle detection on the task graph\<close>

definition dag_arcs :: "DAG \<Rightarrow> (string \<times> string) set" where
  "dag_arcs dag = {(p, c). c \<in> set (RequiredBy dag p)}"

lemma dag_wf_closed:
  "dag_wf dag \<Longrightarrow> c \<in> set (RequiredBy dag p) \<Longrightarrow> p \<in> set (keys dag) \<and> c \<in> set (keys dag)"
proof -
  assume "dag_wf dag" and c: "c \<in> set (RequiredBy dag p)"
  then have "p \<in> set (StreamDependsOn dag c) \<union> set (StateDependsOn dag c)" by (simp add: dag_wf_def)
  with c show ?thesis
    by (cases "map_of dag p"; cases "map_of dag c")
      (auto simp: in_keys_conv RequiredBy_def StreamDependsOn_def StateDependsOn_def)
qed

interpretation dag_graph: succ_graph
  "\<lambda>(rng, dag). keys dag" "\<lambda>(rng, dag) x. rng 3 (RequiredBy dag x)" "\<lambda>(rng, dag). permutes rng \<and> dag_wf dag"
  by unfold_locales (auto dest: dag_wf_closed)

lemma dag_graph_arcs: "permutes rng \<Longrightarrow> dag_wf dag \<Longrightarrow> dag_graph.arcs (rng, dag) = dag_arcs dag"
  by (auto simp: dag_graph.arcs_def dag_arcs_def dest: dag_wf_closed)

lemma length_keys: "length (keys m) = length m"
  by (simp add: keys_def)

lemma detectCycle_spec:
  assumes "permutes rng" and "dag_wf dag"
  shows "detectCycle rng dag = Some (if acyclic (dag_arcs dag) then None else Some cycle_error)"
  using dag_graph.detect_decides [of "(rng, dag)" "rng 2 (keys dag)"] assms
  by (simp add: detectCycle_def dag_graph_arcs length_keys)

subsection \<open>What BuildDAG computes\<close>

text \<open>The producers of a task, by the two tables, and the dependency relation of a playbook.\<close>

definition stream_deps :: "Playbook \<Rightarrow> Task \<Rightarrow> string set" where
  "stream_deps pb = stream_producers (name_table pb)"

definition state_deps :: "extractor \<Rightarrow> Playbook \<Rightarrow> Task \<Rightarrow> string set" where
  "state_deps extract pb task =
     template_producers extract (name_table pb) (register_table pb) (tk_InternalID task) task"

definition depends :: "extractor \<Rightarrow> Playbook \<Rightarrow> (string \<times> string) set" where
  "depends extract pb = {(p, tk_InternalID task) | p task.
     task \<in> set (pb_Tasks pb) \<and> p \<in> stream_deps pb task \<union> state_deps extract pb task}"

definition ids_ok :: "Playbook \<Rightarrow> bool" where
  "ids_ok pb \<longleftrightarrow> distinct (task_ids pb) \<and> [] \<notin> set (task_ids pb)"

definition inputs_defined :: "Playbook \<Rightarrow> bool" where
  "inputs_defined pb \<longleftrightarrow>
     (\<forall>task \<in> set (pb_Tasks pb). \<forall>i \<in> set (tk_StreamInputs task). name_table pb i \<noteq> None)"

text \<open>The graph that stands for a playbook: one pending node per task, with its sets and counters.\<close>

definition node_of_task :: "extractor \<Rightarrow> Playbook \<Rightarrow> Task \<Rightarrow> Node \<Rightarrow> bool" where
  "node_of_task extract pb task n \<longleftrightarrow>
     nd_Task n = task \<and> nd_ID n = tk_InternalID task \<and> nd_Status n = StatusPending \<and>
     nd_TaskPolicy n = resolveTaskPolicy pb task \<and> nd_StatePolicy n = resolveStatePolicy pb task \<and>
     set (nd_StreamDependsOn n) = stream_deps pb task \<and>
     set (nd_StateDependsOn n) = state_deps extract pb task \<and>
     nd_StreamDepsRemaining n = int (card (stream_deps pb task)) \<and>
     nd_StateDepsRemaining n = int (card (state_deps extract pb task))"

definition dag_of_playbook :: "extractor \<Rightarrow> Playbook \<Rightarrow> DAG \<Rightarrow> bool" where
  "dag_of_playbook extract pb dag \<longleftrightarrow> dag_wf dag \<and> set (keys dag) = set (task_ids pb) \<and>
     (\<forall>task \<in> set (pb_Tasks pb). \<exists>n. map_of dag (tk_InternalID task) = Some n \<and> node_of_task extract pb task n)"

lemma init_counters_views:
  "StreamDependsOn (map (\<lambda>(k, n). (k, init_counters n)) d) = StreamDependsOn d"
  "StateDependsOn (map (\<lambda>(k, n). (k, init_counters n)) d) = StateDependsOn d"
  "RequiredBy (map (\<lambda>(k, n). (k, init_counters n)) d) = RequiredBy d"
  "keys (map (\<lambda>(k, n). (k, init_counters n)) d) = keys d"
  by (auto simp: fun_eq_iff StreamDependsOn_def StateDependsOn_def RequiredBy_def keys_def map_of_map
      init_counters_def split: option.splits)

lemma init_counters_wf: "dag_wf (map (\<lambda>(k, n). (k, init_counters n)) d) = dag_wf d"
proof -
  have "nd_ID (init_counters n) = nd_ID n" for n by (simp add: init_counters_def)
  then have "(\<forall>x n. map_of (map (\<lambda>(k, n). (k, init_counters n)) d) x = Some n \<longrightarrow> nd_ID n = x) \<longleftrightarrow>
      (\<forall>x n. map_of d x = Some n \<longrightarrow> nd_ID n = x)"
    by (simp add: map_of_map) metis
  then show ?thesis unfolding dag_wf_def init_counters_views gomap_ok_keys by simp
qed

lemma edges_of_built:
  assumes rng: "permutes rng" and ids: "ids_ok pb"
    and r: "add_all_edges rng extract (name_table pb) (register_table pb)
        (rng 1 (keys (db_Nodes (built pb)))) (db_Nodes (built pb)) = Inr d"
  shows "dag_of_playbook extract pb (map (\<lambda>(k, n). (k, init_counters n)) d)"
proof -
  have ids': "[] \<notin> set (task_ids pb)" "distinct (task_ids pb)" using ids by (simp_all add: ids_ok_def)
  let ?b = "db_Nodes (built pb)" and ?dag = "map (\<lambda>(k, n). (k, init_counters n)) d"
  have sub: "set (rng 1 (keys ?b)) \<subseteq> set (keys ?b)" using rng by simp
  note e = add_all_edges_edges [OF rng built_wf [OF ids'(1)] built_resolves [OF ids'(1)] sub r]
  have wf: "dag_wf d" and ks: "keys d = keys ?b" and co: "cores d = cores ?b" using e by (simp_all add: edges_added_def)
  have node: "\<exists>n. map_of ?dag (tk_InternalID task) = Some n \<and> node_of_task extract pb task n"
    if t: "task \<in> set (pb_Tasks pb)" for task
  proof -
    let ?x = "tk_InternalID task"
    have b: "map_of ?b ?x = Some (new_node pb task)" by (rule built_task_at [OF ids' t])
    then have x: "?x \<in> set (keys ?b)" by (auto simp: in_keys_conv)
    from fun_cong [OF co, of ?x] b obtain n where n: "map_of d ?x = Some n" and c: "node_core n = node_core (new_node pb task)"
      by (auto simp: cores_def)
    have at: "task_at ?b ?x = Some task" by (simp add: task_at_def b new_node_def)
    have "set (StreamDependsOn d ?x) = stream_deps pb task" "set (StateDependsOn d ?x) = state_deps extract pb task"
      using e x rng by (simp_all add: edges_added_def built_no_edges [OF ids'(1)] of_node_def at
          stream_deps_def state_deps_def)
    with n have deps: "set (nd_StreamDependsOn n) = stream_deps pb task"
      "set (nd_StateDependsOn n) = state_deps extract pb task"
      by (simp_all add: StreamDependsOn_def StateDependsOn_def)
    have "distinct (nd_StreamDependsOn n)" "distinct (nd_StateDependsOn n)"
      using wf n by (simp_all add: dag_wf_def) (metis StreamDependsOn_def StateDependsOn_def option.simps(5))+
    then have "length (nd_StreamDependsOn n) = card (stream_deps pb task)"
      "length (nd_StateDependsOn n) = card (state_deps extract pb task)"
      using deps distinct_card by metis+
    with n c deps show ?thesis
      by (auto simp: map_of_map node_of_task_def init_counters_def node_core_def new_node_def)
  qed
  show ?thesis unfolding dag_of_playbook_def init_counters_wf init_counters_views
    using wf ks built_keys [OF ids'(1)] node by simp
qed
lemma dag_of_playbook_arcs:
  assumes "dag_of_playbook extract pb dag"
  shows "dag_arcs dag = depends extract pb"
proof -
  have wf: "dag_wf dag" and ks: "set (keys dag) = set (task_ids pb)"
    and node: "\<And>task. task \<in> set (pb_Tasks pb) \<Longrightarrow>
      \<exists>n. map_of dag (tk_InternalID task) = Some n \<and> node_of_task extract pb task n"
    using assms by (simp_all add: dag_of_playbook_def)
  have arc: "(p, c) \<in> dag_arcs dag \<longleftrightarrow> p \<in> set (StreamDependsOn dag c) \<union> set (StateDependsOn dag c)" for p c
    using wf by (simp add: dag_arcs_def dag_wf_def)
  have deps: "set (StreamDependsOn dag (tk_InternalID task)) = stream_deps pb task \<and>
      set (StateDependsOn dag (tk_InternalID task)) = state_deps extract pb task"
    if "task \<in> set (pb_Tasks pb)" for task
    using node [OF that] by (auto simp: StreamDependsOn_def StateDependsOn_def node_of_task_def)
  show ?thesis
  proof (intro equalityI subrelI)
    fix p c assume pc: "(p, c) \<in> dag_arcs dag"
    then have "c \<in> set (keys dag)" using dag_wf_closed [OF wf] by (auto simp: dag_arcs_def)
    then obtain task where "task \<in> set (pb_Tasks pb)" "c = tk_InternalID task"
      using ks by (auto simp: task_ids_def)
    with pc arc deps show "(p, c) \<in> depends extract pb" by (auto simp: depends_def)
  next
    fix p c assume "(p, c) \<in> depends extract pb"
    with arc deps show "(p, c) \<in> dag_arcs dag" by (auto simp: depends_def)
  qed
qed

lemma inputs_defined_built:
  assumes "ids_ok pb"
  shows "inputs_defined pb \<longleftrightarrow> (\<forall>x \<in> set (keys (db_Nodes (built pb))). \<not> undefined_input (name_table pb) (db_Nodes (built pb)) x)"
proof -
  have ids: "[] \<notin> set (task_ids pb)" "distinct (task_ids pb)" using assms by (simp_all add: ids_ok_def)
  have "task_at (db_Nodes (built pb)) (tk_InternalID t) = Some t" if "t \<in> set (pb_Tasks pb)" for t
    using built_task_at [OF ids that] by (simp add: task_at_def new_node_def)
  then show ?thesis
    by (auto simp: built_keys [OF ids(1)] task_ids_def inputs_defined_def undefined_input_def)
qed

definition initially_ready :: "extractor \<Rightarrow> Playbook \<Rightarrow> string set" where
  "initially_ready extract pb =
     {tk_InternalID task | task. task \<in> set (pb_Tasks pb) \<and> stream_deps pb task = {} \<and> state_deps extract pb task = {}}"

lemma finite_deps:
  "node_of_task extract pb task n \<Longrightarrow> finite (stream_deps pb task) \<and> finite (state_deps extract pb task)"
  by (metis List.finite_set node_of_task_def)

lemma ready_nodes:
  assumes "dag_of_playbook extract pb dag"
  shows "{x \<in> set (keys dag). case map_of dag x of None \<Rightarrow> False | Some n \<Rightarrow> node_ready n} = initially_ready extract pb"
proof -
  have ks: "set (keys dag) = set (task_ids pb)"
    and node: "\<And>task. task \<in> set (pb_Tasks pb) \<Longrightarrow>
      \<exists>n. map_of dag (tk_InternalID task) = Some n \<and> node_of_task extract pb task n"
    using assms by (simp_all add: dag_of_playbook_def)
  have ready: "(case map_of dag (tk_InternalID task) of None \<Rightarrow> False | Some n \<Rightarrow> node_ready n) \<longleftrightarrow>
      stream_deps pb task = {} \<and> state_deps extract pb task = {}" if "task \<in> set (pb_Tasks pb)" for task
  proof -
    from node [OF that] obtain n where n: "map_of dag (tk_InternalID task) = Some n" "node_of_task extract pb task n"
      by blast
    with finite_deps [OF n(2)] show ?thesis by (auto simp: node_ready_def node_of_task_def)
  qed
  show ?thesis unfolding ks initially_ready_def by (auto simp: task_ids_def ready)
qed

text \<open>
  \<open>BuildDAG\<close> on a playbook with distinct, non-empty internal ids: it reports an undefined stream
  input if there is one, else a cycle if the dependencies have one, else it returns the graph of
  the playbook and its nodes without dependencies. It always returns.
\<close>

definition BuildDAG_outcome :: "extractor \<Rightarrow> Playbook \<Rightarrow> goerr + DAG \<times> string list \<Rightarrow> bool" where
  "BuildDAG_outcome extract pb r \<longleftrightarrow>
     (case r of
        Inl e \<Rightarrow> (\<not> inputs_defined pb \<and> (\<exists>tn i. e = undefined_input_error tn i \<and> name_table pb i = None)) \<or>
          (inputs_defined pb \<and> \<not> acyclic (depends extract pb) \<and> e = cycle_error)
      | Inr (dag, ready) \<Rightarrow> inputs_defined pb \<and> acyclic (depends extract pb) \<and>
          dag_of_playbook extract pb dag \<and> set ready = initially_ready extract pb \<and> distinct ready)"

lemma BuildDAG_result:
  assumes rng: "permutes rng" and ids: "ids_ok pb"
  shows "\<exists>r. BuildDAG rng extract pb = Some r \<and> BuildDAG_outcome extract pb r"
proof (cases "pb_Tasks pb = []")
  case True
  then have "BuildDAG_outcome extract pb (Inr ([], []))"
    by (simp add: BuildDAG_outcome_def inputs_defined_def depends_def acyclic_def dag_of_playbook_def task_ids_def
        initially_ready_def dag_wf_def RequiredBy_def StreamDependsOn_def StateDependsOn_def)
  with True show ?thesis by (simp add: BuildDAG_def)
next
  case ne: False
  have ids': "[] \<notin> set (task_ids pb)" using ids by (simp add: ids_ok_def)
  let ?b = "db_Nodes (built pb)"
  let ?edges = "add_all_edges rng extract (name_table pb) (register_table pb) (rng 1 (keys ?b)) ?b"
  have cr: "create_nodes pb 0 (pb_Tasks pb) empty_build = Inr (built pb)"
    using ids' create_nodes_ok by (simp add: built_def task_ids_def)
  have err: "(\<exists>e. ?edges = Inl e) \<longleftrightarrow> \<not> inputs_defined pb"
    using add_all_edges_error [OF rng built_wf [OF ids'] built_resolves [OF ids']] rng
    by (simp add: inputs_defined_built [OF ids])
  show ?thesis
  proof (cases ?edges)
    case (Inl e)
    with err have "\<not> inputs_defined pb" by blast
    with add_all_edges_error_shape [OF Inl] have "BuildDAG_outcome extract pb (Inl e)"
      by (simp add: BuildDAG_outcome_def)
    with ne cr Inl show ?thesis by (simp add: BuildDAG_def built_names built_registers)
  next
    case (Inr d)
    let ?dag = "map (\<lambda>(k, n). (k, init_counters n)) d"
    from err Inr have defd: "inputs_defined pb" by auto
    have dag: "dag_of_playbook extract pb ?dag" by (rule edges_of_built [OF rng ids Inr])
    then have wf: "dag_wf ?dag" by (simp add: dag_of_playbook_def)
    let ?ready = "filter (\<lambda>x. case map_of ?dag x of None \<Rightarrow> False | Some n \<Rightarrow> node_ready n) (rng 4 (keys ?dag))"
    have build: "BuildDAG rng extract pb =
        (case detectCycle rng ?dag of None \<Rightarrow> None | Some (Some e) \<Rightarrow> Some (Inl e) | Some None \<Rightarrow> Some (Inr (?dag, ?ready)))"
      using ne cr Inr by (simp add: BuildDAG_def built_names built_registers Let_def)
    have "distinct (keys ?dag)" using wf by (simp add: dag_wf_def gomap_ok_keys)
    then have ready: "set ?ready = initially_ready extract pb" "distinct ?ready"
      using ready_nodes [OF dag] rng by (simp_all del: keys_simps)
    show ?thesis
      unfolding build detectCycle_spec [OF rng wf] dag_of_playbook_arcs [OF dag]
      using defd dag ready by (cases "acyclic (depends extract pb)") (simp_all add: BuildDAG_outcome_def)
  qed
qed

subsection \<open>Loaded playbooks\<close>

lemma BuildDAG_ok_cases:
  assumes "permutes rng" and "ids_ok pb" and "BuildDAG rng extract pb = Some (Inr (dag, ready))"
  shows "dag_of_playbook extract pb dag" and "set ready = initially_ready extract pb" and "distinct ready"
    and "acyclic (depends extract pb)" and "inputs_defined pb"
  using BuildDAG_result [OF assms(1,2), of "extract"] assms(3) by (auto simp: BuildDAG_outcome_def)

text \<open>Some task of a non-empty playbook without a cycle is ready at the start.\<close>

lemma initially_ready_not_empty:
  assumes dag: "dag_of_playbook extract pb dag"
    and ac: "acyclic (depends extract pb)" and ne: "pb_Tasks pb \<noteq> []"
  shows "initially_ready extract pb \<noteq> {}"
proof -
  have wf: "dag_wf dag" and ks: "set (keys dag) = set (task_ids pb)" using dag by (simp_all add: dag_of_playbook_def)
  obtain t where "t \<in> set (pb_Tasks pb)" using ne by (meson last_in_set)
  then have "tk_InternalID t \<in> set (keys dag)" by (simp add: ks task_ids_def)
  then obtain z where z: "z \<in> set (keys dag)" and src: "\<forall>y. (y, z) \<in> dag_arcs dag \<longrightarrow> y \<notin> set (keys dag)"
    using dag_graph.acyclic_source [of "(in_order, dag)" _ "set (keys dag)"] wf ac
    by (auto simp: dag_graph_arcs dag_of_playbook_arcs [OF dag])
  obtain task where task: "task \<in> set (pb_Tasks pb)" "z = tk_InternalID task" using z ks by (auto simp: task_ids_def)
  have "p \<notin> stream_deps pb task \<union> state_deps extract pb task" for p
  proof
    assume "p \<in> stream_deps pb task \<union> state_deps extract pb task"
    with task have "(p, z) \<in> dag_arcs dag" by (auto simp: dag_of_playbook_arcs [OF dag] depends_def)
    with src dag_wf_closed [OF wf] show False by (auto simp: dag_arcs_def)
  qed
  with task show ?thesis by (auto simp: initially_ready_def)
qed

lemma name_table_distinct:
  "distinct (task_names pb) \<Longrightarrow>
     name_table pb n = Some x \<longleftrightarrow> (\<exists>t \<in> set (pb_Tasks pb). tk_Name t = n \<and> n \<noteq> [] \<and> tk_InternalID t = x)"
  unfolding name_table_def task_names_def by (rule last_with_distinct)

lemma register_table_distinct:
  "distinct (task_registers pb) \<Longrightarrow>
     register_table pb r = Some x \<longleftrightarrow> (\<exists>t \<in> set (pb_Tasks pb). tk_Register t = r \<and> r \<noteq> [] \<and> tk_InternalID t = x)"
  unfolding register_table_def task_registers_def by (rule last_with_distinct)

lemma name_table_None: "name_table pb n = None \<longleftrightarrow> n \<notin> set (task_names pb)"
  by (auto simp: name_table_def last_with_None task_names_def)

lemma assign_map_fields:
  "map tk_Name (pb_Tasks (assignInternalTaskIDs p)) = map tk_Name (pb_Tasks p)"
  "map tk_Register (pb_Tasks (assignInternalTaskIDs p)) = map tk_Register (pb_Tasks p)"
  "map tk_StreamInputs (pb_Tasks (assignInternalTaskIDs p)) = map tk_StreamInputs (pb_Tasks p)"
  by (rule nth_equalityI; simp add: assign_nth)+

lemma assign_task_names [simp]: "task_names (assignInternalTaskIDs p) = task_names p"
  by (simp add: task_names_def assign_map_fields)

lemma assign_task_registers [simp]: "task_registers (assignInternalTaskIDs p) = task_registers p"
  by (simp add: task_registers_def assign_map_fields)

lemma loaded_ids_ok:
  assumes "distinct (task_names p)" and "names_avoid_index_ids p"
  shows "ids_ok (assignInternalTaskIDs p)"
proof -
  have "tk_InternalID t \<noteq> []" if "t \<in> set (pb_Tasks (assignInternalTaskIDs p))" for t
    using that by (auto simp: in_set_conv_nth assign_nth)
  then have "[] \<notin> set (task_ids (assignInternalTaskIDs p))" by (force simp: task_ids_def)
  then show ?thesis using distinct_task_ids [OF assms] by (simp add: ids_ok_def)
qed

lemma loaded_inputs_defined:
  assumes "wf_playbook extract p"
  shows "inputs_defined (assignInternalTaskIDs p)"
proof -
  have "set (tk_StreamInputs t) \<subseteq> set (task_names p)" if "t \<in> set (pb_Tasks p)" for t
    using assms that by (auto simp: wf_playbook_def required_by_def)
  moreover have "\<exists>t' \<in> set (pb_Tasks p). tk_StreamInputs t' = tk_StreamInputs t"
    if "t \<in> set (pb_Tasks (assignInternalTaskIDs p))" for t
    using that by (fastforce simp: in_set_conv_nth assign_nth)
  ultimately show ?thesis by (fastforce simp: inputs_defined_def name_table_None)
qed

lemma names_avoid_assign [simp]: "names_avoid_index_ids (assignInternalTaskIDs p) = names_avoid_index_ids p"
proof -
  have "tk_Name (pb_Tasks (assignInternalTaskIDs p) ! i) = tk_Name (pb_Tasks p ! i)" if "i < length (pb_Tasks p)" for i
    using that by (simp add: assign_nth)
  then show ?thesis by (simp add: names_avoid_index_ids_def assign_map_fields flip: set_map)
qed

lemma names_avoid_named: "list_all (\<lambda>t. tk_Name t \<noteq> []) (pb_Tasks p) \<Longrightarrow> names_avoid_index_ids p"
  by (simp add: names_avoid_index_ids_def list_all_length)

lemma wf_playbook_tasks: "wf_playbook extract p \<Longrightarrow> pb_Tasks p \<noteq> []"
  by (auto simp: wf_playbook_def check_global_def)

end
