(* ===== verification/Gxo_Channels.thy ===== *)
theory Gxo_Channels
  imports Gxo_Dag
begin

text \<open>
  Streaming channels (\<open>internal/engine/channel_manager.go\<close>): Go's buffered channels, writes under
  the four overflow policies, and the channel manager that wires producers to consumers. A
  channel or a wait group is a reference: channels are numbered in the order of creation, and a
  producer's wait group is named by the producer's id, since there is one per producer.
\<close>

subsection \<open>Channels\<close>

text \<open>
  A Go channel of values of type \<open>'v\<close>: its buffer and capacity, whether it is closed, how many
  receivers are blocked on it, and the values receivers have taken so far, in order.
\<close>

record 'v managedChannel =
  mc_buffer :: "'v list"
  mc_cap :: nat
  mc_closed :: bool
  mc_receivers :: nat
  mc_received :: "'v list"
  mc_policy :: ChannelPolicy

definition chan_ok :: "'v managedChannel \<Rightarrow> bool" where
  "chan_ok c \<longleftrightarrow> length (mc_buffer c) \<le> mc_cap c \<and> (0 < mc_receivers c \<longrightarrow> mc_buffer c = [])"

text \<open>What was sent and not dropped: the values taken and those waiting, in order.\<close>

definition stream :: "'v managedChannel \<Rightarrow> 'v list" where
  "stream c = mc_received c @ mc_buffer c"

definition can_send :: "'v managedChannel \<Rightarrow> bool" where
  "can_send c \<longleftrightarrow> 0 < mc_receivers c \<or> length (mc_buffer c) < mc_cap c"

definition do_send :: "'v \<Rightarrow> 'v managedChannel \<Rightarrow> 'v managedChannel" where
  "do_send v c =
     (if 0 < mc_receivers c then c\<lparr>mc_receivers := mc_receivers c - 1, mc_received := mc_received c @ [v]\<rparr>
      else c\<lparr>mc_buffer := mc_buffer c @ [v]\<rparr>)"

text \<open>A receive by the consumer: it takes the oldest value, learns the end of a closed stream, or blocks.\<close>

datatype 'v recv_result = Received 'v | EndOfStream | RecvBlocks

definition chan_recv :: "'v managedChannel \<Rightarrow> 'v recv_result \<times> 'v managedChannel" where
  "chan_recv c =
     (case mc_buffer c of
        v # rest \<Rightarrow> (Received v, c\<lparr>mc_buffer := rest, mc_received := mc_received c @ [v]\<rparr>)
      | [] \<Rightarrow> if mc_closed c then (EndOfStream, c) else (RecvBlocks, c\<lparr>mc_receivers := Suc (mc_receivers c)\<rparr>))"

subsection \<open>Write\<close>

text \<open>
  A call of \<open>Write\<close> panics (a send on a closed channel), blocks, or returns an error or nil.
  \<open>ctxErr\<close> is \<open>ctx.Err()\<close>, \<open>None\<close> while the context is not done; when both cases of a
  \<open>select\<close> are ready Go picks one, here \<open>pick_send\<close> says which.
\<close>

datatype write_result = WritePanics | WriteBlocks | WriteReturns "goerr option"

definition drop_error :: "string \<Rightarrow> goerr" where
  "drop_error m = PolicyViolationError ''ChannelPolicy'' m None"

definition Write ::
    "goerr option \<Rightarrow> bool \<Rightarrow> 'v \<Rightarrow> 'v managedChannel \<Rightarrow> write_result \<times> 'v managedChannel" where
  "Write ctxErr pick_send data mc =
     (let strategy = cp_OverflowStrategy (mc_policy mc) in
      if strategy = OverflowDropNew then
        (if mc_closed mc then (WritePanics, mc)
         else if can_send mc then (WriteReturns None, do_send data mc)
         else (WriteReturns (Some (drop_error ''channel full, dropped new message (OverflowDropNew)'')), mc))
      else if strategy = OverflowDropOldest then
        (if mc_closed mc then (WritePanics, mc)
         else if can_send mc then (WriteReturns None, do_send data mc)
         else (case mc_buffer mc of
             oldest # rest \<Rightarrow>
               (let mc' = mc\<lparr>mc_buffer := rest\<rparr> in
                if can_send mc' then
                  (WriteReturns (Some (drop_error ''channel full, dropped oldest message (OverflowDropOldest)'')),
                   do_send data mc')
                else
                  (WriteReturns (Some (PlainError
                     ''internal channel error: failed to send immediately after dropping oldest'')), mc'))
           | [] \<Rightarrow>
               (if can_send mc \<and> (ctxErr = None \<or> pick_send) then (WriteReturns None, do_send data mc)
                else case ctxErr of
                  Some e \<Rightarrow> (WriteReturns (Some e), mc)
                | None \<Rightarrow> (WriteReturns (Some (drop_error
                    ''channel full, failed to drop oldest and send new (OverflowDropOldest)'')), mc))))
      else if strategy = OverflowError then
        (if mc_closed mc then (WritePanics, mc)
         else if can_send mc then (WriteReturns None, do_send data mc)
         else (WriteReturns (Some (drop_error (''channel full, overflow strategy is '' @ sq @ ''error'' @ sq @ '' (OverflowError)''))), mc))
      else
        (if mc_closed mc \<and> (ctxErr = None \<or> pick_send) then (WritePanics, mc)
         else if \<not> mc_closed mc \<and> can_send mc \<and> (ctxErr = None \<or> pick_send) then (WriteReturns None, do_send data mc)
         else case ctxErr of
           Some e \<Rightarrow> (WriteReturns (Some e), mc)
         | None \<Rightarrow> (WriteBlocks, mc)))"

lemma do_send_ok [go_inv]: "chan_ok c \<Longrightarrow> can_send c \<Longrightarrow> chan_ok (do_send v c)"
  by (auto simp: chan_ok_def can_send_def do_send_def)

lemma do_send_stream: "chan_ok c \<Longrightarrow> stream (do_send v c) = stream c @ [v]"
  by (auto simp: chan_ok_def do_send_def stream_def)

lemma chan_recv_ok [go_inv]: "chan_ok c \<Longrightarrow> chan_ok (snd (chan_recv c))"
  by (auto simp: chan_ok_def chan_recv_def split: list.splits)

lemma chan_recv_stream: "stream (snd (chan_recv c)) = stream c"
  by (auto simp: chan_recv_def stream_def split: list.splits)

text \<open>What a write leaves of the stream: nothing lost, and where a value is dropped, which.\<close>

definition write_effect :: "'v \<Rightarrow> 'v managedChannel \<Rightarrow> write_result \<Rightarrow> 'v managedChannel \<Rightarrow> bool" where
  "write_effect v c r c' \<longleftrightarrow>
     (case r of
        WriteReturns None \<Rightarrow> stream c' = stream c @ [v]
      | WriteReturns (Some e) \<Rightarrow>
          if cp_OverflowStrategy (mc_policy c) = OverflowDropOldest \<and> mc_buffer c \<noteq> [] then
            mc_received c' = mc_received c \<and> mc_buffer c' = tl (mc_buffer c) @ [v] \<and>
            e = drop_error ''channel full, dropped oldest message (OverflowDropOldest)''
          else c' = c
      | _ \<Rightarrow> c' = c)"

lemma Write_ok [go_inv]:
  assumes "chan_ok c"
  shows "chan_ok (snd (Write ctxErr pick v c))"
proof -
  have "chan_ok (do_send v (c\<lparr>mc_buffer := rest\<rparr>))" "chan_ok (c\<lparr>mc_buffer := rest\<rparr>)"
    if "mc_buffer c = x # rest" for x rest
    using assms that by (auto simp: chan_ok_def do_send_def)
  with assms do_send_ok show ?thesis by (auto simp: Write_def Let_def split: list.splits option.splits)
qed

lemma Write_effect:
  assumes "chan_ok c"
  shows "write_effect v c (fst (Write ctxErr pick v c)) (snd (Write ctxErr pick v c))"
proof -
  have neq: "OverflowDropNew \<noteq> OverflowDropOldest" "OverflowError \<noteq> OverflowDropOldest"
    by (simp_all add: OverflowDropNew_def OverflowDropOldest_def OverflowError_def)
  have oldest: "mc_receivers c = 0" "can_send (c\<lparr>mc_buffer := rest\<rparr>)" if "mc_buffer c = x # rest" for x rest
    using assms that by (auto simp: chan_ok_def can_send_def)
  show ?thesis
    using assms neq oldest do_send_stream [of c v]
    by (auto simp: Write_def write_effect_def Let_def do_send_def split: list.splits option.splits)
qed

subsection \<open>The channel manager\<close>

record 'v ChannelManager =
  cm_defaultPolicy :: ChannelPolicy
  cm_channels :: "'v managedChannel list"
  cm_producerChannels :: "nat list gomap"
  cm_consumerProducerToChannel :: "nat gomap gomap"
  cm_producerWaitGroups :: "nat gomap"
  cm_consumerToProducerWGs :: "string list gomap"

text \<open>
  \<open>BufferSize\<close> is a pointer the caller shares: clamping a negative size writes through it, so
  the caller's policy is returned as the call leaves it.
\<close>

definition NewChannelManager :: "ChannelPolicy option \<Rightarrow> 'v ChannelManager \<times> ChannelPolicy option" where
  "NewChannelManager defaultPolicy =
     (let ep0 = \<lparr>cp_Name = [], cp_BufferSize = Some 100, cp_OverflowStrategy = OverflowBlock\<rparr>;
          ep1 = (case defaultPolicy of
              None \<Rightarrow> ep0
            | Some dp \<Rightarrow>
                ep0\<lparr>cp_BufferSize := (if cp_BufferSize dp \<noteq> None then cp_BufferSize dp else cp_BufferSize ep0),
                    cp_OverflowStrategy :=
                      (if cp_OverflowStrategy dp \<noteq> [] then cp_OverflowStrategy dp else cp_OverflowStrategy ep0)\<rparr>);
          size = the (cp_BufferSize ep1);
          ep2 = (if size < 0 then ep1\<lparr>cp_BufferSize := Some 0\<rparr> else ep1);
          caller = map_option (\<lambda>dp. if cp_BufferSize dp \<noteq> None \<and> size < 0 then dp\<lparr>cp_BufferSize := Some 0\<rparr> else dp)
                     defaultPolicy;
          ep3 = (if cp_OverflowStrategy ep2 \<in> {OverflowBlock, OverflowDropNew, OverflowDropOldest, OverflowError} then ep2
                 else ep2\<lparr>cp_OverflowStrategy := OverflowBlock\<rparr>)
      in (\<lparr>cm_defaultPolicy = ep3, cm_channels = [], cm_producerChannels = [], cm_consumerProducerToChannel = [],
           cm_producerWaitGroups = [], cm_consumerToProducerWGs = []\<rparr>, caller))"

definition cm_ok :: "'v ChannelManager \<Rightarrow> bool" where
  "cm_ok cm \<longleftrightarrow> (\<exists>n. cp_BufferSize (cm_defaultPolicy cm) = Some n \<and> 0 \<le> n) \<and>
     cp_OverflowStrategy (cm_defaultPolicy cm) \<in> {OverflowBlock, OverflowDropNew, OverflowDropOldest, OverflowError}"

lemma NewChannelManager_ok [go_inv]: "cm_ok (fst (NewChannelManager p))"
  by (cases p) (auto simp: NewChannelManager_def cm_ok_def Let_def)

text \<open>\<open>findNodeByName\<close> scans the nodes in the order of a range over the map.\<close>

definition findNodeByName :: "string ranger \<Rightarrow> DAG \<Rightarrow> string \<Rightarrow> string option" where
  "findNodeByName rng dag name =
     (if name = [] then None
      else List.find (\<lambda>x. case map_of dag x of None \<Rightarrow> False | Some n \<Rightarrow> tk_Name (nd_Task n) = name)
             (rng 6 (keys dag)))"

definition new_channel :: "ChannelPolicy \<Rightarrow> 'v managedChannel" where
  "new_channel policy =
     (let bufferSize = the (cp_BufferSize policy)
      in \<lparr>mc_buffer = [], mc_cap = nat (if bufferSize < 0 then 0 else bufferSize), mc_closed = False,
          mc_receivers = 0, mc_received = [], mc_policy = policy\<rparr>)"

definition get_list :: "'v list gomap \<Rightarrow> string \<Rightarrow> 'v list" where
  "get_list m k = (case map_of m k of None \<Rightarrow> [] | Some xs \<Rightarrow> xs)"

text \<open>One producer and one consumer are connected: the wait group counts it, a channel is made and wired.\<close>

definition connect :: "string \<Rightarrow> string \<Rightarrow> 'v ChannelManager \<Rightarrow> 'v ChannelManager" where
  "connect producerID consumerID cm =
     (let c = length (cm_channels cm);
          wg = (case map_of (cm_producerWaitGroups cm) producerID of None \<Rightarrow> 0 | Some n \<Rightarrow> n)
      in cm\<lparr>cm_producerWaitGroups := AList.update producerID (wg + 1) (cm_producerWaitGroups cm),
            cm_consumerToProducerWGs :=
              AList.update consumerID (get_list (cm_consumerToProducerWGs cm) consumerID @ [producerID])
                (cm_consumerToProducerWGs cm),
            cm_channels := cm_channels cm @ [new_channel (cm_defaultPolicy cm)],
            cm_producerChannels :=
              AList.update producerID (get_list (cm_producerChannels cm) producerID @ [c]) (cm_producerChannels cm),
            cm_consumerProducerToChannel :=
              AList.update consumerID
                (AList.update producerID c (get_list (cm_consumerProducerToChannel cm) consumerID))
                (cm_consumerProducerToChannel cm)\<rparr>)"

fun connect_inputs ::
    "string ranger \<Rightarrow> DAG \<Rightarrow> string \<Rightarrow> string \<Rightarrow> string list \<Rightarrow> 'v ChannelManager \<Rightarrow> goerr + 'v ChannelManager" where
  "connect_inputs rng dag consumerID consumerName [] cm = Inr cm"
| "connect_inputs rng dag consumerID consumerName (producerName # rest) cm =
     (case findNodeByName rng dag producerName of
        None \<Rightarrow> Inl (PlainError (''consistency error: producer task '' @ sq @ producerName @ sq @ '' for consumer '' @
                  sq @ consumerName @ sq @ '' not found in DAG''))
      | Some producerID \<Rightarrow>
          connect_inputs rng dag consumerID consumerName rest (connect producerID consumerID cm))"

definition connect_consumer :: "string ranger \<Rightarrow> DAG \<Rightarrow> string \<Rightarrow> 'v ChannelManager \<Rightarrow> goerr + 'v ChannelManager" where
  "connect_consumer rng dag consumerID cm =
     (case map_of dag consumerID of
        None \<Rightarrow> Inr cm
      | Some node \<Rightarrow>
          if tk_StreamInputs (nd_Task node) = [] then Inr cm
          else connect_inputs rng dag consumerID (tk_Name (nd_Task node)) (tk_StreamInputs (nd_Task node))
            (cm\<lparr>cm_consumerProducerToChannel := AList.update consumerID [] (cm_consumerProducerToChannel cm),
                cm_consumerToProducerWGs := AList.update consumerID [] (cm_consumerToProducerWGs cm)\<rparr>))"

fun connect_all :: "string ranger \<Rightarrow> DAG \<Rightarrow> string list \<Rightarrow> 'v ChannelManager \<Rightarrow> goerr + 'v ChannelManager" where
  "connect_all rng dag [] cm = Inr cm"
| "connect_all rng dag (consumerID # rest) cm =
     (case connect_consumer rng dag consumerID cm of
        Inl e \<Rightarrow> Inl e
      | Inr cm' \<Rightarrow> connect_all rng dag rest cm')"

definition reset_manager :: "'v ChannelManager \<Rightarrow> 'v ChannelManager" where
  "reset_manager cm = cm\<lparr>cm_channels := [], cm_producerChannels := [], cm_consumerProducerToChannel := [],
     cm_producerWaitGroups := [], cm_consumerToProducerWGs := []\<rparr>"

definition CreateChannels :: "string ranger \<Rightarrow> DAG \<Rightarrow> 'v ChannelManager \<Rightarrow> goerr + 'v ChannelManager" where
  "CreateChannels rng dag cm = connect_all rng dag (rng 5 (keys dag)) (reset_manager cm)"

definition GetProducerWaitGroup :: "string \<Rightarrow> 'v ChannelManager \<Rightarrow> string option" where
  "GetProducerWaitGroup taskID cm = map_option (\<lambda>_. taskID) (map_of (cm_producerWaitGroups cm) taskID)"

definition GetConsumerProducerWaitGroups :: "string \<Rightarrow> 'v ChannelManager \<Rightarrow> string list option" where
  "GetConsumerProducerWaitGroups taskID cm = map_of (cm_consumerToProducerWGs cm) taskID"

definition GetInputChannelMap :: "string \<Rightarrow> 'v ChannelManager \<Rightarrow> nat gomap option" where
  "GetInputChannelMap taskID cm = map_of (cm_consumerProducerToChannel cm) taskID"

definition GetOutputManagedChannels :: "string \<Rightarrow> 'v ChannelManager \<Rightarrow> nat list option" where
  "GetOutputManagedChannels taskID cm = map_of (cm_producerChannels cm) taskID"

text \<open>Closing a closed channel panics: \<open>None\<close>.\<close>

fun close_channels :: "nat list \<Rightarrow> 'v managedChannel list \<Rightarrow> 'v managedChannel list option" where
  "close_channels [] chs = Some chs"
| "close_channels (c # cs) chs =
     (if mc_closed (chs ! c) then None else close_channels cs (chs[c := (chs ! c)\<lparr>mc_closed := True\<rparr>]))"

definition CloseOutputChannels :: "string \<Rightarrow> 'v ChannelManager \<Rightarrow> 'v ChannelManager option" where
  "CloseOutputChannels taskID cm =
     (case map_of (cm_producerChannels cm) taskID of
        None \<Rightarrow> Some cm
      | Some channels \<Rightarrow> map_option (\<lambda>chs. cm\<lparr>cm_channels := chs\<rparr>) (close_channels channels (cm_channels cm)))"

subsection \<open>The topology CreateChannels builds\<close>

text \<open>
  The streams in the order of their creation, as pairs of a producer and a consumer: the
  \<open>j\<close>-th pair has channel \<open>j\<close>. \<open>topology\<close> says what the manager's tables hold for such a plan.
\<close>

definition outputs_of :: "(string \<times> string) list \<Rightarrow> string \<Rightarrow> nat list" where
  "outputs_of plan p = filter (\<lambda>j. fst (plan ! j) = p) [0..<length plan]"

definition input_channel :: "(string \<times> string) list \<Rightarrow> string \<Rightarrow> string \<Rightarrow> nat \<Rightarrow> bool" where
  "input_channel plan c p j \<longleftrightarrow>
     j < length plan \<and> plan ! j = (p, c) \<and> (\<forall>k. j < k \<longrightarrow> k < length plan \<longrightarrow> plan ! k \<noteq> (p, c))"

definition topology :: "'v ChannelManager \<Rightarrow> (string \<times> string) list \<Rightarrow> bool" where
  "topology cm plan \<longleftrightarrow>
     cm_channels cm = replicate (length plan) (new_channel (cm_defaultPolicy cm)) \<and>
     (\<forall>p. map_of (cm_producerChannels cm) p = (if p \<in> fst ` set plan then Some (outputs_of plan p) else None)) \<and>
     (\<forall>p. map_of (cm_producerWaitGroups cm) p =
        (if p \<in> fst ` set plan then Some (length (outputs_of plan p)) else None)) \<and>
     (\<forall>c. get_list (cm_consumerToProducerWGs cm) c = map fst (filter (\<lambda>x. snd x = c) plan)) \<and>
     (\<forall>c p j. map_of (get_list (cm_consumerProducerToChannel cm) c) p = Some j \<longleftrightarrow> input_channel plan c p j)"

lemma outputs_of_snoc:
  "outputs_of (plan @ [(p', c)]) p = outputs_of plan p @ (if p' = p then [length plan] else [])"
  by (auto simp: outputs_of_def nth_append intro!: filter_cong)

lemma outputs_of_Nil: "p \<notin> fst ` set plan \<Longrightarrow> outputs_of plan p = []"
  by (auto simp: outputs_of_def filter_empty_conv)

lemma input_channel_snoc:
  "input_channel (plan @ [(p', c')]) c p j \<longleftrightarrow>
     (if (p', c') = (p, c) then j = length plan else input_channel plan c p j)"
proof (cases "(p', c') = (p, c)")
  case True
  have "j = length plan" if "input_channel (plan @ [(p, c)]) c p j"
  proof (rule ccontr)
    assume "j \<noteq> length plan"
    with that have "j < length plan" by (simp add: input_channel_def)
    with that have "(plan @ [(p, c)]) ! length plan \<noteq> (p, c)" unfolding input_channel_def by auto
    then show False by simp
  qed
  moreover have "input_channel (plan @ [(p, c)]) c p (length plan)" by (simp add: input_channel_def)
  ultimately show ?thesis using True by auto
next
  case False
  then have last: "(plan @ [(p', c')]) ! length plan \<noteq> (p, c)" by simp
  have before: "(plan @ [(p', c')]) ! k = plan ! k" if "k < length plan" for k using that by (simp add: nth_append)
  have "input_channel (plan @ [(p', c')]) c p j" if "input_channel plan c p j"
    unfolding input_channel_def
  proof (intro conjI allI impI)
    fix k assume "j < k" "k < length (plan @ [(p', c')])"
    with that last before show "(plan @ [(p', c')]) ! k \<noteq> (p, c)"
      by (cases "k = length plan") (auto simp: input_channel_def)
  qed (use that before in \<open>auto simp: input_channel_def\<close>)
  moreover have "input_channel plan c p j" if a: "input_channel (plan @ [(p', c')]) c p j"
  proof -
    have "j \<noteq> length plan" using a last by (auto simp: input_channel_def)
    with a have j: "j < length plan" by (simp add: input_channel_def)
    show ?thesis unfolding input_channel_def
    proof (intro conjI allI impI)
      fix k assume "j < k" "k < length plan"
      with a have "(plan @ [(p', c')]) ! k \<noteq> (p, c)" by (simp add: input_channel_def)
      with before \<open>k < length plan\<close> show "plan ! k \<noteq> (p, c)" by simp
    qed (use a j before in \<open>auto simp: input_channel_def\<close>)
  qed
  ultimately show ?thesis using False by auto
qed

lemma get_list_update [simp]: "get_list (AList.update k v m) k' = (if k' = k then v else get_list m k')"
  by (simp add: get_list_def)

lemma connect_topology:
  assumes "topology cm plan"
  shows "topology (connect p c cm) (plan @ [(p, c)])"
proof -
  have len: "length (cm_channels cm) = length plan" using assms by (simp add: topology_def)
  have out: "get_list (cm_producerChannels cm) p = outputs_of plan p"
    "(case map_of (cm_producerWaitGroups cm) p of None \<Rightarrow> 0 | Some n \<Rightarrow> n) = length (outputs_of plan p)"
    using assms outputs_of_Nil [of p plan] by (auto simp: topology_def get_list_def)
  let ?cm = "connect p c cm" and ?plan = "plan @ [(p, c)]"
  have 1: "cm_channels ?cm = replicate (length ?plan) (new_channel (cm_defaultPolicy ?cm))"
    using assms by (simp add: topology_def connect_def Let_def replicate_append_same)
  have 2: "map_of (cm_producerChannels ?cm) q = (if q \<in> fst ` set ?plan then Some (outputs_of ?plan q) else None)" for q
    using assms len out(1) by (simp add: topology_def connect_def Let_def outputs_of_snoc)
  have 3: "map_of (cm_producerWaitGroups ?cm) q =
      (if q \<in> fst ` set ?plan then Some (length (outputs_of ?plan q)) else None)" for q
    using assms out(2) by (simp add: topology_def connect_def Let_def outputs_of_snoc)
  have 4: "get_list (cm_consumerToProducerWGs ?cm) d = map fst (filter (\<lambda>x. snd x = d) ?plan)" for d
    using assms by (simp add: topology_def connect_def Let_def)
  have 5: "map_of (get_list (cm_consumerProducerToChannel ?cm) d) q = Some j \<longleftrightarrow> input_channel ?plan d q j" for d q j
    using assms len by (auto simp: topology_def connect_def Let_def input_channel_snoc)
  from 1 2 3 4 5 show ?thesis unfolding topology_def by blast
qed

lemma reset_topology: "topology (reset_manager cm) []"
  by (simp add: topology_def reset_manager_def get_list_def input_channel_def)

lemma open_consumer_topology:
  assumes "topology cm plan" and "c \<notin> snd ` set plan"
  shows "topology (cm\<lparr>cm_consumerProducerToChannel := AList.update c [] (cm_consumerProducerToChannel cm),
      cm_consumerToProducerWGs := AList.update c [] (cm_consumerToProducerWGs cm)\<rparr>) plan"
proof -
  have "filter (\<lambda>x. snd x = c) plan = []" using assms(2) by (force simp: filter_empty_conv)
  moreover have "\<not> input_channel plan c p j" for p j
    using assms(2) by (force simp: input_channel_def in_set_conv_nth image_iff)
  ultimately show ?thesis using assms(1) by (simp add: topology_def)
qed

definition consumer_plan :: "(string \<Rightarrow> string option) \<Rightarrow> DAG \<Rightarrow> string \<Rightarrow> (string \<times> string) list" where
  "consumer_plan lookup_name dag c =
     (case task_at dag c of None \<Rightarrow> [] | Some task \<Rightarrow> map (\<lambda>i. (the (lookup_name i), c)) (tk_StreamInputs task))"

lemma connect_inputs_topology:
  assumes "topology cm plan" and "\<forall>i \<in> set ins. findNodeByName rng dag i \<noteq> None"
  shows "\<exists>cm'. connect_inputs rng dag c cn ins cm = Inr cm' \<and>
    topology cm' (plan @ map (\<lambda>i. (the (findNodeByName rng dag i), c)) ins) \<and>
    cm_defaultPolicy cm' = cm_defaultPolicy cm"
  using assms
proof (induction ins arbitrary: cm plan)
  case (Cons i ins)
  then obtain p where p: "findNodeByName rng dag i = Some p" by auto
  from Cons.IH [OF connect_topology [OF Cons.prems(1)], of p c] Cons.prems(2) p
  show ?case by (simp add: connect_def Let_def)
qed simp

lemma connect_all_topology:
  assumes "topology cm plan" and "distinct cs" and "snd ` set plan \<inter> set cs = {}"
    and "\<forall>c \<in> set cs. \<forall>task. task_at dag c = Some task \<longrightarrow>
      (\<forall>i \<in> set (tk_StreamInputs task). findNodeByName rng dag i \<noteq> None)"
  shows "\<exists>cm'. connect_all rng dag cs cm = Inr cm' \<and>
    topology cm' (plan @ concat (map (consumer_plan (findNodeByName rng dag) dag) cs)) \<and>
    cm_defaultPolicy cm' = cm_defaultPolicy cm"
  using assms
proof (induction cs arbitrary: cm plan)
  case (Cons c cs)
  let ?find = "findNodeByName rng dag"
  obtain cm1 where cm1: "connect_consumer rng dag c cm = Inr cm1" "topology cm1 (plan @ consumer_plan ?find dag c)"
      "cm_defaultPolicy cm1 = cm_defaultPolicy cm"
  proof (cases "\<exists>task. task_at dag c = Some task \<and> tk_StreamInputs task \<noteq> []")
    case True
    then obtain n where n: "map_of dag c = Some n" "tk_StreamInputs (nd_Task n) \<noteq> []"
      by (auto simp: task_at_def)
    have "c \<notin> snd ` set plan" using Cons.prems(3) by simp
    note opened = open_consumer_topology [OF Cons.prems(1) this]
    have found: "\<forall>i \<in> set (tk_StreamInputs (nd_Task n)). ?find i \<noteq> None"
      using Cons.prems(4) n by (auto simp: task_at_def)
    from connect_inputs_topology [OF opened found, of c "tk_Name (nd_Task n)"] n that
    show thesis by (auto simp: connect_consumer_def consumer_plan_def task_at_def)
  next
    case False
    then have "connect_consumer rng dag c cm = Inr cm" "consumer_plan ?find dag c = []"
      by (auto simp: connect_consumer_def consumer_plan_def task_at_def split: option.splits)
    with Cons.prems(1) that show thesis by simp
  qed
  have "snd ` set (consumer_plan ?find dag c) \<subseteq> {c}" by (auto simp: consumer_plan_def split: option.splits)
  then have "snd ` set (plan @ consumer_plan ?find dag c) \<inter> set cs = {}" using Cons.prems(2,3) by auto
  from Cons.IH [OF cm1(2) _ this] Cons.prems(2,4) cm1 show ?case by simp
qed simp

lemma find_SomeD: "List.find P xs = Some x \<Longrightarrow> x \<in> set xs \<and> P x"
  by (induction xs) (auto split: if_splits)

lemma findNodeByName_table:
  assumes rng: "permutes rng" and dag: "dag_of_playbook extract pb dag" and names: "distinct (task_names pb)"
  shows "findNodeByName rng dag i = name_table pb i"
proof -
  have ks: "set (keys dag) = set (task_ids pb)"
    and node: "\<And>task. task \<in> set (pb_Tasks pb) \<Longrightarrow>
      \<exists>n. map_of dag (tk_InternalID task) = Some n \<and> nd_Task n = task"
    using dag by (auto simp: dag_of_playbook_def node_of_task_def)
  let ?P = "\<lambda>x. case map_of dag x of None \<Rightarrow> False | Some n \<Rightarrow> tk_Name (nd_Task n) = i"
  have P: "?P (tk_InternalID t) \<longleftrightarrow> tk_Name t = i" if "t \<in> set (pb_Tasks pb)" for t
    using node [OF that] by auto
  show ?thesis
  proof (cases "i \<noteq> [] \<and> (\<exists>t \<in> set (pb_Tasks pb). tk_Name t = i)")
    case True
    then obtain t where t: "t \<in> set (pb_Tasks pb)" "tk_Name t = i" and i: "i \<noteq> []" by blast
    have tab: "name_table pb i = Some (tk_InternalID t)"
      using t i by (auto simp: name_table_distinct [OF names])
    have "tk_InternalID t \<in> set (rng 6 (keys dag))" using rng t ks by (simp add: task_ids_def)
    then obtain x where x: "List.find ?P (rng 6 (keys dag)) = Some x"
      using P t by (metis (no_types, lifting) find_None_iff2 not_Some_eq)
    from find_SomeD [OF x] rng have "x \<in> set (keys dag)" and px: "?P x" by simp_all
    then obtain t' where t': "t' \<in> set (pb_Tasks pb)" "x = tk_InternalID t'"
      using ks by (auto simp: task_ids_def)
    with px P [of t'] have "tk_Name t' = i" by simp
    with t' have "name_table pb i = Some x" using i by (auto simp: name_table_distinct [OF names])
    with i x show ?thesis by (simp add: findNodeByName_def)
  next
    case False
    then have "name_table pb i = None" by (auto simp: name_table_def last_with_None)
    moreover have "findNodeByName rng dag i = None"
    proof (cases "i = []")
      case nonempty: False
      have "\<not> ?P x" if x: "x \<in> set (rng 6 (keys dag))" for x
      proof -
        have "x \<in> set (task_ids pb)" using x rng ks by simp
        then obtain t where "t \<in> set (pb_Tasks pb)" "x = tk_InternalID t" by (auto simp: task_ids_def)
        with P [of t] False nonempty show ?thesis by auto
      qed
      then have "List.find ?P (rng 6 (keys dag)) = None" by (simp add: find_None_iff)
      with nonempty show ?thesis by (simp add: findNodeByName_def)
    qed (simp add: findNodeByName_def)
    ultimately show ?thesis by simp
  qed
qed

definition stream_plan :: "string ranger \<Rightarrow> DAG \<Rightarrow> (string \<times> string) list" where
  "stream_plan rng dag = concat (map (consumer_plan (findNodeByName rng dag) dag) (rng 5 (keys dag)))"

lemma dag_of_playbook_task_at:
  "dag_of_playbook extract pb dag \<Longrightarrow> task_at dag c = Some task \<Longrightarrow>
     task \<in> set (pb_Tasks pb) \<and> tk_InternalID task = c"
proof -
  assume dag: "dag_of_playbook extract pb dag" and "task_at dag c = Some task"
  then obtain n where n: "map_of dag c = Some n" "nd_Task n = task" by (auto simp: task_at_def)
  then have "c \<in> set (keys dag)" by (auto simp: in_keys_conv)
  with dag obtain t where t: "t \<in> set (pb_Tasks pb)" "c = tk_InternalID t"
    by (auto simp: dag_of_playbook_def task_ids_def)
  with dag n show ?thesis by (auto simp: dag_of_playbook_def node_of_task_def)
qed

lemma CreateChannels_topology:
  assumes rng: "permutes rng" and dag: "dag_of_playbook extract pb dag" and names: "distinct (task_names pb)"
    and defd: "inputs_defined pb"
  shows "\<exists>cm'. CreateChannels rng dag cm = Inr cm' \<and> topology cm' (stream_plan rng dag) \<and>
    cm_defaultPolicy cm' = cm_defaultPolicy cm"
proof -
  have "distinct (rng 5 (keys dag))" using rng dag
    by (simp add: dag_of_playbook_def dag_wf_def gomap_ok_keys)
  moreover have "\<forall>i \<in> set (tk_StreamInputs task). findNodeByName rng dag i \<noteq> None"
    if "task_at dag c = Some task" for c task
    using dag_of_playbook_task_at [OF dag that] defd
    by (auto simp: findNodeByName_table [OF rng dag names] inputs_defined_def)
  ultimately show ?thesis
    using connect_all_topology [OF reset_topology, of "rng 5 (keys dag)" dag rng cm]
    by (simp add: CreateChannels_def stream_plan_def reset_manager_def)
qed

lemma set_stream_plan:
  assumes rng: "permutes rng" and dag: "dag_of_playbook extract pb dag" and names: "distinct (task_names pb)"
    and defd: "inputs_defined pb"
  shows "set (stream_plan rng dag) = {(p, c). p \<in> set (StreamDependsOn dag c)}"
proof -
  have find: "findNodeByName rng dag = name_table pb" by (rule ext) (rule findNodeByName_table [OF rng dag names])
  have cons: "set (consumer_plan (name_table pb) dag c) = {(p, c) | p. p \<in> set (StreamDependsOn dag c)}"
    if "c \<in> set (keys dag)" for c
  proof -
    obtain t where t: "t \<in> set (pb_Tasks pb)" "c = tk_InternalID t"
      using dag \<open>c \<in> set (keys dag)\<close> by (auto simp: dag_of_playbook_def task_ids_def)
    with dag obtain n where n: "map_of dag c = Some n" "node_of_task extract pb t n" by (auto simp: dag_of_playbook_def)
    then have "set (StreamDependsOn dag c) = stream_deps pb t" "task_at dag c = Some t"
      by (auto simp: StreamDependsOn_def node_of_task_def task_at_def)
    moreover have "stream_deps pb t = (\<lambda>i. the (name_table pb i)) ` set (tk_StreamInputs t)"
    proof -
      have "name_table pb i = Some (the (name_table pb i))" if "i \<in> set (tk_StreamInputs t)" for i
        using defd t that by (auto simp: inputs_defined_def)
      note tab = this
      show ?thesis unfolding stream_deps_def stream_producers_def
      proof (intro equalityI subsetI)
        fix p assume "p \<in> {p. \<exists>i \<in> set (tk_StreamInputs t). name_table pb i = Some p}"
        then obtain i where "i \<in> set (tk_StreamInputs t)" "name_table pb i = Some p" by blast
        then show "p \<in> (\<lambda>i. the (name_table pb i)) ` set (tk_StreamInputs t)" by force
      next
        fix p assume "p \<in> (\<lambda>i. the (name_table pb i)) ` set (tk_StreamInputs t)"
        with tab show "p \<in> {p. \<exists>i \<in> set (tk_StreamInputs t). name_table pb i = Some p}" by blast
      qed
    qed
    ultimately show ?thesis by (auto simp: consumer_plan_def)
  qed
  have "c \<in> set (keys dag)" if "p \<in> set (StreamDependsOn dag c)" for p c
    using that by (cases "map_of dag c") (auto simp: StreamDependsOn_def in_keys_conv)
  with cons rng show ?thesis by (auto simp: stream_plan_def find)
qed
text \<open>Without duplicate stream inputs, no stream is planned twice.\<close>

definition inputs_distinct :: "Playbook \<Rightarrow> bool" where
  "inputs_distinct pb \<longleftrightarrow> (\<forall>task \<in> set (pb_Tasks pb). distinct (tk_StreamInputs task))"

lemma name_table_inj:
  assumes "ids_ok pb" and "name_table pb i = Some x" and "name_table pb j = Some x"
  shows "i = j"
proof -
  obtain t t' where t: "t \<in> set (pb_Tasks pb)" "tk_Name t = i" "tk_InternalID t = x"
    and t': "t' \<in> set (pb_Tasks pb)" "tk_Name t' = j" "tk_InternalID t' = x"
    using assms(2,3) by (auto simp: name_table_def dest!: last_with_ran)
  have "inj_on tk_InternalID (set (pb_Tasks pb))" using assms(1) by (simp add: ids_ok_def task_ids_def distinct_map)
  with t t' have "t = t'" by (auto dest: inj_onD)
  with t t' show ?thesis by simp
qed

lemma distinct_concat_tagged:
  assumes "distinct cs" and "\<And>c. c \<in> set cs \<Longrightarrow> distinct (f c)" and "\<And>c. c \<in> set cs \<Longrightarrow> snd ` set (f c) \<subseteq> {c}"
  shows "distinct (concat (map f cs))"
  using assms
proof (induction cs)
  case (Cons c cs)
  have "snd x = c" if "x \<in> set (f c)" for x using Cons.prems(3) [of c] that by auto
  moreover have "snd x \<noteq> c" if "x \<in> set (concat (map f cs))" for x
  proof -
    from that obtain d where "d \<in> set cs" "x \<in> set (f d)" by auto
    then have "snd x = d" using Cons.prems(3) [of d] by auto
    with \<open>d \<in> set cs\<close> Cons.prems(1) show ?thesis by auto
  qed
  ultimately show ?case using Cons by fastforce
qed simp

lemma distinct_stream_plan:
  assumes rng: "permutes rng" and ids: "ids_ok pb" and dag: "dag_of_playbook extract pb dag"
    and names: "distinct (task_names pb)" and defd: "inputs_defined pb" and inputs: "inputs_distinct pb"
  shows "distinct (stream_plan rng dag)"
proof -
  have find: "findNodeByName rng dag = name_table pb" by (rule ext) (rule findNodeByName_table [OF rng dag names])
  have "distinct (rng 5 (keys dag))" using rng dag by (simp add: dag_of_playbook_def dag_wf_def gomap_ok_keys)
  moreover have "distinct (consumer_plan (name_table pb) dag c)" for c
  proof (cases "task_at dag c")
    case (Some t)
    with dag_of_playbook_task_at [OF dag] have t: "t \<in> set (pb_Tasks pb)" by blast
    have "inj_on (\<lambda>i. the (name_table pb i)) (set (tk_StreamInputs t))"
    proof (rule inj_onI)
      fix i j assume ij: "i \<in> set (tk_StreamInputs t)" "j \<in> set (tk_StreamInputs t)"
        and eq: "the (name_table pb i) = the (name_table pb j)"
      have "name_table pb i \<noteq> None" "name_table pb j \<noteq> None" using defd t ij by (auto simp: inputs_defined_def)
      with eq have "name_table pb i = Some (the (name_table pb j))" "name_table pb j = Some (the (name_table pb j))" by auto
      then show "i = j" by (rule name_table_inj [OF ids])
    qed
    then have "inj_on (\<lambda>i. (the (name_table pb i), c)) (set (tk_StreamInputs t))" by (auto simp: inj_on_def)
    with inputs t Some show ?thesis by (auto simp: consumer_plan_def inputs_distinct_def distinct_map)
  qed (simp add: consumer_plan_def)
  moreover have "snd ` set (consumer_plan (name_table pb) dag c) \<subseteq> {c}" for c
    by (auto simp: consumer_plan_def split: option.splits)
  ultimately show ?thesis unfolding stream_plan_def find by (intro distinct_concat_tagged)
qed

text \<open>
  The channels a producer writes are then exactly the input channels of its consumers, one each;
  a stream planned twice leaves a channel that is written but that nobody reads.
\<close>

lemma outputs_paired:
  assumes "distinct plan"
  shows "j \<in> set (outputs_of plan p) \<longleftrightarrow> (\<exists>c. input_channel plan c p j)"
proof
  assume "j \<in> set (outputs_of plan p)"
  then have j: "j < length plan" "plan ! j = (p, snd (plan ! j))" by (auto simp: outputs_of_def prod_eq_iff)
  moreover have "plan ! k \<noteq> plan ! j" if "j < k" "k < length plan" for k
    using assms that j by (simp add: nth_eq_iff_index_eq)
  ultimately show "\<exists>c. input_channel plan c p j" unfolding input_channel_def by metis
next
  assume "\<exists>c. input_channel plan c p j"
  then show "j \<in> set (outputs_of plan p)" by (auto simp: outputs_of_def input_channel_def)
qed

lemma orphan_channel:
  assumes "i < k" and "k < length plan" and "plan ! i = (p, c)" and "plan ! k = (p, c)"
  shows "i \<in> set (outputs_of plan p) \<and> (\<forall>c' p'. \<not> input_channel plan c' p' i)"
  using assms by (auto simp: outputs_of_def input_channel_def)

lemma outputs_of_distinct: "distinct (outputs_of plan p)"
  by (simp add: outputs_of_def)

lemma outputs_of_less: "j \<in> set (outputs_of plan p) \<Longrightarrow> j < length plan"
  by (simp add: outputs_of_def)

lemma length_outputs_of: "length (outputs_of plan p) = length (filter (\<lambda>x. fst x = p) plan)"
proof (induction plan rule: rev_induct)
  case (snoc x plan)
  obtain a b where "x = (a, b)" by (cases x)
  with snoc show ?case by (simp add: outputs_of_snoc)
qed (simp add: outputs_of_def)

subsection \<open>End of stream\<close>

lemma close_channels_open:
  assumes "distinct cs" and "set cs \<subseteq> {..<length chs}" and "\<forall>c \<in> set cs. \<not> mc_closed (chs ! c)"
  shows "\<exists>chs'. close_channels cs chs = Some chs' \<and> length chs' = length chs \<and>
    (\<forall>c < length chs. chs' ! c = (if c \<in> set cs then (chs ! c)\<lparr>mc_closed := True\<rparr> else chs ! c))"
  using assms
proof (induction cs arbitrary: chs)
  case (Cons c cs)
  let ?chs = "chs[c := (chs ! c)\<lparr>mc_closed := True\<rparr>]"
  have c: "c < length chs" "c \<notin> set cs" using Cons.prems by auto
  have "\<forall>d \<in> set cs. \<not> mc_closed (?chs ! d)" using Cons.prems c by (auto simp: nth_list_update)
  with Cons.IH [of ?chs] Cons.prems obtain chs' where chs': "close_channels cs ?chs = Some chs'"
    "length chs' = length ?chs"
    "\<forall>d < length ?chs. chs' ! d = (if d \<in> set cs then (?chs ! d)\<lparr>mc_closed := True\<rparr> else ?chs ! d)"
    by auto
  have "close_channels (c # cs) chs = Some chs'" using chs'(1) Cons.prems(3) by simp
  moreover have "chs' ! d = (if d \<in> set (c # cs) then (chs ! d)\<lparr>mc_closed := True\<rparr> else chs ! d)" if "d < length chs" for d
    using that chs'(3) c by (cases "d = c") auto
  ultimately show ?case using chs'(2) by auto
qed simp

text \<open>Closing right after creation succeeds; closing a second time panics if there is an output.\<close>

lemma CloseOutputChannels_once:
  assumes top: "topology cm plan"
  shows "\<exists>cm'. CloseOutputChannels p cm = Some cm' \<and>
    (\<forall>c < length plan. mc_closed (cm_channels cm' ! c) \<longleftrightarrow> fst (plan ! c) = p) \<and>
    (CloseOutputChannels p cm' = None \<longleftrightarrow> p \<in> fst ` set plan)"
proof (cases "p \<in> fst ` set plan")
  case False
  then have "CloseOutputChannels p cm = Some cm" using top by (simp add: CloseOutputChannels_def topology_def)
  moreover have "\<not> mc_closed (cm_channels cm ! c) \<and> fst (plan ! c) \<noteq> p" if "c < length plan" for c
    using top that False by (auto simp: topology_def new_channel_def Let_def)
  ultimately show ?thesis using False by auto
next
  case True
  let ?out = "outputs_of plan p"
  have outs: "map_of (cm_producerChannels cm) p = Some ?out" using top True by (simp add: topology_def)
  have len: "length (cm_channels cm) = length plan" using top by (simp add: topology_def)
  have fresh: "\<not> mc_closed (cm_channels cm ! c)" if "c < length plan" for c
    using top that by (simp add: topology_def new_channel_def Let_def)
  have "set ?out \<subseteq> {..<length (cm_channels cm)}" using len by (auto simp: outputs_of_def)
  then obtain chs where chs: "close_channels ?out (cm_channels cm) = Some chs" "length chs = length plan"
    "\<forall>c < length plan. chs ! c = (if c \<in> set ?out then (cm_channels cm ! c)\<lparr>mc_closed := True\<rparr> else cm_channels cm ! c)"
    using close_channels_open [of ?out "cm_channels cm"] outputs_of_distinct fresh len by (auto simp: outputs_of_less)
  let ?cm = "cm\<lparr>cm_channels := chs\<rparr>"
  have closed: "mc_closed (chs ! c) \<longleftrightarrow> fst (plan ! c) = p" if "c < length plan" for c
    using chs(3) fresh that by (auto simp: outputs_of_def)
  from True obtain i where "i < length plan" "fst (plan ! i) = p" by (auto simp: in_set_conv_nth)
  then have "i \<in> set ?out" by (simp add: outputs_of_def)
  then have "?out \<noteq> []" by auto
  then obtain c cs where out: "?out = c # cs" by (cases ?out) auto
  then have "c < length plan" "fst (plan ! c) = p"
    by (metis list.set_intros(1) outputs_of_less, metis (mono_tags, lifting) list.set_intros(1) mem_Collect_eq outputs_of_def set_filter)
  with closed out have "CloseOutputChannels p ?cm = None" using outs by (simp add: CloseOutputChannels_def)
  moreover have "CloseOutputChannels p cm = Some ?cm" using outs chs(1) by (simp add: CloseOutputChannels_def)
  ultimately show ?thesis using True closed by auto
qed

end
