(* ===== verification/Gxo_Retry.thy ===== *)
theory Gxo_Retry
  imports Gxo_Config Gxo_Redact Gxo_Floats
begin

text \<open>
  Retries (\<open>internal/retry/retry.go\<close>): \<open>Do\<close> runs an operation until it succeeds, the attempts
  are used up, retrying is off, or the context ends; between attempts it waits for a delay with
  backoff, jitter and a maximum. Durations are \<open>int64\<close> nanoseconds.
\<close>

text \<open>\<open>float64(d)\<close>.\<close>

definition of_duration :: "float_env \<Rightarrow> duration \<Rightarrow> gofloat" where
  "of_duration fe d = fe_round fe (of_int d)"

record retry_config =
  ry_Attempts :: int
  ry_Delay :: duration
  ry_MaxDelay :: duration
  ry_BackoffFactor :: gofloat
  ry_Jitter :: gofloat
  ry_OnError :: bool
  ry_TaskName :: string

definition MaxInt64_float :: rat where
  "MaxInt64_float = 2 ^ 63"

text \<open>The limits \<open>Do\<close> puts on its configuration.\<close>

definition normalise :: "retry_config \<Rightarrow> retry_config" where
  "normalise c =
     c\<lparr>ry_Attempts := (if ry_Attempts c \<le> 0 then 1 else ry_Attempts c),
       ry_BackoffFactor := (if float_lt (ry_BackoffFactor c) 1 then FNum 1 else ry_BackoffFactor c),
       ry_Jitter := (if float_lt (ry_Jitter c) 0 then FNum 0
                     else if float_gt (ry_Jitter c) 1 then FNum 1 else ry_Jitter c),
       ry_Delay := (if ry_Delay c < 0 then 0 else ry_Delay c),
       ry_MaxDelay := (if ry_MaxDelay c < 0 then 0 else ry_MaxDelay c)\<rparr>"

text \<open>The wait after a failed attempt; \<open>draw\<close> is what the random source returns.\<close>

definition base_delay :: "float_env \<Rightarrow> retry_config \<Rightarrow> nat \<Rightarrow> gofloat" where
  "base_delay fe c attempt =
     (let d0 = of_duration fe (ry_Delay c);
          d1 = (if float_gt (ry_BackoffFactor c) 1 \<and> attempt > 0
                then fmul fe d0 (fe_pow fe (ry_BackoffFactor c) (attempt - 1)) else d0)
      in if float_gt d1 MaxInt64_float then FNum MaxInt64_float else d1)"

definition add_jitter :: "float_env \<Rightarrow> retry_config \<Rightarrow> rat \<Rightarrow> duration \<Rightarrow> duration" where
  "add_jitter fe c draw wait =
     (if float_gt (ry_Jitter c) 0 then
        let jitterFactor = fmul fe (ry_Jitter c) (FNum (draw * 2 - 1));
            jitterAmount = to_int64 fe (fmul fe (of_duration fe wait) jitterFactor);
            w = wrap64 (wait + jitterAmount)
        in if w < 0 then 0 else w
      else wait)"

definition wait_delay :: "float_env \<Rightarrow> retry_config \<Rightarrow> rat \<Rightarrow> nat \<Rightarrow> duration" where
  "wait_delay fe c draw attempt =
     (let w = add_jitter fe c draw (to_int64 fe (base_delay fe c attempt))
      in if ry_MaxDelay c > 0 \<and> w > ry_MaxDelay c then ry_MaxDelay c else w)"

text \<open>
  What a call meets: the operation, a function of the attempt and the state it works on; the
  context's error before each attempt and, if it ends first, during each wait; the random
  numbers; and the redacted keywords with their orders.
\<close>

record 's retry_env =
  re_op :: "nat \<Rightarrow> 's \<Rightarrow> goerr option \<times> 's"
  re_ctxBefore :: "nat \<Rightarrow> goerr option"
  re_ctxWait :: "nat \<Rightarrow> goerr option"
  re_draw :: "nat \<Rightarrow> rat"
  re_float :: float_env
  re_rng :: "string ranger"
  re_keywords :: "string list"

definition redacted :: "'s retry_env \<Rightarrow> goerr \<Rightarrow> goerr" where
  "redacted env = RedactSecretsInError (re_rng env) (re_keywords env)"

text \<open>The result: the error, the waits that were begun, and the operation's state.\<close>

record 's retry_result =
  rs_err :: "goerr option"
  rs_waits :: "duration list"
  rs_calls :: nat
  rs_state :: 's

definition retry_cancelled :: "'s retry_env \<Rightarrow> nat \<Rightarrow> goerr \<Rightarrow> goerr \<Rightarrow> goerr" where
  "retry_cancelled env attempt lastErr ctxErr =
     WrapError (''retry cancelled after '' @ show_nat (attempt - 1) @ '' attempts with last error: '')
       (redacted env lastErr) ('' (context: '' @ Error ctxErr @ '')'')"

definition wait_cancelled :: "'s retry_env \<Rightarrow> nat \<Rightarrow> goerr \<Rightarrow> goerr \<Rightarrow> goerr" where
  "wait_cancelled env attempt lastErr ctxErr =
     WrapError (''retry delay cancelled after attempt '' @ show_nat attempt @ '' with error: '')
       (redacted env lastErr) ('' (context: '' @ Error ctxErr @ '')'')"

definition unexpected_end :: goerr where
  "unexpected_end = ConfigError ''retry loop finished unexpectedly without success or error'' None"

text \<open>The loop with \<open>left\<close> attempts to go, \<open>attempt\<close> being the next.\<close>

fun retry_loop ::
    "'s retry_env \<Rightarrow> retry_config \<Rightarrow> nat \<Rightarrow> nat \<Rightarrow> goerr option \<Rightarrow> duration list \<Rightarrow> 's \<Rightarrow> 's retry_result" where
  "retry_loop env c 0 attempt lastErr waits s =
     \<lparr>rs_err = Some (case lastErr of Some e \<Rightarrow> redacted env e | None \<Rightarrow> unexpected_end),
      rs_waits = waits, rs_calls = attempt - 1, rs_state = s\<rparr>"
| "retry_loop env c (Suc left) attempt lastErr waits s =
     (case re_ctxBefore env attempt of
        Some ctxErr \<Rightarrow>
          \<lparr>rs_err = Some (case lastErr of None \<Rightarrow> ctxErr | Some e \<Rightarrow> retry_cancelled env attempt e ctxErr),
           rs_waits = waits, rs_calls = attempt - 1, rs_state = s\<rparr>
      | None \<Rightarrow>
         (case re_op env attempt s of
            (None, s1) \<Rightarrow> \<lparr>rs_err = None, rs_waits = waits, rs_calls = attempt, rs_state = s1\<rparr>
          | (Some err, s1) \<Rightarrow>
             if int attempt = ry_Attempts c \<or> \<not> ry_OnError c
             then \<lparr>rs_err = Some (redacted env err), rs_waits = waits, rs_calls = attempt, rs_state = s1\<rparr>
             else
               let w = wait_delay (re_float env) c (re_draw env attempt) attempt in
               (case re_ctxWait env attempt of
                  Some ctxErr \<Rightarrow>
                    \<lparr>rs_err = Some (wait_cancelled env attempt err ctxErr),
                     rs_waits = waits @ [w], rs_calls = attempt, rs_state = s1\<rparr>
                | None \<Rightarrow> retry_loop env c left (attempt + 1) (Some err) (waits @ [w]) s1)))"

definition Do :: "'s retry_env \<Rightarrow> retry_config \<Rightarrow> 's \<Rightarrow> 's retry_result" where
  "Do env cfg s = (let c = normalise cfg in retry_loop env c (nat (ry_Attempts c)) 1 None [] s)"

subsection \<open>Bounds\<close>

lemma normalise_fields:
  "ry_Attempts (normalise c) \<ge> 1" "ry_OnError (normalise c) = ry_OnError c" "ry_Delay (normalise c) \<ge> 0"
  "ry_MaxDelay (normalise c) = max 0 (ry_MaxDelay c)" "ry_Attempts (normalise c) = max 1 (ry_Attempts c)"
  by (auto simp: normalise_def)

lemma wait_delay_max: "ry_MaxDelay c > 0 \<Longrightarrow> wait_delay fe c draw attempt \<le> ry_MaxDelay c"
  by (simp add: wait_delay_def Let_def)

lemma wait_delay_jitter_nonneg:
  "float_gt (ry_Jitter c) 0 \<Longrightarrow> ry_MaxDelay c \<ge> 0 \<Longrightarrow> wait_delay fe c draw attempt \<ge> 0"
  by (simp add: wait_delay_def add_jitter_def Let_def)

text \<open>One operation call per attempt, at most the configured number, one wait between two calls.\<close>

lemma retry_loop_bounds:
  assumes "attempt \<ge> 1" and "length waits = attempt - 1"
  shows "rs_calls (retry_loop env c left attempt lastErr waits s) \<le> attempt - 1 + left"
    and "length (rs_waits (retry_loop env c left attempt lastErr waits s)) \<le> rs_calls (retry_loop env c left attempt lastErr waits s)"
    and "rs_calls (retry_loop env c left attempt lastErr waits s) \<le> length (rs_waits (retry_loop env c left attempt lastErr waits s)) + 1"
  using assms
  by (induction env c left attempt lastErr waits s rule: retry_loop.induct)
    (auto simp: Let_def split: option.splits prod.splits)

lemma retry_loop_waits:
  assumes "\<And>k. P (wait_delay (re_float env) c (re_draw env k) k)" and "\<forall>w \<in> set waits. P w"
  shows "\<forall>w \<in> set (rs_waits (retry_loop env c left attempt lastErr waits s)). P w"
  using assms
  by (induction env c left attempt lastErr waits s rule: retry_loop.induct)
    (auto simp: Let_def split: option.splits prod.splits)

subsection \<open>Retrying until success\<close>

text \<open>The state after \<open>k\<close> calls and what call \<open>k\<close> returns, had every call been made.\<close>

fun op_state :: "'s retry_env \<Rightarrow> 's \<Rightarrow> nat \<Rightarrow> 's" where
  "op_state env s 0 = s"
| "op_state env s (Suc k) = snd (re_op env (Suc k) (op_state env s k))"

definition op_err :: "'s retry_env \<Rightarrow> 's \<Rightarrow> nat \<Rightarrow> goerr option" where
  "op_err env s k = fst (re_op env k (op_state env s (k - 1)))"

definition first_success :: "'s retry_env \<Rightarrow> 's \<Rightarrow> nat \<Rightarrow> nat \<Rightarrow> nat option" where
  "first_success env s i n = List.find (\<lambda>k. op_err env s k = None) [i ..< Suc n]"

lemma first_success_step:
  "i \<le> n \<Longrightarrow> first_success env s i n =
     (if op_err env s i = None then Some i else first_success env s (Suc i) n)"
  by (simp add: first_success_def upt_rec)

lemma first_success_end [simp]: "n < i \<Longrightarrow> first_success env s i n = None"
  by (simp add: first_success_def)

lemma retry_loop_uncancelled:
  assumes ctx: "\<And>k. re_ctxBefore env k = None" "\<And>k. re_ctxWait env k = None"
    and c: "ry_OnError c" "ry_Attempts c = int n" "i \<ge> 1" "i + left = Suc n" "i \<le> n"
  shows "(case first_success env s i n of
      Some k \<Rightarrow> rs_err (retry_loop env c left i le ws (op_state env s (i - 1))) = None \<and>
        rs_calls (retry_loop env c left i le ws (op_state env s (i - 1))) = k \<and>
        rs_state (retry_loop env c left i le ws (op_state env s (i - 1))) = op_state env s k
    | None \<Rightarrow> rs_err (retry_loop env c left i le ws (op_state env s (i - 1))) =
          map_option (redacted env) (op_err env s n) \<and>
        rs_calls (retry_loop env c left i le ws (op_state env s (i - 1))) = n \<and>
        rs_state (retry_loop env c left i le ws (op_state env s (i - 1))) = op_state env s n)"
  using c
proof (induction left arbitrary: i le ws)
  case (Suc left)
  obtain r s1 where op: "re_op env i (op_state env s (i - 1)) = (r, s1)" by fastforce
  have s1: "s1 = op_state env s i" using op Suc.prems(3) by (cases i) simp_all
  have r: "op_err env s i = r" using op by (simp add: op_err_def)
  show ?case
  proof (cases r)
    case None
    with op s1 r Suc.prems ctx show ?thesis by (simp add: first_success_step)
  next
    case (Some err)
    show ?thesis
    proof (cases "i = n")
      case True
      with op s1 r Some Suc.prems ctx show ?thesis by (simp add: first_success_step)
    next
      case False
      with Suc.prems have "Suc i \<le> n" "Suc i + left = Suc n" by auto
      have step: "retry_loop env c (Suc left) i le ws (op_state env s (i - 1)) =
          retry_loop env c left (Suc i) (Some err) (ws @ [wait_delay (re_float env) c (re_draw env i) i])
            (op_state env s i)"
        using False op s1 Some Suc.prems ctx by (simp add: Let_def del: op_state.simps)
      have "first_success env s i n = first_success env s (Suc i) n"
        using first_success_step [OF Suc.prems(5), of env s] r Some by simp
      with Suc.IH [OF Suc.prems(1,2) _ \<open>Suc i + left = Suc n\<close> \<open>Suc i \<le> n\<close>, of "Some err"
          "ws @ [wait_delay (re_float env) c (re_draw env i) i]", unfolded diff_Suc_1]
      show ?thesis unfolding step by simp
    qed
  qed
qed simp

lemma Do_success:
  assumes "re_ctxBefore env 1 = None" and "re_op env 1 s = (None, s1)"
  shows "Do env c s = \<lparr>rs_err = None, rs_waits = [], rs_calls = 1, rs_state = s1\<rparr>"
proof -
  have "ry_Attempts (normalise c) \<ge> 1" by (rule normalise_fields(1))
  then obtain n where "nat (ry_Attempts (normalise c)) = Suc n" by (cases "nat (ry_Attempts (normalise c))") auto
  then show ?thesis using assms by (simp add: Do_def Let_def)
qed

lemma redaction_keeps_errors: "redacted env e = e \<or> (\<exists>m. redacted env e = PlainError m)"
  by (simp add: redacted_def RedactSecretsInError_def Let_def)

text \<open>
  A wait that overflows is not capped by the maximum: when the backoff exceeds the range of a
  duration and the conversion of a float out of range gives the least int64, as on amd64, the
  wait is negative, so the next attempt follows at once.
\<close>

lemma overflowing_backoff_waits_nothing:
  assumes "fe_convert fe (FNum (2 ^ 63)) = - (2 ^ 63)"
    and "float_gt (fmul fe (of_duration fe (ry_Delay c)) (fe_pow fe (ry_BackoffFactor c) (attempt - 1))) (2 ^ 63)"
    and "float_gt (ry_BackoffFactor c) 1" and "attempt > 0" and "\<not> float_gt (ry_Jitter c) 0" and "ry_MaxDelay c \<ge> 0"
  shows "wait_delay fe c draw attempt = - (2 ^ 63)"
proof -
  have "base_delay fe c attempt = FNum (2 ^ 63)"
    using assms(2-4) by (simp add: base_delay_def Let_def MaxInt64_float_def)
  moreover have "\<not> in_int64 (trunc (2 ^ 63))"
    using trunc_of_int [of "2 ^ 63"] by (simp add: in_int64_def)
  ultimately have "to_int64 fe (base_delay fe c attempt) = - (2 ^ 63)"
    using assms(1) by (simp add: to_int64_def)
  then show ?thesis using assms(5,6) by (simp add: wait_delay_def add_jitter_def)
qed

end
