(* ===== verification/Gxo_Instance.thy ===== *)
theory Gxo_Instance
  imports Gxo_Channels Gxo_State Gxo_Retry
begin

text \<open>
  One instance of a task (\<open>executeSingleTaskInstance\<close> of \<open>internal/engine/task_runner.go\<close>) with
  its parameters, retries and record errors, and the items of a loop. The renderer, the plugin
  registry, the hooks and the modules are arguments (\<open>task_env\<close>); \<open>'s\<close> is the state they
  share, which holds the task's secret tracker. Tracing and logging are left out.
\<close>

subsection \<open>Conditions and loop items\<close>

text \<open>\<open>strconv.ParseFloat\<close> is an argument: \<open>None\<close> when it reports an error.\<close>

definition float_is_zero :: "gofloat \<Rightarrow> bool" where
  "float_is_zero f \<longleftrightarrow> f = FNum 0"

definition evaluateConditionString :: "(string \<Rightarrow> gofloat option) \<Rightarrow> string \<Rightarrow> bool" where
  "evaluateConditionString parseFloat s =
     (if to_lower (trim_space s) \<in> {''false'', ''no'', ''off'', ''0'', []} then False
      else case parseFloat s of
        Some num \<Rightarrow> \<not> float_is_zero num
      | None \<Rightarrow> True)"

text \<open>
  \<open>extractItems\<close>: the elements of a slice, the values of a map in the order of the range.
  \<open>opaque\<close> gives the elements of a value of another Go type, if reflection finds a slice, an
  array or a map.
\<close>

definition extractItems ::
    "(goval list \<Rightarrow> goval list) \<Rightarrow> (string \<Rightarrow> goval list option) \<Rightarrow> goval \<Rightarrow> goerr + goval list" where
  "extractItems ord opaque data =
     (case data of
        VNil \<Rightarrow> Inr []
      | VSlice xs \<Rightarrow> Inr xs
      | VNilSlice \<Rightarrow> Inr []
      | VStrs ss \<Rightarrow> Inr (map VStr ss)
      | VMap m \<Rightarrow> Inr (ord (map snd m))
      | VNilMap \<Rightarrow> Inr []
      | VAnyMap m \<Rightarrow> Inr (ord (map snd m))
      | VOpaque t \<Rightarrow> (case opaque t of Some xs \<Rightarrow> Inr xs
          | None \<Rightarrow> Inl (PlainError (''expected slice, array, or map for loop items, got '' @ type_name data)))
      | _ \<Rightarrow> Inl (PlainError (''expected slice, array, or map for loop items, got '' @ type_name data)))"


subsection \<open>Environment and state\<close>

datatype 'a outcome = Returns 'a | Blocks | Panics

record 's task_env =
  te_ord :: copy_order                                \<comment> \<open>iteration order of the deep copy\<close>
  te_storeRng :: "(string \<times> goval) ranger"
  te_paramRng :: "(string \<times> goval) ranger"
  te_itemOrd :: "goval list \<Rightarrow> goval list"
  te_opaque :: "string \<Rightarrow> goval list option"
  te_parseFloat :: "string \<Rightarrow> gofloat option"
  te_render :: "string \<Rightarrow> params \<Rightarrow> 's \<Rightarrow> (goerr + string) \<times> 's"
  te_resolve :: "string \<Rightarrow> params \<Rightarrow> 's \<Rightarrow> (goerr + goval) \<times> 's"
  te_tracker :: "'s \<Rightarrow> SecretTracker"
  te_before :: "goerr option list"                    \<comment> \<open>what each BeforeExecute hook returns\<close>
  te_registry :: "string \<Rightarrow> goerr option"            \<comment> \<open>\<open>None\<close>: the type has a module\<close>
  te_perform :: "nat \<Rightarrow> nat \<Rightarrow> params \<Rightarrow> nat gomap \<Rightarrow> nat list \<Rightarrow> 's \<Rightarrow>
    (goval \<times> goerr option \<times> goerr option list) \<times> 's" \<comment> \<open>by instance and attempt: summary, error, record errors\<close>
  te_ctxBefore :: "nat \<Rightarrow> nat \<Rightarrow> goerr option"      \<comment> \<open>by instance and attempt, as in \<open>retry_env\<close>\<close>
  te_ctxWait :: "nat \<Rightarrow> nat \<Rightarrow> goerr option"
  te_draw :: "nat \<Rightarrow> nat \<Rightarrow> rat"
  te_float :: float_env
  te_keywordRng :: "string ranger"
  te_keywords :: "string list"
  te_ctxDone :: "nat \<Rightarrow> bool"                        \<comment> \<open>the instance's context when its errors are forwarded\<close>

record ('v, 's) task_state =
  tx_cm :: "'v ChannelManager"
  tx_store :: MemoryStateStore
  tx_aggregated :: "goerr list"                       \<comment> \<open>the task's error channel, of capacity 10\<close>
  tx_user :: 's

definition err_capacity :: nat where
  "err_capacity = 10"

definition all_state :: "'s task_env \<Rightarrow> ('v, 's) task_state \<Rightarrow> params" where
  "all_state env tx = store_GetAll (te_ord env) (te_storeRng env) (tx_store tx)"

subsection \<open>One instance\<close>

definition ProducerIDMapKey :: string where
  "ProducerIDMapKey = ''_gxo_producer_id_map_''"

definition producer_id_map :: "DAG \<Rightarrow> string list \<Rightarrow> params" where
  "producer_id_map dag deps =
     fold (\<lambda>d m. case map_of dag d of
         Some n \<Rightarrow> if tk_Name (nd_Task n) \<noteq> [] then AList.update (tk_Name (nd_Task n)) (VStr (nd_ID n)) m else m
       | None \<Rightarrow> m) deps []"

text \<open>Only string parameters are resolved; nested values are passed on as they are.\<close>

fun render_params ::
    "'s task_env \<Rightarrow> params \<Rightarrow> (string \<times> goval) list \<Rightarrow> params \<Rightarrow> 's \<Rightarrow> (goerr + params) \<times> 's" where
  "render_params env data [] acc u = (Inr acc, u)"
| "render_params env data ((key, VStr s) # rest) acc u =
     (case te_resolve env s data u of
        (Inl err, u') \<Rightarrow> (Inl (WrapError (''parameter resolution failed for '' @ sq @ key @ sq @ '': '') err []), u')
      | (Inr v, u') \<Rightarrow> render_params env data rest (AList.update key v acc) u')"
| "render_params env data ((key, v) # rest) acc u = render_params env data rest (AList.update key v acc) u"

definition task_retry :: "Task \<Rightarrow> retry_config" where
  "task_retry task =
     \<lparr>ry_Attempts = GetRetryAttempts task, ry_Delay = GetRetryDelay task, ry_MaxDelay = GetRetryMaxDelay task,
      ry_BackoffFactor = GetRetryBackoffFactor task, ry_Jitter = GetRetryJitter task,
      ry_OnError = ShouldRetryOnError task, ry_TaskName = tk_InternalID task\<rparr>"

text \<open>The operation that is retried: one call of the module. The state is the shared state, the
  errors sent on \<open>moduleErrChan\<close> so far, and the summary of a successful call.\<close>

definition perform_op ::
    "'s task_env \<Rightarrow> nat \<Rightarrow> params \<Rightarrow> nat gomap \<Rightarrow> nat list \<Rightarrow> nat \<Rightarrow>
     's \<times> goerr option list \<times> goval \<Rightarrow> goerr option \<times> ('s \<times> goerr option list \<times> goval)" where
  "perform_op env i params inputs outs attempt st =
     (case st of (u, sent, summary) \<Rightarrow>
        (case te_perform env i attempt params inputs outs u of
           ((performSummary, performErr, errs), u') \<Rightarrow>
             (performErr, (u', sent @ errs, if performErr = None then performSummary else summary))))"

definition perform_env ::
    "'s task_env \<Rightarrow> nat \<Rightarrow> params \<Rightarrow> nat gomap \<Rightarrow> nat list \<Rightarrow> ('s \<times> goerr option list \<times> goval) retry_env" where
  "perform_env env i params inputs outs =
     \<lparr>re_op = perform_op env i params inputs outs, re_ctxBefore = te_ctxBefore env i,
      re_ctxWait = te_ctxWait env i, re_draw = te_draw env i, re_float = te_float env,
      re_rng = te_keywordRng env, re_keywords = te_keywords env\<rparr>"

definition wrap_record_error :: "Task \<Rightarrow> goerr \<Rightarrow> goerr" where
  "wrap_record_error task err =
     (if errors_As is_RecordProcessingError err = None then RecordProcessingError (tk_Name task) None (Some err) else err)"

text \<open>Forwarding to the task's error channel, which nothing reads: a full channel blocks until the
  instance's context ends.\<close>

fun forward_errors :: "Task \<Rightarrow> bool \<Rightarrow> goerr option list \<Rightarrow> goerr list \<Rightarrow> goerr list outcome" where
  "forward_errors task ctxDone [] aggr = Returns aggr"
| "forward_errors task ctxDone (None # errs) aggr = forward_errors task ctxDone errs aggr"
| "forward_errors task ctxDone (Some err # errs) aggr =
     (if length aggr < err_capacity
      then forward_errors task ctxDone errs (aggr @ [wrap_record_error task err])
      else if ctxDone then forward_errors task ctxDone errs aggr
      else Blocks)"

text \<open>The module's own error channel has capacity 10 and is read only after the last attempt.\<close>

definition run_module ::
    "'s task_env \<Rightarrow> Task \<Rightarrow> nat \<Rightarrow> params \<Rightarrow> ('v, 's) task_state \<Rightarrow>
     ((goval \<times> goerr option) \<times> ('v, 's) task_state) outcome" where
  "run_module env task i params tx =
     (let inputs = (case GetInputChannelMap (tk_InternalID task) (tx_cm tx) of None \<Rightarrow> [] | Some m \<Rightarrow> m);
          outs = (case GetOutputManagedChannels (tk_InternalID task) (tx_cm tx) of None \<Rightarrow> [] | Some cs \<Rightarrow> cs);
          res = Do (perform_env env i params inputs outs) (task_retry task) (tx_user tx, [], VNil)
      in case rs_state res of (u, sent, summary) \<Rightarrow>
           if length sent > err_capacity then Blocks
           else (case forward_errors task (te_ctxDone env i) sent (tx_aggregated tx) of
               Returns aggr \<Rightarrow> Returns ((summary, rs_err res), tx\<lparr>tx_aggregated := aggr, tx_user := u\<rparr>)
             | Blocks \<Rightarrow> Blocks
             | Panics \<Rightarrow> Panics))"

definition instance_body ::
    "'s task_env \<Rightarrow> DAG \<Rightarrow> Task \<Rightarrow> (string \<times> goval) list \<Rightarrow> nat \<Rightarrow> ('v, 's) task_state \<Rightarrow>
     ((goval \<times> goerr option) \<times> ('v, 's) task_state) outcome" where
  "instance_body env dag task scope i tx =
     (case List.find (\<lambda>r. r \<noteq> None) (te_before env) of
        Some (Some hookErr) \<Rightarrow> Returns ((VNil, Some (WrapError ''BeforeExecute hook failed: '' hookErr [])), tx)
      | _ \<Rightarrow>
          (case te_registry env (tk_Type task) of
             Some getErr \<Rightarrow> Returns ((VNil, Some getErr), tx)
           | None \<Rightarrow>
              (let templateData = fold (\<lambda>(k, v). AList.update k v) scope (all_state env tx) in
               (case render_params env templateData (te_paramRng env 0 (tk_Params task)) [] (tx_user tx) of
                  (Inl err, u) \<Rightarrow> Returns ((VNil, Some err), tx\<lparr>tx_user := u\<rparr>)
                | (Inr rendered, u) \<Rightarrow>
                    run_module env task i
                      (if tk_StreamInputs task \<noteq> []
                       then AList.update ProducerIDMapKey
                              (VMap (producer_id_map dag (StreamDependsOn dag (tk_InternalID task)))) rendered
                       else rendered)
                      (tx\<lparr>tx_user := u\<rparr>)))))"

text \<open>The deferred call closes the outputs of a producer on every return.\<close>

definition executeSingleTaskInstance ::
    "'s task_env \<Rightarrow> DAG \<Rightarrow> Task \<Rightarrow> (string \<times> goval) list \<Rightarrow> nat \<Rightarrow> ('v, 's) task_state \<Rightarrow>
     ((goval \<times> goerr option) \<times> ('v, 's) task_state) outcome" where
  "executeSingleTaskInstance env dag task scope i tx =
     (case instance_body env dag task scope i tx of
        Returns (r, tx1) \<Rightarrow>
          (if GetOutputManagedChannels (tk_InternalID task) (tx_cm tx1) = None then Returns (r, tx1)
           else (case CloseOutputChannels (tk_InternalID task) (tx_cm tx1) of
               None \<Rightarrow> Panics
             | Some cm \<Rightarrow> Returns (r, tx1\<lparr>tx_cm := cm\<rparr>)))
      | Blocks \<Rightarrow> Blocks
      | Panics \<Rightarrow> Panics)"

subsection \<open>The items of a loop\<close>

definition resolveLoopItems ::
    "'s task_env \<Rightarrow> goval \<Rightarrow> params \<Rightarrow> 's \<Rightarrow> (goerr + goval list) \<times> 's" where
  "resolveLoopItems env loopInput data u =
     (case loopInput of
        VNil \<Rightarrow> (Inr [], u)
      | VStr loopStr \<Rightarrow>
          (case te_resolve env loopStr data u of
             (Inl err, u') \<Rightarrow>
               (Inl (WrapError (''could not resolve loop variable expression '' @ sq @ loopStr @ sq @ '': '') err []), u')
           | (Inr items, u') \<Rightarrow> (extractItems (te_itemOrd env) (te_opaque env) items, u'))
      | _ \<Rightarrow> (extractItems (te_itemOrd env) (te_opaque env) (DeepCopy (te_ord env) loopInput), u))"

subsection \<open>What an instance changes\<close>

text \<open>The store is the same and the error channel is within its capacity.\<close>

definition keeps :: "('v, 's) task_state \<Rightarrow> ('v, 's) task_state \<Rightarrow> bool" where
  "keeps tx tx' \<longleftrightarrow> tx_store tx' = tx_store tx \<and>
     (length (tx_aggregated tx) \<le> err_capacity \<longrightarrow> length (tx_aggregated tx') \<le> err_capacity)"

lemma keeps_refl [simp]: "keeps tx tx" and keeps_user [simp]: "keeps tx (tx\<lparr>tx_user := u\<rparr>)"
  and keeps_cm [simp]: "keeps tx (tx1\<lparr>tx_cm := cm\<rparr>) = keeps tx tx1"
  and keeps_from_user [simp]: "keeps (tx\<lparr>tx_user := u\<rparr>) tx' = keeps tx tx'"
  by (simp_all add: keeps_def)

lemma keeps_trans: "keeps a b \<Longrightarrow> keeps b c \<Longrightarrow> keeps a c"
  by (simp add: keeps_def)

lemma forward_errors_bound:
  "forward_errors task d errs aggr = Returns out \<Longrightarrow> length aggr \<le> err_capacity \<Longrightarrow> length out \<le> err_capacity"
  by (induction task d errs aggr rule: forward_errors.induct) (auto split: if_splits)

lemma run_module_keeps:
  "run_module env task i params tx = Returns (r, tx') \<Longrightarrow> keeps tx tx' \<and> tx_cm tx' = tx_cm tx"
  by (auto simp: run_module_def Let_def keeps_def dest: forward_errors_bound split: prod.splits if_splits outcome.splits)

lemma instance_body_keeps:
  assumes "instance_body env dag task scope i tx = Returns (r, tx')"
  shows "keeps tx tx' \<and> tx_cm tx' = tx_cm tx"
  using assms
  by (auto simp: instance_body_def Let_def split: option.splits prod.splits sum.splits dest!: run_module_keeps)

lemma executeSingle_keeps:
  assumes "executeSingleTaskInstance env dag task scope i tx = Returns (r, tx')"
  shows "keeps tx tx' \<and>
    (if GetOutputManagedChannels (tk_InternalID task) (tx_cm tx) = None then tx_cm tx' = tx_cm tx
     else CloseOutputChannels (tk_InternalID task) (tx_cm tx) = Some (tx_cm tx'))"
proof -
  obtain r1 tx1 where b: "instance_body env dag task scope i tx = Returns (r1, tx1)"
    using assms by (auto simp: executeSingleTaskInstance_def split: outcome.splits)
  with instance_body_keeps [OF b] assms show ?thesis
    by (auto simp: executeSingleTaskInstance_def split: option.splits if_splits)
qed

text \<open>More than ten record errors: the module waits for a reader that only starts when it is done.\<close>

lemma record_errors_block:
  assumes "length (fst (snd (rs_state (Do (perform_env env i params
      (case GetInputChannelMap (tk_InternalID task) (tx_cm tx) of None \<Rightarrow> [] | Some m \<Rightarrow> m)
      (case GetOutputManagedChannels (tk_InternalID task) (tx_cm tx) of None \<Rightarrow> [] | Some cs \<Rightarrow> cs))
      (task_retry task) (tx_user tx, [], VNil))))) > err_capacity"
  shows "run_module env task i params tx = Blocks"
  using assms by (auto simp: run_module_def Let_def split: prod.splits)

text \<open>The number of calls of the module.\<close>

lemma task_attempts_bound:
  "rs_calls (Do (perform_env env i params inputs outs) (task_retry task) st) \<le> nat (GetRetryAttempts task)"
proof -
  let ?c = "normalise (task_retry task)"
  have "ry_Attempts ?c = GetRetryAttempts task"
    using GetRetryAttempts_pos [of task] by (simp add: normalise_def task_retry_def)
  then show ?thesis
    using retry_loop_bounds(1) [of 1 "[]" "perform_env env i params inputs outs" ?c "nat (ry_Attempts ?c)" None st]
    by (simp add: Do_def Let_def)
qed

lemma evaluateConditionString_cases:
  "evaluateConditionString pf s \<longleftrightarrow> to_lower (trim_space s) \<notin> {''false'', ''no'', ''off'', ''0'', []} \<and> pf s \<noteq> Some (FNum 0)"
  by (auto simp: evaluateConditionString_def float_is_zero_def split: option.splits)

end
