(* ===== verification/Gxo_Loop.thy ===== *)
theory Gxo_Loop
  imports Gxo_Instance
begin

text \<open>
  The loop of a task (\<open>ExecuteTask\<close> of \<open>internal/engine/task_runner.go\<close>): one goroutine per item,
  at most \<open>par\<close> at a time by a semaphore, results recorded under a mutex, a wait group for the
  end. A label is one step of the launching goroutine, of an iteration or of the context; a list
  of labels is a schedule. The first part is the machine, the second what every schedule
  computes, the third that the loop ends and never gets stuck, the last that the orders
  \<open>loop_events_ok\<close> describes are exactly those that occur.
\<close>

subsection \<open>The machine\<close>

datatype launcher =
    Launching nat     \<comment> \<open>in the select, about to start this item\<close>
  | Spawning nat      \<comment> \<open>the semaphore is taken\<close>
  | Stopping          \<comment> \<open>the select saw the context end\<close>
  | Waiting           \<comment> \<open>in \<open>loopWg.Wait\<close>\<close>
  | Ended

datatype iteration =
    Started | Running
  | Recording "goval \<times> goerr option"   \<comment> \<open>the instance has returned this\<close>
  | Releasing | Leaving | Gone

text \<open>What the mutex sections do, in their order: iteration \<open>i\<close> records a result, or leaves
  without one because the context had ended when it started; the launcher records the end.\<close>

datatype loop_event = Finish nat "(goval \<times> goerr option) option" | Stop goerr

fun loop_record :: "loop_event \<Rightarrow> goval \<times> goerr option \<Rightarrow> goval \<times> goerr option" where
  "loop_record (Finish i None) r = r"
| "loop_record (Finish i (Some (iterSummary, Some iterErr))) (summary, err) =
     (summary, if \<not> IsSkipped iterErr \<and> err = None then Some iterErr else err)"
| "loop_record (Finish i (Some (iterSummary, None))) (summary, err) =
     (if err = None then iterSummary else summary, err)"
| "loop_record (Stop c) (summary, err) = (summary, if err = None then Some c else err)"

record ('v, 's) loop_state =
  lp_pc :: launcher
  lp_iters :: "iteration list"
  lp_sem :: nat
  lp_wg :: nat
  lp_ctx :: "goerr option"                  \<comment> \<open>\<open>instanceCtx.Err()\<close>\<close>
  lp_result :: "goval \<times> goerr option"       \<comment> \<open>\<open>finalInstanceSummary\<close> and \<open>finalInstanceErr\<close>\<close>
  lp_trace :: "loop_event list"             \<comment> \<open>history\<close>
  lp_tx :: "('v, 's) task_state"

datatype loop_label =
    Acquire | SeeDone | Launch
  | Check nat | Perform nat | Record nat | Release nat | Depart nat
  | CtxEnds goerr

definition set_iter :: "nat \<Rightarrow> iteration \<Rightarrow> ('v, 's) loop_state \<Rightarrow> ('v, 's) loop_state" where
  "set_iter i pc s = s\<lparr>lp_iters := (lp_iters s)[i := pc]\<rparr>"

definition note_event :: "loop_event \<Rightarrow> ('v, 's) loop_state \<Rightarrow> ('v, 's) loop_state" where
  "note_event ev s = s\<lparr>lp_result := loop_record ev (lp_result s), lp_trace := lp_trace s @ [ev]\<rparr>"

definition at_iter :: "nat \<Rightarrow> ('v, 's) loop_state \<Rightarrow> iteration option" where
  "at_iter i s = (if i < length (lp_iters s) then Some (lp_iters s ! i) else None)"

text \<open>\<open>Blocks\<close>: this step cannot be taken now. A negative wait group panics.\<close>

fun loop_fire ::
    "'s task_env \<Rightarrow> DAG \<Rightarrow> Task \<Rightarrow> goval list \<Rightarrow> loop_label \<Rightarrow> ('v, 's) loop_state \<Rightarrow> ('v, 's) loop_state outcome" where
  "loop_fire env dag task items Acquire s =
     (case lp_pc s of
        Launching i \<Rightarrow>
          (if i < length items \<and> lp_sem s < nat (GetLoopParallel task)
           then Returns (s\<lparr>lp_pc := Spawning i, lp_sem := lp_sem s + 1\<rparr>) else Blocks)
      | _ \<Rightarrow> Blocks)"
| "loop_fire env dag task items SeeDone s =
     (case lp_pc s of
        Launching i \<Rightarrow> (if i < length items \<and> lp_ctx s \<noteq> None then Returns (s\<lparr>lp_pc := Stopping\<rparr>) else Blocks)
      | _ \<Rightarrow> Blocks)"
| "loop_fire env dag task items Launch s =
     (case lp_pc s of
        Launching i \<Rightarrow> (if i < length items then Blocks else Returns (s\<lparr>lp_pc := Waiting\<rparr>))
      | Spawning i \<Rightarrow>
          Returns (s\<lparr>lp_pc := Launching (i + 1), lp_wg := lp_wg s + 1, lp_iters := lp_iters s @ [Started]\<rparr>)
      | Stopping \<Rightarrow>
          (case lp_ctx s of Some c \<Rightarrow> Returns (note_event (Stop c) (s\<lparr>lp_pc := Waiting\<rparr>)) | None \<Rightarrow> Blocks)
      | Waiting \<Rightarrow> (if lp_wg s = 0 then Returns (s\<lparr>lp_pc := Ended\<rparr>) else Blocks)
      | Ended \<Rightarrow> Blocks)"
| "loop_fire env dag task items (Check i) s =
     (if at_iter i s = Some Started then
        (if lp_ctx s \<noteq> None then Returns (note_event (Finish i None) (set_iter i Releasing s))
         else Returns (set_iter i Running s))
      else Blocks)"
| "loop_fire env dag task items (Perform i) s =
     (if at_iter i s = Some Running then
        (case executeSingleTaskInstance env dag task [(GetLoopVar task, items ! i)] i (lp_tx s) of
           Returns (r, tx) \<Rightarrow> Returns (set_iter i (Recording r) (s\<lparr>lp_tx := tx\<rparr>))
         | Blocks \<Rightarrow> Blocks
         | Panics \<Rightarrow> Panics)
      else Blocks)"
| "loop_fire env dag task items (Record i) s =
     (case at_iter i s of
        Some (Recording r) \<Rightarrow> Returns (note_event (Finish i (Some r)) (set_iter i Releasing s))
      | _ \<Rightarrow> Blocks)"
| "loop_fire env dag task items (Release i) s =
     (if at_iter i s = Some Releasing \<and> lp_sem s > 0
      then Returns (set_iter i Leaving (s\<lparr>lp_sem := lp_sem s - 1\<rparr>)) else Blocks)"
| "loop_fire env dag task items (Depart i) s =
     (if at_iter i s = Some Leaving
      then (if lp_wg s = 0 then Panics else Returns (set_iter i Gone (s\<lparr>lp_wg := lp_wg s - 1\<rparr>)))
      else Blocks)"
| "loop_fire env dag task items (CtxEnds c) s =
     (if lp_ctx s = None then Returns (s\<lparr>lp_ctx := Some c\<rparr>) else Blocks)"

fun loop_fires ::
    "'s task_env \<Rightarrow> DAG \<Rightarrow> Task \<Rightarrow> goval list \<Rightarrow> loop_label list \<Rightarrow> ('v, 's) loop_state \<Rightarrow> ('v, 's) loop_state outcome" where
  "loop_fires env dag task items [] s = Returns s"
| "loop_fires env dag task items (l # ls) s =
     (case loop_fire env dag task items l s of
        Returns s' \<Rightarrow> loop_fires env dag task items ls s'
      | Blocks \<Rightarrow> Blocks
      | Panics \<Rightarrow> Panics)"

definition loop_start :: "('v, 's) task_state \<Rightarrow> ('v, 's) loop_state" where
  "loop_start tx = \<lparr>lp_pc = Launching 0, lp_iters = [], lp_sem = 0, lp_wg = 0, lp_ctx = None,
     lp_result = (VNil, None), lp_trace = [], lp_tx = tx\<rparr>"

text \<open>The loop under a schedule; \<open>Blocks\<close> when it does not return under it.\<close>

definition run_loop ::
    "'s task_env \<Rightarrow> DAG \<Rightarrow> Task \<Rightarrow> goval list \<Rightarrow> loop_label list \<Rightarrow> ('v, 's) task_state \<Rightarrow>
     ((goval \<times> goerr option) \<times> ('v, 's) task_state) outcome" where
  "run_loop env dag task items ls tx =
     (case loop_fires env dag task items ls (loop_start tx) of
        Returns s \<Rightarrow> if lp_pc s = Ended then Returns (lp_result s, lp_tx s) else Blocks
      | Blocks \<Rightarrow> Blocks
      | Panics \<Rightarrow> Panics)"

subsection \<open>Basic facts\<close>

lemma set_iter_simps [simp]:
  "lp_pc (set_iter i pc s) = lp_pc s" "lp_iters (set_iter i pc s) = (lp_iters s)[i := pc]"
  "lp_sem (set_iter i pc s) = lp_sem s" "lp_wg (set_iter i pc s) = lp_wg s" "lp_ctx (set_iter i pc s) = lp_ctx s"
  "lp_result (set_iter i pc s) = lp_result s" "lp_trace (set_iter i pc s) = lp_trace s" "lp_tx (set_iter i pc s) = lp_tx s"
  by (simp_all add: set_iter_def)

lemma note_event_simps [simp]:
  "lp_pc (note_event ev s) = lp_pc s" "lp_iters (note_event ev s) = lp_iters s" "lp_sem (note_event ev s) = lp_sem s"
  "lp_wg (note_event ev s) = lp_wg s" "lp_ctx (note_event ev s) = lp_ctx s" "lp_tx (note_event ev s) = lp_tx s"
  "lp_result (note_event ev s) = loop_record ev (lp_result s)" "lp_trace (note_event ev s) = lp_trace s @ [ev]"
  by (simp_all add: note_event_def)

lemma loop_start_simps [simp]:
  "lp_pc (loop_start tx) = Launching 0" "lp_iters (loop_start tx) = []" "lp_sem (loop_start tx) = 0"
  "lp_wg (loop_start tx) = 0" "lp_ctx (loop_start tx) = None" "lp_result (loop_start tx) = (VNil, None)"
  "lp_trace (loop_start tx) = []" "lp_tx (loop_start tx) = tx"
  by (simp_all add: loop_start_def)

lemma at_iter_Some [simp]: "at_iter i s = Some pc \<longleftrightarrow> i < length (lp_iters s) \<and> lp_iters s ! i = pc"
  by (auto simp: at_iter_def)

text \<open>A step is one of these.\<close>

lemma loop_fire_cases [consumes 1, case_names acquire see_done over spawn stop waited dropped checked performed recorded released departed ctx]:
  assumes "loop_fire env dag task items l s = Returns s'"
  obtains i where "l = Acquire" "lp_pc s = Launching i" "i < length items" "lp_sem s < nat (GetLoopParallel task)"
      "s' = s\<lparr>lp_pc := Spawning i, lp_sem := lp_sem s + 1\<rparr>"
  | i where "l = SeeDone" "lp_pc s = Launching i" "i < length items" "lp_ctx s \<noteq> None" "s' = s\<lparr>lp_pc := Stopping\<rparr>"
  | i where "l = Launch" "lp_pc s = Launching i" "length items \<le> i" "s' = s\<lparr>lp_pc := Waiting\<rparr>"
  | i where "l = Launch" "lp_pc s = Spawning i"
      "s' = s\<lparr>lp_pc := Launching (i + 1), lp_wg := lp_wg s + 1, lp_iters := lp_iters s @ [Started]\<rparr>"
  | c where "l = Launch" "lp_pc s = Stopping" "lp_ctx s = Some c" "s' = note_event (Stop c) (s\<lparr>lp_pc := Waiting\<rparr>)"
  | "l = Launch" "lp_pc s = Waiting" "lp_wg s = 0" "s' = s\<lparr>lp_pc := Ended\<rparr>"
  | i where "l = Check i" "i < length (lp_iters s)" "lp_iters s ! i = Started" "lp_ctx s \<noteq> None"
      "s' = note_event (Finish i None) (set_iter i Releasing s)"
  | i where "l = Check i" "i < length (lp_iters s)" "lp_iters s ! i = Started" "lp_ctx s = None"
      "s' = set_iter i Running s"
  | i r tx where "l = Perform i" "i < length (lp_iters s)" "lp_iters s ! i = Running"
      "executeSingleTaskInstance env dag task [(GetLoopVar task, items ! i)] i (lp_tx s) = Returns (r, tx)"
      "s' = set_iter i (Recording r) (s\<lparr>lp_tx := tx\<rparr>)"
  | i r where "l = Record i" "i < length (lp_iters s)" "lp_iters s ! i = Recording r"
      "s' = note_event (Finish i (Some r)) (set_iter i Releasing s)"
  | i where "l = Release i" "i < length (lp_iters s)" "lp_iters s ! i = Releasing" "lp_sem s > 0"
      "s' = set_iter i Leaving (s\<lparr>lp_sem := lp_sem s - 1\<rparr>)"
  | i where "l = Depart i" "i < length (lp_iters s)" "lp_iters s ! i = Leaving" "lp_wg s > 0"
      "s' = set_iter i Gone (s\<lparr>lp_wg := lp_wg s - 1\<rparr>)"
  | c where "l = CtxEnds c" "lp_ctx s = None" "s' = s\<lparr>lp_ctx := Some c\<rparr>"
proof (cases l)
  case Acquire
  then show ?thesis using assms by (auto split: launcher.splits if_splits intro: that(1))
next
  case SeeDone
  then show ?thesis using assms by (auto split: launcher.splits if_splits intro: that(2))
next
  case Launch
  then show ?thesis using assms
    by (cases "lp_pc s") (auto split: if_splits option.splits intro: that(3) that(4) that(5) that(6))
next
  case (Check i)
  then show ?thesis using assms by (cases "lp_ctx s = None") (auto split: if_splits intro: that(7) that(8))
next
  case (Perform i)
  then show ?thesis using assms by (auto split: if_splits outcome.splits intro: that(9))
next
  case (Record i)
  then show ?thesis using assms by (auto split: option.splits iteration.splits intro: that(10))
next
  case (Release i)
  then show ?thesis using assms by (auto split: if_splits intro: that(11))
next
  case (Depart i)
  then show ?thesis using assms by (auto split: if_splits intro: that(12))
next
  case (CtxEnds c)
  then show ?thesis using assms by (auto split: if_splits intro: that(13))
qed

lemma loop_fires_append:
  "loop_fires env dag task items (ls @ ls') s =
     (case loop_fires env dag task items ls s of
        Returns s' \<Rightarrow> loop_fires env dag task items ls' s' | Blocks \<Rightarrow> Blocks | Panics \<Rightarrow> Panics)"
  by (induction ls arbitrary: s) (auto split: outcome.split)

lemma loop_fires_induct [consumes 1, case_names start step]:
  assumes run: "loop_fires env dag task items ls s = Returns s'" and "P s"
    and "\<And>l t t'. l \<in> set ls \<Longrightarrow> P t \<Longrightarrow> loop_fire env dag task items l t = Returns t' \<Longrightarrow> P t'"
  shows "P s'"
  using assms
proof (induction ls arbitrary: s)
  case (Cons l ls)
  from Cons.prems(1) obtain t where t: "loop_fire env dag task items l s = Returns t" "loop_fires env dag task items ls t = Returns s'"
    by (auto split: outcome.splits)
  show ?case by (rule Cons.IH [OF t(2)]) (use Cons.prems t(1) in auto)
qed simp

lemma run_loop_cases:
  assumes "run_loop env dag task items ls tx = Returns (r, tx')"
  obtains s where "loop_fires env dag task items ls (loop_start tx) = Returns s" "lp_pc s = Ended" "r = lp_result s" "tx' = lp_tx s"
  using assms by (auto simp: run_loop_def split: outcome.splits if_splits)

text \<open>What every instance keeps of the task's state, the loop keeps.\<close>

lemma loop_keeps:
  assumes inst: "\<And>i t r t'. executeSingleTaskInstance env dag task [(GetLoopVar task, items ! i)] i t = Returns (r, t') \<Longrightarrow> R t t'"
    and refl: "R tx tx" and trans: "\<And>a b c. R a b \<Longrightarrow> R b c \<Longrightarrow> R a c"
    and run: "run_loop env dag task items ls tx = Returns (r, tx')"
  shows "R tx tx'"
proof -
  obtain s where s: "loop_fires env dag task items ls (loop_start tx) = Returns s" "tx' = lp_tx s"
    using run by (rule run_loop_cases)
  from s(1) have "R tx (lp_tx s)"
  proof (induction rule: loop_fires_induct)
    case (step l t t')
    from step(2) show ?case
      by (cases rule: loop_fire_cases) (use step(3) inst trans in \<open>auto\<close>)
  qed (simp add: refl)
  then show ?thesis by (simp add: s(2))
qed

subsection \<open>What the loop computes\<close>

definition finished :: "loop_event list \<Rightarrow> nat list" where
  "finished evs = List.map_filter (\<lambda>ev. case ev of Finish i r \<Rightarrow> Some i | Stop c \<Rightarrow> None) evs"

definition stops :: "loop_event list \<Rightarrow> goerr list" where
  "stops evs = List.map_filter (\<lambda>ev. case ev of Finish i r \<Rightarrow> None | Stop c \<Rightarrow> Some c) evs"

definition is_finish :: "loop_event \<Rightarrow> bool" where
  "is_finish ev = (case ev of Finish i r \<Rightarrow> True | Stop c \<Rightarrow> False)"

text \<open>An iteration is never more than the size of the semaphore ahead of the finished ones.\<close>

definition windowed :: "nat \<Rightarrow> nat list \<Rightarrow> bool" where
  "windowed par is \<longleftrightarrow> list_all (\<lambda>(pos, i). i < pos + par) (List.enumerate 0 is)"

text \<open>The orders in which a loop over \<open>n\<close> items can record: each launched iteration once, all
  items unless the launcher stopped, and at most \<open>par\<close> of them after it stopped.\<close>

definition loop_events_ok :: "nat \<Rightarrow> nat \<Rightarrow> loop_event list \<Rightarrow> bool" where
  "loop_events_ok n par evs \<longleftrightarrow>
     (let fs = finished evs in
      sort fs = [0 ..< length fs] \<and>
      (if stops evs = [] then length fs = n else length (stops evs) = 1 \<and> length fs < n) \<and>
      windowed par fs \<and>
      length (finished (dropWhile is_finish evs)) \<le> par)"

lemma finished_simps [simp]:
  "finished [] = []" "finished (Finish i r # evs) = i # finished evs" "finished (Stop c # evs) = finished evs"
  "finished (evs @ evs') = finished evs @ finished evs'"
  by (simp_all add: finished_def List.map_filter_simps) (simp add: List.map_filter_def)

lemma stops_simps [simp]:
  "stops [] = []" "stops (Finish i r # evs) = stops evs" "stops (Stop c # evs) = c # stops evs"
  "stops (evs @ evs') = stops evs @ stops evs'"
  by (simp_all add: stops_def List.map_filter_simps) (simp add: List.map_filter_def)

lemma is_finish_simps [simp]: "is_finish (Finish i r)" "\<not> is_finish (Stop c)"
  by (simp_all add: is_finish_def)

lemma takeWhile_finish:
  "takeWhile is_finish (evs @ [ev]) = (if stops evs = [] \<and> is_finish ev then evs @ [ev]
     else if stops evs = [] then evs else takeWhile is_finish evs)"
proof (induction evs)
  case (Cons e evs)
  then show ?case by (cases e) auto
qed (cases ev; simp)

lemma windowed_simps [simp]:
  "windowed par []" "windowed par (is @ [i]) \<longleftrightarrow> windowed par is \<and> i < length is + par"
  by (simp_all add: windowed_def enumerate_append_eq)

text \<open>The state of the semaphore, the wait group and the history.\<close>

definition holds_sem :: "iteration \<Rightarrow> bool" where
  "holds_sem pc \<longleftrightarrow> pc \<noteq> Leaving \<and> pc \<noteq> Gone"

definition has_finished :: "iteration \<Rightarrow> bool" where
  "has_finished pc \<longleftrightarrow> pc = Releasing \<or> pc = Leaving \<or> pc = Gone"

definition among :: "(iteration \<Rightarrow> bool) \<Rightarrow> iteration list \<Rightarrow> nat" where
  "among P its = length (filter P its)"

lemma among_simps [simp]:
  "among P [] = 0" "among P (its @ [pc]) = among P its + (if P pc then 1 else 0)"
  by (simp_all add: among_def)

lemma among_update:
  "i < length its \<Longrightarrow> among P (its[i := pc]) + (if P (its ! i) then 1 else 0) = among P its + (if P pc then 1 else 0)"
proof (induction its arbitrary: i)
  case (Cons it its)
  then show ?case by (cases i) (auto simp: among_def)
qed simp

lemma among_pos: "i < length its \<Longrightarrow> P (its ! i) \<Longrightarrow> 0 < among P its"
  unfolding among_def by (metis filter_empty_conv length_greater_0_conv nth_mem)

lemma among_obtain: "0 < among P its \<Longrightarrow> \<exists>i < length its. P (its ! i)"
  unfolding among_def by (metis filter_empty_conv in_set_conv_nth length_greater_0_conv)

fun launcher_ok :: "nat \<Rightarrow> nat \<Rightarrow> bool \<Rightarrow> launcher \<Rightarrow> bool" where
  "launcher_ok n launched dead (Launching i) \<longleftrightarrow> launched = i \<and> i \<le> n"
| "launcher_ok n launched dead (Spawning i) \<longleftrightarrow> launched = i \<and> i < n"
| "launcher_ok n launched dead Stopping \<longleftrightarrow> launched < n \<and> dead"
| "launcher_ok n launched dead _ \<longleftrightarrow> launched \<le> n"

fun taken :: "launcher \<Rightarrow> nat" where
  "taken (Spawning i) = 1"
| "taken _ = 0"

definition loop_inv :: "nat \<Rightarrow> nat \<Rightarrow> ('v, 's) loop_state \<Rightarrow> bool" where
  "loop_inv n par s \<longleftrightarrow>
     (let its = lp_iters s; fs = finished (lp_trace s) in
      launcher_ok n (length its) (lp_ctx s \<noteq> None) (lp_pc s) \<and>
      lp_sem s = among holds_sem its + taken (lp_pc s) \<and> lp_sem s \<le> par \<and>
      lp_wg s = among (\<lambda>pc. pc \<noteq> Gone) its \<and> (lp_pc s = Ended \<longrightarrow> among (\<lambda>pc. pc \<noteq> Gone) its = 0) \<and>
      length (stops (lp_trace s)) = (if (lp_pc s = Waiting \<or> lp_pc s = Ended) \<and> length its < n then 1 else 0) \<and>
      (stops (lp_trace s) \<noteq> [] \<longrightarrow> length its \<le> length (finished (takeWhile is_finish (lp_trace s))) + par) \<and>
      distinct fs \<and> set fs = {i. i < length its \<and> has_finished (its ! i)} \<and> windowed par fs \<and>
      lp_result s = fold loop_record (lp_trace s) (VNil, None))"

lemma loop_inv_start: "loop_inv n par (loop_start tx)"
  by (simp add: loop_inv_def)

lemma finished_length:
  assumes "loop_inv n par s"
  shows "length (finished (lp_trace s)) = among has_finished (lp_iters s)"
proof -
  have fs: "distinct (finished (lp_trace s))"
    "set (finished (lp_trace s)) = {i. i < length (lp_iters s) \<and> has_finished (lp_iters s ! i)}"
    using assms by (simp_all add: loop_inv_def Let_def)
  from distinct_card [OF fs(1)] show ?thesis by (simp add: fs(2) among_def length_filter_conv_card)
qed

lemma launched_window:
  assumes "loop_inv n par s"
  shows "length (lp_iters s) \<le> length (finished (lp_trace s)) + par"
proof -
  have "length its \<le> among has_finished its + among holds_sem its" for its
    by (induction its) (auto simp: among_def has_finished_def holds_sem_def)
  from this [of "lp_iters s"] finished_length [OF assms] assms show ?thesis
    by (auto simp: loop_inv_def Let_def)
qed

lemma loop_inv_finish:
  assumes inv: "loop_inv n par s" and i: "i < length (lp_iters s)" and pc: "\<not> has_finished (lp_iters s ! i)"
  shows "loop_inv n par (note_event (Finish i r) (set_iter i Releasing s))"
proof -
  have pcs: "holds_sem (lp_iters s ! i)" "lp_iters s ! i \<noteq> Gone" using pc by (auto simp: holds_sem_def has_finished_def)
  have "among P ((lp_iters s)[i := Releasing]) = among P (lp_iters s)" if "P Releasing" "P (lp_iters s ! i)" for P
    using among_update [OF i, of P Releasing] that by simp
  from this [of holds_sem] this [of "\<lambda>pc. pc \<noteq> Gone"] pcs
  have "among holds_sem ((lp_iters s)[i := Releasing]) = among holds_sem (lp_iters s)"
    "among (\<lambda>pc. pc \<noteq> Gone) ((lp_iters s)[i := Releasing]) = among (\<lambda>pc. pc \<noteq> Gone) (lp_iters s)"
    by (simp_all add: holds_sem_def)
  moreover have "i < length (finished (lp_trace s)) + par" using launched_window [OF inv] i by simp
  moreover have "i \<notin> set (finished (lp_trace s))" using inv pc by (simp add: loop_inv_def Let_def)
  moreover have "insert i {j. j < length (lp_iters s) \<and> has_finished (lp_iters s ! j)} =
      {j. j < length (lp_iters s) \<and> has_finished ((lp_iters s)[i := Releasing] ! j)}"
    using i by (auto simp: nth_list_update has_finished_def split: if_splits)
  ultimately show ?thesis using inv by (simp add: loop_inv_def Let_def takeWhile_finish)
qed

lemma loop_inv_move:
  assumes inv: "loop_inv n par s" and i: "i < length (lp_iters s)"
    and "holds_sem pc = holds_sem (lp_iters s ! i)" and "has_finished pc = has_finished (lp_iters s ! i)"
    and "pc \<noteq> Gone" and "lp_iters s ! i \<noteq> Gone"
  shows "loop_inv n par (set_iter i pc s)"
proof -
  have "among P ((lp_iters s)[i := pc]) = among P (lp_iters s)" if "P pc = P (lp_iters s ! i)" for P
    using among_update [OF i, of P pc] that by (simp split: if_splits)
  from this [of holds_sem] this [of "\<lambda>pc. pc \<noteq> Gone"] assms(3,5,6)
  have "among holds_sem ((lp_iters s)[i := pc]) = among holds_sem (lp_iters s)"
    "among (\<lambda>pc. pc \<noteq> Gone) ((lp_iters s)[i := pc]) = among (\<lambda>pc. pc \<noteq> Gone) (lp_iters s)" by simp_all
  moreover have "{j. j < length (lp_iters s) \<and> has_finished ((lp_iters s)[i := pc] ! j)} =
      {j. j < length (lp_iters s) \<and> has_finished (lp_iters s ! j)}"
    using i assms(4) by (auto simp: nth_list_update split: if_splits)
  ultimately show ?thesis using inv by (simp add: loop_inv_def Let_def)
qed

lemma launcher_ok_dead: "launcher_ok n k dead pc \<Longrightarrow> launcher_ok n k True pc"
  by (cases pc) auto

lemma loop_inv_tx [simp]: "loop_inv n par (s\<lparr>lp_tx := tx\<rparr>) = loop_inv n par s"
  by (simp add: loop_inv_def)

lemma loop_inv_step:
  assumes step: "loop_fire env dag task items l s = Returns s'"
    and inv: "loop_inv (length items) (nat (GetLoopParallel task)) s"
  shows "loop_inv (length items) (nat (GetLoopParallel task)) s'"
  using step
proof (cases rule: loop_fire_cases)
  case (spawn i)
  have "{j. j < Suc (length (lp_iters s)) \<and> has_finished ((lp_iters s @ [Started]) ! j)} =
      {j. j < length (lp_iters s) \<and> has_finished (lp_iters s ! j)}"
    by (auto simp: nth_append less_Suc_eq has_finished_def)
  with spawn inv show ?thesis by (auto simp: loop_inv_def Let_def holds_sem_def)
next
  case (stop c)
  with inv launched_window [OF inv] show ?thesis by (simp add: loop_inv_def Let_def takeWhile_finish)
next
  case (dropped i)
  then show ?thesis using loop_inv_finish [OF inv] by (simp add: has_finished_def)
next
  case (checked i)
  then show ?thesis using loop_inv_move [OF inv] by (simp add: has_finished_def holds_sem_def)
next
  case (performed i r tx)
  then show ?thesis using loop_inv_move [of _ _ "s\<lparr>lp_tx := tx\<rparr>"] inv by (simp add: has_finished_def holds_sem_def)
next
  case (recorded i r)
  then show ?thesis using loop_inv_finish [OF inv] by (simp add: has_finished_def)
next
  case (released i)
  have "{j. j < length (lp_iters s) \<and> has_finished ((lp_iters s)[i := Leaving] ! j)} =
      {j. j < length (lp_iters s) \<and> has_finished (lp_iters s ! j)}"
    using released by (auto simp: nth_list_update has_finished_def split: if_splits)
  moreover have "lp_sem s = Suc (among holds_sem ((lp_iters s)[i := Leaving]) + taken (lp_pc s))"
    using among_update [OF released(2), of holds_sem Leaving] released(3) inv by (simp add: holds_sem_def loop_inv_def Let_def)
  moreover have "among (\<lambda>pc. pc \<noteq> Gone) ((lp_iters s)[i := Leaving]) = among (\<lambda>pc. pc \<noteq> Gone) (lp_iters s)"
    using among_update [OF released(2), of "\<lambda>pc. pc \<noteq> Gone" Leaving] released(3) by simp
  ultimately show ?thesis using released(5) inv by (simp add: loop_inv_def Let_def)
next
  case (departed i)
  have "{j. j < length (lp_iters s) \<and> has_finished ((lp_iters s)[i := Gone] ! j)} =
      {j. j < length (lp_iters s) \<and> has_finished (lp_iters s ! j)}"
    using departed by (auto simp: nth_list_update has_finished_def split: if_splits)
  moreover have "among holds_sem ((lp_iters s)[i := Gone]) = among holds_sem (lp_iters s)"
    using among_update [OF departed(2), of holds_sem Gone] departed(3) by (simp add: holds_sem_def)
  moreover have "lp_wg s = Suc (among (\<lambda>pc. pc \<noteq> Gone) ((lp_iters s)[i := Gone]))"
    using among_update [OF departed(2), of "\<lambda>pc. pc \<noteq> Gone" Gone] departed(3) inv by (simp add: loop_inv_def Let_def)
  moreover have "lp_pc s \<noteq> Ended"
    using among_pos [OF departed(2), of "\<lambda>pc. pc \<noteq> Gone"] departed(3) inv by (auto simp: loop_inv_def Let_def)
  ultimately show ?thesis using departed(5) inv by (simp add: loop_inv_def Let_def)
qed (use inv launcher_ok_dead [of _ _ False] in \<open>simp_all add: loop_inv_def Let_def\<close>)

lemma loop_inv_fires:
  assumes "loop_fires env dag task items ls s = Returns s'" and "loop_inv (length items) (nat (GetLoopParallel task)) s"
  shows "loop_inv (length items) (nat (GetLoopParallel task)) s'"
  using assms by (induction rule: loop_fires_induct) (auto intro: loop_inv_step)

lemma loop_ended_events:
  assumes inv: "loop_inv n par s" and over: "lp_pc s = Ended"
  shows "loop_events_ok n par (lp_trace s)"
proof -
  let ?its = "lp_iters s" and ?evs = "lp_trace s"
  let ?fs = "finished ?evs"
  have "among (\<lambda>pc. pc \<noteq> Gone) ?its = 0" using inv over by (simp add: loop_inv_def Let_def)
  then have "\<not> ?its ! i \<noteq> Gone" if "i < length ?its" for i
    using among_pos [OF that, of "\<lambda>pc. pc \<noteq> Gone"] by auto
  then have "{i. i < length ?its \<and> has_finished (?its ! i)} = set [0 ..< length ?its]"
    by (auto simp: has_finished_def)
  then have fs: "set ?fs = set [0 ..< length ?its]" and d: "distinct ?fs"
    using inv by (simp_all add: loop_inv_def Let_def)
  have len: "length ?fs = length ?its" using distinct_card [OF d] fs by simp
  have "sort ?fs = [0 ..< length ?fs]"
    unfolding len by (rule sorted_distinct_set_unique) (simp_all add: d fs)
  moreover have "finished ?evs = finished (takeWhile is_finish ?evs) @ finished (dropWhile is_finish ?evs)"
    by (metis finished_simps(4) takeWhile_dropWhile_id)
  then have split: "length ?fs = length (finished (takeWhile is_finish ?evs)) + length (finished (dropWhile is_finish ?evs))"
    by (metis length_append)
  have nostop: "stops evs = [] \<Longrightarrow> dropWhile is_finish evs = []" for evs
  proof (induction evs)
    case (Cons ev evs)
    then show ?case by (cases ev) auto
  qed simp
  have "length (finished (dropWhile is_finish ?evs)) \<le> par"
  proof (cases "stops ?evs = []")
    case False
    with inv len split show ?thesis by (simp add: loop_inv_def Let_def)
  qed (simp add: nostop)
  moreover have "launcher_ok n (length ?its) (lp_ctx s \<noteq> None) (lp_pc s)"
    and "length (stops ?evs) = (if (lp_pc s = Waiting \<or> lp_pc s = Ended) \<and> length ?its < n then 1 else 0)"
    and "windowed par ?fs"
    using inv by (simp_all only: loop_inv_def Let_def)
  then have "if stops ?evs = [] then length ?fs = n else length (stops ?evs) = 1 \<and> length ?fs < n" and "windowed par ?fs"
    using over len by (auto split: if_splits)
  ultimately show ?thesis by (simp add: loop_events_ok_def Let_def)
qed

text \<open>The recorded results: the first failure that is not a skip decides the error, the last
  success before it the summary.\<close>

fun event_error :: "loop_event \<Rightarrow> goerr option" where
  "event_error (Finish i (Some (v, Some e))) = (if IsSkipped e then None else Some e)"
| "event_error (Stop c) = Some c"
| "event_error _ = None"

fun event_summary :: "loop_event \<Rightarrow> goval option" where
  "event_summary (Finish i (Some (v, None))) = Some v"
| "event_summary _ = None"

definition first_failure :: "loop_event list \<Rightarrow> goerr option" where
  "first_failure evs = (case List.map_filter event_error evs of [] \<Rightarrow> None | e # _ \<Rightarrow> Some e)"

definition last_summary :: "loop_event list \<Rightarrow> goval" where
  "last_summary evs = last (VNil # List.map_filter event_summary evs)"

lemma fold_record_err:
  "snd (fold loop_record evs (v, err)) = (if err = None then first_failure evs else err)"
proof (induction evs arbitrary: v err)
  case (Cons ev evs)
  obtain v1 err1 where r: "loop_record ev (v, err) = (v1, err1)" by fastforce
  with Cons.IH [of v1 err1] show ?case
    by (cases "(ev, (v, err))" rule: loop_record.cases)
      (auto simp: first_failure_def List.map_filter_simps split: if_splits)
qed (simp add: first_failure_def List.map_filter_simps)

lemma fold_record_summary:
  "snd (fold loop_record evs (v, err)) = None \<Longrightarrow> fst (fold loop_record evs (v, err)) = last (v # List.map_filter event_summary evs)"
proof (induction evs arbitrary: v err)
  case (Cons ev evs)
  obtain v1 err1 where r: "loop_record ev (v, err) = (v1, err1)" by fastforce
  have "err = None" using Cons.prems fold_record_err [of "ev # evs" v err] by (auto split: if_splits)
  with r Cons.IH [of v1 err1] Cons.prems show ?case
    by (cases "(ev, (v, err))" rule: loop_record.cases)
      (auto simp: List.map_filter_simps split: if_splits)
qed (simp add: List.map_filter_simps)

text \<open>Where the results come from.\<close>

lemma loop_results:
  assumes "loop_fires env dag task items ls (loop_start (tx :: ('v, 's) task_state)) = Returns s"
  shows "\<forall>i r. Finish i (Some r) \<in> set (lp_trace s) \<longrightarrow> (\<exists>(t :: ('v, 's) task_state) t'. executeSingleTaskInstance env dag task [(GetLoopVar task, items ! i)] i t = Returns (r, t'))"
proof -
  let ?P = "\<lambda>i r. \<exists>(t :: ('v, 's) task_state) t'. executeSingleTaskInstance env dag task [(GetLoopVar task, items ! i)] i t = Returns (r, t')"
  from assms have "(\<forall>i r. i < length (lp_iters s) \<and> lp_iters s ! i = Recording r \<longrightarrow> ?P i r) \<and>
      (\<forall>i r. Finish i (Some r) \<in> set (lp_trace s) \<longrightarrow> ?P i r)"
  proof (induction rule: loop_fires_induct)
    case (step l t t')
    from step(2) show ?case
    proof (cases rule: loop_fire_cases)
      case (performed i r tx)
      then have "?P i r" by blast
      with performed step(3) show ?thesis by (auto simp: nth_list_update)
    qed (use step(3) in \<open>auto simp: nth_list_update nth_append less_Suc_eq split: if_splits\<close>)
  qed simp
  then show ?thesis by blast
qed

lemma loop_undisturbed:
  assumes "loop_fires env dag task items ls (loop_start tx) = Returns s" and "\<forall>c. CtxEnds c \<notin> set ls"
  shows "stops (lp_trace s) = [] \<and> (\<forall>i. Finish i None \<notin> set (lp_trace s))"
proof -
  from assms(1) have "lp_ctx s = None \<and> lp_pc s \<noteq> Stopping \<and> stops (lp_trace s) = [] \<and> (\<forall>i. Finish i None \<notin> set (lp_trace s))"
  proof (induction rule: loop_fires_induct)
    case (step l t t')
    from step(2) show ?case
      by (cases rule: loop_fire_cases) (use step(1,3) assms(2) in auto)
  qed simp
  then show ?thesis by blast
qed

lemma run_loop_verdict:
  assumes "run_loop env dag task items ls (tx :: ('v, 's) task_state) = Returns ((v, err), tx')"
  shows "\<exists>evs. loop_events_ok (length items) (nat (GetLoopParallel task)) evs \<and>
    (\<forall>i r. Finish i (Some r) \<in> set evs \<longrightarrow> (\<exists>(t :: ('v, 's) task_state) t'. executeSingleTaskInstance env dag task [(GetLoopVar task, items ! i)] i t = Returns (r, t'))) \<and>
    ((\<forall>c. CtxEnds c \<notin> set ls) \<longrightarrow> stops evs = [] \<and> (\<forall>i. Finish i None \<notin> set evs)) \<and>
    err = first_failure evs \<and> (err = None \<longrightarrow> v = last_summary evs)"
proof -
  obtain s where s: "loop_fires env dag task items ls (loop_start tx) = Returns s" "lp_pc s = Ended" "(v, err) = lp_result s"
    using assms by (rule run_loop_cases)
  have inv: "loop_inv (length items) (nat (GetLoopParallel task)) s"
    by (rule loop_inv_fires [OF s(1) loop_inv_start])
  then have r: "(v, err) = fold loop_record (lp_trace s) (VNil, None)" using s(3) by (simp add: loop_inv_def Let_def)
  show ?thesis
  proof (intro exI [of _ "lp_trace s"] conjI)
    show "loop_events_ok (length items) (nat (GetLoopParallel task)) (lp_trace s)"
      by (rule loop_ended_events [OF inv s(2)])
    show "\<forall>i r. Finish i (Some r) \<in> set (lp_trace s) \<longrightarrow> (\<exists>(t :: ('v, 's) task_state) t'. executeSingleTaskInstance env dag task [(GetLoopVar task, items ! i)] i t = Returns (r, t'))"
      by (rule loop_results [OF s(1)])
    show "(\<forall>c. CtxEnds c \<notin> set ls) \<longrightarrow> stops (lp_trace s) = [] \<and> (\<forall>i. Finish i None \<notin> set (lp_trace s))"
      using loop_undisturbed [OF s(1)] by blast
    show "err = first_failure (lp_trace s)" using fold_record_err [of "lp_trace s" VNil None] by (simp flip: r)
    show "err = None \<longrightarrow> v = last_summary (lp_trace s)"
      using fold_record_summary [of "lp_trace s" VNil None] by (simp add: last_summary_def flip: r)
  qed
qed

subsection \<open>The loop ends\<close>

fun iter_steps :: "iteration \<Rightarrow> nat" where
  "iter_steps Started = 5"
| "iter_steps Running = 4"
| "iter_steps (Recording r) = 3"
| "iter_steps Releasing = 2"
| "iter_steps Leaving = 1"
| "iter_steps Gone = 0"

fun launcher_steps :: "nat \<Rightarrow> launcher \<Rightarrow> nat" where
  "launcher_steps n (Launching i) = 7 * (n - i) + 2"
| "launcher_steps n (Spawning i) = 7 * (n - i) + 1"
| "launcher_steps n Stopping = 2"
| "launcher_steps n Waiting = 1"
| "launcher_steps n Ended = 0"

definition steps_left :: "nat \<Rightarrow> ('v, 's) loop_state \<Rightarrow> nat" where
  "steps_left n s = launcher_steps n (lp_pc s) + sum_list (map iter_steps (lp_iters s)) + (if lp_ctx s = None then 1 else 0)"

lemma iter_steps_update:
  "i < length its \<Longrightarrow> sum_list (map iter_steps (its[i := pc])) + iter_steps (its ! i) = sum_list (map iter_steps its) + iter_steps pc"
proof (induction its arbitrary: i)
  case (Cons it its)
  then show ?case by (cases i) auto
qed simp

lemma steps_left_fire:
  assumes "loop_fire env dag task items l s = Returns s'" and inv: "loop_inv (length items) (nat (GetLoopParallel task)) s"
  shows "steps_left (length items) s' < steps_left (length items) s"
  using assms(1)
proof (cases rule: loop_fire_cases)
  case (spawn i)
  then obtain k where "length items - i = Suc k" "length items - Suc i = k"
    using inv by (auto simp: loop_inv_def Let_def dest: Suc_diff_Suc [symmetric])
  with spawn show ?thesis by (simp add: steps_left_def)
next
  case (dropped i)
  with iter_steps_update [of i "lp_iters s" Releasing] show ?thesis by (simp add: steps_left_def)
next
  case (checked i)
  with iter_steps_update [of i "lp_iters s" Running] show ?thesis by (simp add: steps_left_def)
next
  case (performed i r tx)
  with iter_steps_update [of i "lp_iters s" "Recording r"] show ?thesis by (simp add: steps_left_def)
next
  case (recorded i r)
  with iter_steps_update [of i "lp_iters s" Releasing] show ?thesis by (simp add: steps_left_def)
next
  case (released i)
  with iter_steps_update [of i "lp_iters s" Leaving] show ?thesis by (simp add: steps_left_def)
next
  case (departed i)
  with iter_steps_update [of i "lp_iters s" Gone] show ?thesis by (simp add: steps_left_def)
qed (simp_all add: steps_left_def)

lemma loop_steps_bound:
  assumes "loop_fires env dag task items ls s = Returns s'" and "loop_inv (length items) (nat (GetLoopParallel task)) s"
  shows "length ls + steps_left (length items) s' \<le> steps_left (length items) s"
  using assms
proof (induction ls arbitrary: s)
  case (Cons l ls)
  then obtain t where t: "loop_fire env dag task items l s = Returns t" "loop_fires env dag task items ls t = Returns s'"
    by (auto split: outcome.splits)
  from Cons.IH [OF t(2) loop_inv_step [OF t(1) Cons.prems(2)]] steps_left_fire [OF t(1) Cons.prems(2)] show ?case by simp
qed simp

text \<open>As long as the instances return, some step other than the end of the context is possible. They
  return from the states \<open>J\<close>, which they keep; a producer's outputs, for one, are open only once.\<close>

definition instances_return ::
    "'s task_env \<Rightarrow> DAG \<Rightarrow> Task \<Rightarrow> goval list \<Rightarrow> (('v, 's) task_state \<Rightarrow> bool) \<Rightarrow> bool" where
  "instances_return env dag task items J \<longleftrightarrow>
     (\<forall>i tx. i < length items \<longrightarrow> J tx \<longrightarrow>
        (\<exists>r tx'. executeSingleTaskInstance env dag task [(GetLoopVar task, items ! i)] i tx = Returns (r, tx') \<and> J tx'))"

lemma instances_returnE:
  assumes "instances_return env dag task items J" and "i < length items" and "J tx"
  obtains r tx' where "executeSingleTaskInstance env dag task [(GetLoopVar task, items ! i)] i tx = Returns (r, tx')" "J tx'"
  using assms unfolding instances_return_def by blast

lemma launched_items:
  assumes "loop_inv n par s"
  shows "length (lp_iters s) \<le> n"
proof -
  have "launcher_ok n (length (lp_iters s)) (lp_ctx s \<noteq> None) (lp_pc s)" using assms by (simp only: loop_inv_def Let_def)
  then show ?thesis by (cases "lp_pc s") auto
qed

lemma loop_fires_keep:
  assumes run: "loop_fires env dag task items ls s = Returns s'" and ret: "instances_return env dag task items J"
    and "J (lp_tx s)" and "loop_inv (length items) (nat (GetLoopParallel task)) s"
  shows "J (lp_tx s') \<and> loop_inv (length items) (nat (GetLoopParallel task)) s'"
  using run assms(3,4)
proof (induction ls arbitrary: s)
  case (Cons l ls)
  then obtain t where t: "loop_fire env dag task items l s = Returns t" "loop_fires env dag task items ls t = Returns s'"
    by (auto split: outcome.splits)
  have "J (lp_tx t)"
    using t(1)
  proof (cases rule: loop_fire_cases)
    case (performed i r tx)
    then have "i < length items" using launched_items [OF Cons.prems(3)] by simp
    with instances_returnE [OF ret this Cons.prems(2)] performed show ?thesis by auto
  qed (use Cons.prems(2) in simp_all)
  from Cons.IH [OF t(2) this loop_inv_step [OF t(1) Cons.prems(3)]] show ?case .
qed simp

definition can_step :: "'s task_env \<Rightarrow> DAG \<Rightarrow> Task \<Rightarrow> goval list \<Rightarrow> ('v, 's) loop_state \<Rightarrow> bool" where
  "can_step env dag task items s \<longleftrightarrow> (\<exists>l s'. (\<forall>c. l \<noteq> CtxEnds c) \<and> loop_fire env dag task items l s = Returns s')"

lemma can_stepI: "loop_fire env dag task items l s = Returns s' \<Longrightarrow> (\<And>c. l \<noteq> CtxEnds c) \<Longrightarrow> can_step env dag task items s"
  by (auto simp: can_step_def)

lemma iteration_can_step:
  fixes s :: "('v, 's) loop_state"
  assumes inv: "loop_inv (length items) (nat (GetLoopParallel task)) s"
    and ret: "instances_return env dag task items J" and J: "J (lp_tx s)"
    and i: "i < length (lp_iters s)" and pc: "lp_iters s ! i \<noteq> Gone"
  shows "can_step env dag task items s"
proof (cases "lp_iters s ! i")
  case Started
  with i show ?thesis by (cases "lp_ctx s") (auto intro: can_stepI [of _ _ _ _ "Check i"])
next
  case Running
  have "i < length items" using launched_items [OF inv] i by simp
  then obtain r tx' where "executeSingleTaskInstance env dag task [(GetLoopVar task, items ! i)] i (lp_tx s) = Returns (r, tx')"
    by (rule instances_returnE [OF ret _ J])
  with Running i show ?thesis by (auto intro: can_stepI [of _ _ _ _ "Perform i"])
next
  case (Recording r)
  with i show ?thesis by (intro can_stepI [of _ _ _ _ "Record i"]) (simp_all add: at_iter_def)
next
  case Releasing
  then have "0 < lp_sem s" using among_pos [OF i, of holds_sem] inv by (auto simp: loop_inv_def Let_def holds_sem_def)
  with Releasing i show ?thesis by (auto intro: can_stepI [of _ _ _ _ "Release i"])
next
  case Leaving
  then have "0 < lp_wg s" using among_pos [OF i, of "\<lambda>pc. pc \<noteq> Gone"] inv by (auto simp: loop_inv_def Let_def)
  with Leaving i show ?thesis by (auto intro: can_stepI [of _ _ _ _ "Depart i"])
qed (use pc in simp)

lemma loop_can_step:
  fixes s :: "('v, 's) loop_state"
  assumes inv: "loop_inv (length items) (nat (GetLoopParallel task)) s"
    and ret: "instances_return env dag task items J" and J: "J (lp_tx s)" and live: "lp_pc s \<noteq> Ended"
  shows "can_step env dag task items s"
proof (cases "lp_pc s")
  case (Launching i)
  have par: "0 < nat (GetLoopParallel task)" using GetLoopParallel_pos [of task] by simp
  show ?thesis
  proof (cases "i < length items")
    case True
    show ?thesis
    proof (cases "lp_sem s < nat (GetLoopParallel task)")
      case True
      with Launching \<open>i < length items\<close> show ?thesis by (auto intro: can_stepI [of _ _ _ _ Acquire])
    next
      case False
      moreover have "lp_sem s = among holds_sem (lp_iters s)" using Launching inv by (simp add: loop_inv_def Let_def)
      ultimately have "0 < among holds_sem (lp_iters s)" using par by simp
      then obtain k where "k < length (lp_iters s)" "holds_sem (lp_iters s ! k)" using among_obtain by blast
      then show ?thesis using iteration_can_step [OF inv ret J] by (auto simp: holds_sem_def)
    qed
  qed (use Launching in \<open>auto intro: can_stepI [of _ _ _ _ Launch]\<close>)
next
  case (Spawning i)
  then show ?thesis by (auto intro: can_stepI [of _ _ _ _ Launch])
next
  case Stopping
  then have "lp_ctx s \<noteq> None" using inv by (simp add: loop_inv_def Let_def)
  with Stopping show ?thesis by (auto intro: can_stepI [of _ _ _ _ Launch])
next
  case Waiting
  show ?thesis
  proof (cases "lp_wg s")
    case (Suc w)
    then have "0 < among (\<lambda>pc. pc \<noteq> Gone) (lp_iters s)" using inv by (simp add: loop_inv_def Let_def)
    then obtain k where "k < length (lp_iters s)" "lp_iters s ! k \<noteq> Gone" using among_obtain by blast
    then show ?thesis using iteration_can_step [OF inv ret J] by blast
  qed (use Waiting in \<open>auto intro: can_stepI [of _ _ _ _ Launch]\<close>)
qed (use live in simp)

text \<open>Nothing panics but an instance.\<close>

lemma loop_fire_panics:
  assumes "loop_fire env dag task items l s = Panics" and inv: "loop_inv n par s"
  shows "\<exists>i. executeSingleTaskInstance env dag task [(GetLoopVar task, items ! i)] i (lp_tx s) = Panics \<and>
    i < length (lp_iters s) \<and> l = Perform i"
proof -
  have "0 < lp_wg s" if "i < length (lp_iters s)" "lp_iters s ! i = Leaving" for i
    using among_pos [OF that(1), of "\<lambda>pc. pc \<noteq> Gone"] that(2) inv by (auto simp: loop_inv_def Let_def)
  with assms(1) show ?thesis
    by (cases l) (auto split: launcher.splits if_splits option.splits outcome.splits iteration.splits prod.splits)
qed

lemma loop_progress:
  assumes ret: "instances_return env dag task items J" and J: "J tx"
    and run: "loop_fires env dag task items ls (loop_start tx) = Returns s"
  shows "length ls \<le> 7 * length items + 3 \<and> among holds_sem (lp_iters s) \<le> nat (GetLoopParallel task) \<and>
    (lp_pc s = Ended \<or> can_step env dag task items s)"
proof -
  have k: "J (lp_tx s) \<and> loop_inv (length items) (nat (GetLoopParallel task)) s"
    by (rule loop_fires_keep [OF run ret _ loop_inv_start]) (simp add: J)
  then have "among holds_sem (lp_iters s) \<le> nat (GetLoopParallel task)" by (simp add: loop_inv_def Let_def)
  moreover have "length ls \<le> 7 * length items + 3"
    using loop_steps_bound [OF run loop_inv_start] by (simp add: steps_left_def)
  ultimately show ?thesis using loop_can_step [OF _ ret] k by blast
qed

lemma loop_never_panics:
  assumes ret: "instances_return env dag task items J" and J: "J tx"
  shows "loop_fires env dag task items ls (loop_start tx) \<noteq> Panics"
proof (induction ls rule: rev_induct)
  case (snoc l ls)
  have "loop_fire env dag task items l s \<noteq> Panics" if run: "loop_fires env dag task items ls (loop_start tx) = Returns s" for s
  proof
    assume p: "loop_fire env dag task items l s = Panics"
    have k: "J (lp_tx s) \<and> loop_inv (length items) (nat (GetLoopParallel task)) s"
      by (rule loop_fires_keep [OF run ret _ loop_inv_start]) (simp add: J)
    then obtain i where i: "executeSingleTaskInstance env dag task [(GetLoopVar task, items ! i)] i (lp_tx s) = Panics"
      "i < length (lp_iters s)" using loop_fire_panics [OF p conjunct2 [OF k]] by blast
    have "i < length items" using launched_items [OF conjunct2 [OF k]] i(2) by simp
    with instances_returnE [OF ret this] k i(1) show False by fastforce
  qed
  with snoc show ?case by (auto simp: loop_fires_append split: outcome.splits)
qed simp

subsection \<open>The orders that occur\<close>

text \<open>Which iteration finishes, or that the launcher stops.\<close>

definition event_order :: "loop_event \<Rightarrow> nat option" where
  "event_order ev = (case ev of Finish i r \<Rightarrow> Some i | Stop c \<Rightarrow> None)"

lemma event_order_simps [simp]: "event_order (Finish i r) = Some i" "event_order (Stop c) = None"
  by (simp_all add: event_order_def)

lemma event_order_same:
  "map event_order evs = map event_order evs' \<Longrightarrow> finished evs = finished evs' \<and> length (stops evs) = length (stops evs') \<and>
     finished (dropWhile is_finish evs) = finished (dropWhile is_finish evs')"
proof (induction evs arbitrary: evs')
  case (Cons ev evs)
  then obtain ev' evs2 where e: "evs' = ev' # evs2" "event_order ev = event_order ev'" "map event_order evs = map event_order evs2"
    by (cases evs') auto
  with Cons.IH [OF e(3)] show ?case by (cases ev; cases ev') auto
qed simp

lemma loop_events_ok_order:
  assumes "map event_order evs = map event_order evs'"
  shows "loop_events_ok n par evs = loop_events_ok n par evs'"
  using event_order_same [OF assms] by (auto simp: loop_events_ok_def Let_def)

definition leads_to :: "'s task_env \<Rightarrow> DAG \<Rightarrow> Task \<Rightarrow> goval list \<Rightarrow> ('v, 's) loop_state \<Rightarrow> ('v, 's) loop_state \<Rightarrow> bool" where
  "leads_to env dag task items s s' \<longleftrightarrow> (\<exists>ls. loop_fires env dag task items ls s = Returns s')"

lemma leads_toI: "loop_fires env dag task items ls s = Returns s' \<Longrightarrow> leads_to env dag task items s s'"
  by (auto simp: leads_to_def)

lemma leads_to_refl [simp]: "leads_to env dag task items s s"
  by (rule leads_toI [of _ _ _ _ "[]"]) simp

lemma leads_to_trans:
  "leads_to env dag task items s t \<Longrightarrow> leads_to env dag task items t u \<Longrightarrow> leads_to env dag task items s u"
  unfolding leads_to_def
proof (elim exE)
  fix ls ls'
  assume "loop_fires env dag task items ls s = Returns t" "loop_fires env dag task items ls' t = Returns u"
  then show "\<exists>ls. loop_fires env dag task items ls s = Returns u"
    by (intro exI [of _ "ls @ ls'"]) (simp add: loop_fires_append)
qed

text \<open>A state between the moves of the schedules below: \<open>k\<close> iterations are launched, those in
  \<open>fs\<close> are gone and the others at work.\<close>

definition between :: "(('v, 's) task_state \<Rightarrow> bool) \<Rightarrow> launcher \<Rightarrow> nat \<Rightarrow> nat list \<Rightarrow> nat option list \<Rightarrow> ('v, 's) loop_state \<Rightarrow> bool" where
  "between J pc k fs tr s \<longleftrightarrow> J (lp_tx s) \<and> lp_pc s = pc \<and> length (lp_iters s) = k \<and> distinct fs \<and> set fs \<subseteq> {..<k} \<and>
     (\<forall>i < k. lp_iters s ! i = (if i \<in> set fs then Gone else Running)) \<and>
     lp_sem s + length fs = k \<and> lp_wg s + length fs = k \<and> map event_order (lp_trace s) = tr"

lemma between_start: "J tx \<Longrightarrow> between J (Launching 0) 0 [] [] (loop_start tx)"
  by (simp add: between_def)

lemma launch_one:
  assumes s: "between J (Launching k) k fs tr s" and ctx: "lp_ctx s = None" and k: "k < length items" "k < length fs + nat (GetLoopParallel task)"
  shows "\<exists>s'. leads_to env dag task items s s' \<and> between J (Launching (Suc k)) (Suc k) fs tr s' \<and> lp_ctx s' = None"
proof -
  let ?s = "set_iter k Running (s\<lparr>lp_pc := Launching (k + 1), lp_sem := lp_sem s + 1, lp_wg := lp_wg s + 1, lp_iters := lp_iters s @ [Started]\<rparr>)"
  have "loop_fires env dag task items [Acquire, Launch, Check k] s = Returns ?s"
    using s ctx k by (auto simp: between_def at_iter_def set_iter_def nth_append)
  moreover have "between J (Launching (Suc k)) (Suc k) fs tr ?s"
    using s by (auto simp: between_def nth_list_update nth_append)
  moreover have "lp_ctx ?s = None" using ctx by simp
  ultimately show ?thesis by (blast intro: leads_toI)
qed

lemma launch_to:
  assumes "between J (Launching k) k fs tr s" and "lp_ctx s = None" and "k \<le> m" and "m \<le> length items"
    and "k < m \<Longrightarrow> m \<le> length fs + nat (GetLoopParallel task)"
  shows "\<exists>s'. leads_to env dag task items s s' \<and> between J (Launching m) m fs tr s' \<and> lp_ctx s' = None"
  using assms(3,4,5)
proof (induction m rule: dec_induct)
  case base
  with assms show ?case by (intro exI [of _ s]) simp
next
  case (step m)
  then obtain t where t: "leads_to env dag task items s t" "between J (Launching m) m fs tr t" "lp_ctx t = None" by auto
  from launch_one [OF t(2,3), of items task env dag] step.prems step.hyps obtain s' where
    "leads_to env dag task items t s'" "between J (Launching (Suc m)) (Suc m) fs tr s'" "lp_ctx s' = None" by auto
  with t(1) show ?case using leads_to_trans by blast
qed

lemma finish_one:
  fixes s :: "('v, 's) loop_state"
  assumes s: "between J pc k fs tr s" and i: "i < k" "i \<notin> set fs" and k: "k \<le> length items"
    and ret: "instances_return env dag task items J"
  shows "\<exists>s'. leads_to env dag task items s s' \<and> between J pc k (fs @ [i]) (tr @ [Some i]) s' \<and> lp_ctx s' = lp_ctx s"
proof -
  have "i < length items" "J (lp_tx s)" using i(1) k s by (simp_all add: between_def)
  then obtain r tx where run: "executeSingleTaskInstance env dag task [(GetLoopVar task, items ! i)] i (lp_tx s) = Returns (r, tx)"
    and J: "J tx" by (rule instances_returnE [OF ret])
  let ?s1 = "note_event (Finish i (Some r)) (set_iter i Releasing (set_iter i (Recording r) (s\<lparr>lp_tx := tx\<rparr>)))"
  let ?s2 = "set_iter i Leaving (?s1\<lparr>lp_sem := lp_sem s - 1\<rparr>)"
  let ?s3 = "set_iter i Gone (?s2\<lparr>lp_wg := lp_wg s - 1\<rparr>)"
  have its: "i < length (lp_iters s)" "lp_iters s ! i = Running" using s i by (auto simp: between_def)
  have "loop_fires env dag task items [Perform i, Record i] s = Returns ?s1"
    using its run by (simp add: at_iter_def)
  moreover have "length fs < k"
  proof -
    have "length fs = card (set fs)" using s by (simp add: between_def distinct_card)
    also have "\<dots> < card {..<k}" using s i by (intro psubset_card_mono) (auto simp: between_def)
    finally show ?thesis by simp
  qed
  then have pos: "0 < lp_sem s" "0 < lp_wg s" using s by (simp_all add: between_def)
  ultimately have "loop_fires env dag task items ([Perform i, Record i] @ [Release i, Depart i]) s = Returns ?s3"
    using its unfolding loop_fires_append by (simp add: at_iter_def)
  moreover have "between J pc k (fs @ [i]) (tr @ [Some i]) ?s3"
    using s i pos its J by (auto simp: between_def nth_list_update)
  moreover have "lp_ctx ?s3 = lp_ctx s" by simp
  ultimately show ?thesis by (blast intro: leads_toI)
qed

lemma finish_all:
  fixes s :: "('v, 's) loop_state"
  assumes "between J pc k fs tr s" and "distinct (fs @ is)" and "set is \<subseteq> {..<k}" and "k \<le> length items"
    and ret: "instances_return env dag task items J"
  shows "\<exists>s'. leads_to env dag task items s s' \<and> between J pc k (fs @ is) (tr @ map Some is) s' \<and> lp_ctx s' = lp_ctx s"
  using assms(1-3)
proof (induction "is" arbitrary: s fs tr)
  case Nil
  then show ?case by (intro exI [of _ s]) simp
next
  case (Cons i "is")
  obtain t where t: "leads_to env dag task items s t" "between J pc k (fs @ [i]) (tr @ [Some i]) t" "lp_ctx t = lp_ctx s"
    using finish_one [OF Cons.prems(1) _ _ assms(4) ret, of i] Cons.prems(2,3) by auto
  from Cons.IH [OF t(2)] Cons.prems(2,3) t(3) obtain u where
    u: "leads_to env dag task items t u" "between J pc k (fs @ i # is) (tr @ map Some (i # is)) u" "lp_ctx u = lp_ctx s" by auto
  from leads_to_trans [OF t(1) u(1)] u(2,3) show ?case by blast
qed

text \<open>Launch as late as possible, finish in the given order.\<close>

lemma finish_in_order:
  fixes s :: "('v, 's) loop_state"
  assumes "between J (Launching k) k fs tr s" and "lp_ctx s = None" and "distinct (fs @ is)" and "set is \<subseteq> {..<b}"
    and "k \<le> b" and "\<forall>p < length is. is ! p < length fs + p + nat (GetLoopParallel task)" and b: "b \<le> length items"
    and ret: "instances_return env dag task items J"
  shows "\<exists>s' m. leads_to env dag task items s s' \<and> m \<le> b \<and>
    between J (Launching m) m (fs @ is) (tr @ map Some is) s' \<and> lp_ctx s' = None"
  using assms(1-6)
proof (induction "is" arbitrary: s k fs tr)
  case Nil
  then show ?case by (intro exI [of _ s] exI [of _ k]) simp
next
  case (Cons i "is")
  let ?m = "max k (Suc i)"
  have max: "i < ?m" by simp
  have i: "i < b" "i < length fs + nat (GetLoopParallel task)" using Cons.prems(4,6) by auto
  then have m: "?m \<le> b" "?m \<le> length items" using Cons.prems(5) b by auto
  obtain t where t: "leads_to env dag task items s t" "between J (Launching ?m) ?m fs tr t" "lp_ctx t = None"
    using launch_to [OF Cons.prems(1,2) _ m(2), of task env dag] i(2) by auto
  obtain u where u: "leads_to env dag task items t u" "between J (Launching ?m) ?m (fs @ [i]) (tr @ [Some i]) u" "lp_ctx u = None"
    using finish_one [OF t(2) max _ m(2) ret] Cons.prems(3) t(3) by auto
  have "\<forall>p < length is. is ! p < length (fs @ [i]) + p + nat (GetLoopParallel task)"
    using Cons.prems(6) by auto
  from Cons.IH [OF u(2,3) _ _ m(1) this] Cons.prems(3,4) obtain s' m' where
    s': "leads_to env dag task items u s'" "m' \<le> b" "between J (Launching m') m' (fs @ i # is) (tr @ map Some (i # is)) s'" "lp_ctx s' = None"
    by auto
  have "leads_to env dag task items s s'" by (rule leads_to_trans [OF t(1) leads_to_trans [OF u(1) s'(1)]])
  with s' show ?case by blast
qed

lemma windowed_nth: "windowed par is \<longleftrightarrow> (\<forall>p < length is. is ! p < p + par)"
  by (simp add: windowed_def list_all_length nth_enumerate_eq)

lemma loop_over_ends:
  assumes "between J Waiting k fs tr s" and "set fs = {..<k}"
  shows "\<exists>s'. leads_to env dag task items s s' \<and> lp_pc s' = Ended \<and> map event_order (lp_trace s') = tr"
proof -
  have "length fs = k" using assms distinct_card [of fs] by (simp add: between_def)
  then have "lp_wg s = 0" using assms by (simp add: between_def)
  then have "loop_fires env dag task items [Launch] s = Returns (s\<lparr>lp_pc := Ended\<rparr>)"
    using assms(1) by (simp add: between_def)
  then have "leads_to env dag task items s (s\<lparr>lp_pc := Ended\<rparr>)" by (rule leads_toI)
  then show ?thesis using assms(1) by (auto simp: between_def intro!: exI [of _ "s\<lparr>lp_pc := Ended\<rparr>"])
qed

lemma map_order_split:
  assumes "length (stops evs) = 1"
  obtains c where "evs = takeWhile is_finish evs @ Stop c # tl (dropWhile is_finish evs)"
    "finished evs = finished (takeWhile is_finish evs) @ finished (tl (dropWhile is_finish evs))"
    "map event_order (takeWhile is_finish evs) = map Some (finished (takeWhile is_finish evs))"
    "map event_order (tl (dropWhile is_finish evs)) = map Some (finished (tl (dropWhile is_finish evs)))"
    "finished (dropWhile is_finish evs) = finished (tl (dropWhile is_finish evs))"
proof -
  have fin: "stops evs = [] \<Longrightarrow> map event_order evs = map Some (finished evs)" for evs
  proof (induction evs)
    case (Cons ev evs)
    then show ?case by (cases ev) auto
  qed simp
  have "\<exists>c bs. dropWhile is_finish evs = Stop c # bs \<and> stops bs = [] \<and> stops (takeWhile is_finish evs) = []"
    using assms
  proof (induction evs)
    case (Cons ev evs)
    then show ?case by (cases ev) auto
  qed simp
  then obtain c bs where d: "dropWhile is_finish evs = Stop c # bs" "stops bs = []" "stops (takeWhile is_finish evs) = []"
    by blast
  have e: "evs = takeWhile is_finish evs @ Stop c # bs" using d(1) by (metis takeWhile_dropWhile_id)
  then have "finished evs = finished (takeWhile is_finish evs) @ finished bs" by (metis finished_simps(3,4))
  with e d fin that show ?thesis by simp
qed

lemma loop_order_occurs:
  assumes ok: "loop_events_ok (length items) (nat (GetLoopParallel task)) evs"
    and ret: "instances_return env dag task items J" and J: "J tx"
  shows "\<exists>s. leads_to env dag task items (loop_start tx) s \<and> lp_pc s = Ended \<and>
    map event_order (lp_trace s) = map event_order evs"
proof -
  let ?fs = "finished evs" and ?par = "nat (GetLoopParallel task)"
  let ?k = "length ?fs"
  have srt: "sort ?fs = [0 ..< ?k]" and win: "\<forall>p < ?k. ?fs ! p < p + ?par"
    using ok by (simp_all add: loop_events_ok_def Let_def windowed_nth)
  have set: "set ?fs = {..<?k}" using arg_cong [OF srt, of set] by (simp add: atLeast0LessThan)
  have dist: "distinct ?fs" using arg_cong [OF srt, of distinct] by simp
  show ?thesis
  proof (cases "stops evs = []")
    case True
    then have n: "?k = length items" using ok by (simp add: loop_events_ok_def Let_def)
    obtain s m where s: "leads_to env dag task items (loop_start tx) s" "m \<le> length items"
      "between J (Launching m) m ?fs (map Some ?fs) s" "lp_ctx s = None"
      using finish_in_order [OF between_start [of J, OF J] _ _ _ _ _ _ ret, of ?fs "length items"] dist set win n by auto
    have "m = length items"
    proof (rule antisym)
      show "length items \<le> m" using s(3) set n by (auto simp: between_def lessThan_subset_iff)
    qed (rule s(2))
    then have "loop_fires env dag task items [Launch] s = Returns (s\<lparr>lp_pc := Waiting\<rparr>)" using s(3) by (simp add: between_def)
    from leads_to_trans [OF s(1) leads_toI [OF this]] have w: "leads_to env dag task items (loop_start tx) (s\<lparr>lp_pc := Waiting\<rparr>)" .
    have "between J Waiting m ?fs (map Some ?fs) (s\<lparr>lp_pc := Waiting\<rparr>)" using s(3) by (simp add: between_def)
    from loop_over_ends [OF this, of env dag task items] set n \<open>m = length items\<close> obtain s' where
      "leads_to env dag task items (s\<lparr>lp_pc := Waiting\<rparr>) s'" "lp_pc s' = Ended" "map event_order (lp_trace s') = map Some ?fs" by auto
    moreover have "map event_order evs = map Some ?fs" using True
    proof (induction evs)
      case (Cons ev evs)
      then show ?case by (cases ev) auto
    qed simp
    ultimately show ?thesis using leads_to_trans [OF w] by auto
  next
    case False
    then have one: "length (stops evs) = 1" and k: "?k < length items" and late: "length (finished (dropWhile is_finish evs)) \<le> ?par"
      using ok by (simp_all add: loop_events_ok_def Let_def)
    obtain c where split: "evs = takeWhile is_finish evs @ Stop c # tl (dropWhile is_finish evs)"
      and fs: "?fs = finished (takeWhile is_finish evs) @ finished (tl (dropWhile is_finish evs))"
      and tr1: "map event_order (takeWhile is_finish evs) = map Some (finished (takeWhile is_finish evs))"
      and tr2: "map event_order (tl (dropWhile is_finish evs)) = map Some (finished (tl (dropWhile is_finish evs)))"
      and bs: "finished (dropWhile is_finish evs) = finished (tl (dropWhile is_finish evs))"
      using map_order_split [OF one] by metis
    define as where "as = finished (takeWhile is_finish evs)"
    define bs where "bs = finished (tl (dropWhile is_finish evs))"
    have fs: "?fs = as @ bs" using fs by (simp add: as_def bs_def)
    have len: "?k = length as + length bs" by (simp add: fs)
    have order: "map event_order evs = map Some as @ None # map Some bs"
      by (subst split) (simp add: tr1 tr2 as_def bs_def)
    have b: "length bs \<le> ?par" using late by (simp add: bs bs_def)
    have "set as \<subseteq> {..<?k}" "distinct as" using set dist by (auto simp: fs)
    moreover have "\<forall>p < length as. as ! p < p + ?par" using win unfolding fs by (metis length_append nth_append trans_less_add1)
    ultimately obtain s m where s: "leads_to env dag task items (loop_start tx) s" "m \<le> ?k"
      "between J (Launching m) m as (map Some as) s" "lp_ctx s = None"
      using finish_in_order [OF between_start [of J, OF J] _ _ _ _ _ _ ret, of as ?k] k by auto
    have "?k \<le> length as + ?par" using b len by simp
    with launch_to [OF s(3,4,2), of items task env dag] k obtain t where
      t: "leads_to env dag task items s t" "between J (Launching ?k) ?k as (map Some as) t" "lp_ctx t = None" by auto
    let ?t = "note_event (Stop c) (t\<lparr>lp_ctx := Some c, lp_pc := Waiting\<rparr>)"
    have "loop_fires env dag task items [CtxEnds c, SeeDone, Launch] t = Returns ?t"
      using t(2,3) k by (simp add: between_def note_event_def)
    then have t': "leads_to env dag task items t ?t" by (rule leads_toI)
    have "between J Waiting ?k as (map Some as @ [None]) ?t" using t(2) by (simp add: between_def)
    from finish_all [OF this _ _ _ ret, of bs] dist set k fs obtain u where
      u: "leads_to env dag task items ?t u" "between J Waiting ?k (as @ bs) ((map Some as @ [None]) @ map Some bs) u" by auto
    from loop_over_ends [OF u(2), of env dag task items] set fs obtain s' where
      s': "leads_to env dag task items u s'" "lp_pc s' = Ended" "map event_order (lp_trace s') = map event_order evs"
      by (auto simp: order)
    have "leads_to env dag task items (loop_start tx) s'"
      by (rule leads_to_trans [OF s(1) leads_to_trans [OF t(1) leads_to_trans [OF t' leads_to_trans [OF u(1) s'(1)]]]])
    with s'(2,3) show ?thesis by blast
  qed
qed

lemma loop_orders:
  assumes "instances_return env dag task items J" and "J tx"
  shows "loop_events_ok (length items) (nat (GetLoopParallel task)) evs \<longleftrightarrow>
    (\<exists>ls s. loop_fires env dag task items ls (loop_start tx) = Returns s \<and> lp_pc s = Ended \<and>
       map event_order (lp_trace s) = map event_order evs)"
proof
  assume "loop_events_ok (length items) (nat (GetLoopParallel task)) evs"
  from loop_order_occurs [OF this assms]
  show "\<exists>ls s. loop_fires env dag task items ls (loop_start tx) = Returns s \<and> lp_pc s = Ended \<and>
      map event_order (lp_trace s) = map event_order evs" by (auto simp: leads_to_def)
next
  assume "\<exists>ls s. loop_fires env dag task items ls (loop_start tx) = Returns s \<and> lp_pc s = Ended \<and>
      map event_order (lp_trace s) = map event_order evs"
  then obtain ls s where s: "loop_fires env dag task items ls (loop_start tx) = Returns s" "lp_pc s = Ended"
    "map event_order (lp_trace s) = map event_order evs" by blast
  from loop_ended_events [OF loop_inv_fires [OF s(1) loop_inv_start] s(2)] loop_events_ok_order [OF s(3)]
  show "loop_events_ok (length items) (nat (GetLoopParallel task)) evs" by simp
qed

text \<open>One at a time: the items are recorded in their order.\<close>

lemma one_at_a_time:
  assumes "loop_events_ok n 1 evs"
  shows "finished evs = [0 ..< length (finished evs)]"
proof -
  let ?fs = "finished evs"
  have le: "\<forall>p < length ?fs. ?fs ! p \<le> p" and srt: "sort ?fs = [0 ..< length ?fs]"
    using assms by (auto simp: loop_events_ok_def Let_def windowed_nth)
  have d: "distinct ?fs" using arg_cong [OF srt, of distinct] by simp
  have "?fs ! p = p" if "p < length ?fs" for p
    using that
  proof (induction p rule: less_induct)
    case (less p)
    have "?fs ! p \<noteq> q" if "q < p" for q
      using less.IH [OF that] less.prems that d by (metis less_trans nth_eq_iff_index_eq less_irrefl)
    with le less.prems show ?case by (metis le_neq_implies_less)
  qed
  then show ?thesis by (intro nth_equalityI) simp_all
qed

end
