(* ===== verification/Gxo_Task.thy ===== *)
theory Gxo_Task
  imports Gxo_Loop
begin

text \<open>
  The execution of one task (\<open>ExecuteTask\<close> of \<open>internal/engine/task_runner.go\<close>): the condition,
  the loop or the single instance, the registration of the summary. The labels \<open>ls\<close> are the
  schedule of the loop; a task without a loop leaves them alone.
\<close>

subsection \<open>The task\<close>

definition effective_timeout :: "duration \<Rightarrow> Task \<Rightarrow> duration" where
  "effective_timeout defaultTimeout task = (if GetTimeout task > 0 then GetTimeout task else defaultTimeout)"

definition register_result ::
    "'s task_env \<Rightarrow> Task \<Rightarrow> goval \<times> goerr option \<Rightarrow> ('v, 's) task_state \<Rightarrow> (goval \<times> goerr option) \<times> ('v, 's) task_state" where
  "register_result env task r tx =
     (case r of (summary, err) \<Rightarrow>
        if err = None \<and> tk_Register task \<noteq> [] then
          (let redactedSummary = fst (RedactTrackedSecrets summary (Some (te_tracker env (tx_user tx))))
           in ((redactedSummary, None), tx\<lparr>tx_store := store_Set (tk_Register task) redactedSummary (tx_store tx)\<rparr>))
        else ((summary, err), tx))"

text \<open>The condition: an error skips the task, and so does a false text.\<close>

definition check_when :: "'s task_env \<Rightarrow> Task \<Rightarrow> ('v, 's) task_state \<Rightarrow> goerr option \<times> ('v, 's) task_state" where
  "check_when env task tx =
     (if tk_When task = [] then (None, tx)
      else case te_render env (tk_When task) (all_state env tx) (tx_user tx) of
        (Inl err, u) \<Rightarrow>
          (Some (SkippedError (sq @ ''when'' @ sq @ '' condition error: '' @
              Error (RedactSecretsInError (te_keywordRng env) (te_keywords env) err))), tx\<lparr>tx_user := u\<rparr>)
      | (Inr conditionResult, u) \<Rightarrow>
          (if evaluateConditionString (te_parseFloat env) conditionResult then (None, tx\<lparr>tx_user := u\<rparr>)
           else (Some (SkippedError (sq @ ''when'' @ sq @ '' condition false'')), tx\<lparr>tx_user := u\<rparr>)))"

definition task_body ::
    "'s task_env \<Rightarrow> DAG \<Rightarrow> Task \<Rightarrow> loop_label list \<Rightarrow> ('v, 's) task_state \<Rightarrow>
     ((goval \<times> goerr option) \<times> ('v, 's) task_state) outcome" where
  "task_body env dag task ls tx =
     (case check_when env task tx of
        (Some skip, tx1) \<Rightarrow> Returns ((VNil, Some skip), tx1)
      | (None, tx1) \<Rightarrow>
         (case resolveLoopItems env (tk_Loop task) (all_state env tx1) (tx_user tx1) of
            (Inl loopErr, u) \<Rightarrow>
              Returns ((VNil, Some (WrapError (''failed to resolve loop items for task '' @ sq @ tk_InternalID task @
                  sq @ '': '') loopErr [])), tx1\<lparr>tx_user := u\<rparr>)
          | (Inr items, u) \<Rightarrow>
              if tk_Loop task \<noteq> VNil \<and> items = [] then Returns ((VNil, None), tx1\<lparr>tx_user := u\<rparr>)
              else (case (if items \<noteq> [] then run_loop env dag task items ls (tx1\<lparr>tx_user := u\<rparr>)
                          else executeSingleTaskInstance env dag task [] 0 (tx1\<lparr>tx_user := u\<rparr>)) of
                  Returns (r, tx2) \<Rightarrow> Returns (register_result env task r tx2)
                | Blocks \<Rightarrow> Blocks
                | Panics \<Rightarrow> Panics)))"

text \<open>The deferred \<open>Done\<close> on the wait group of each producer; a negative counter panics.\<close>

fun wg_done_all :: "string list \<Rightarrow> nat gomap \<Rightarrow> nat gomap option" where
  "wg_done_all [] wgs = Some wgs"
| "wg_done_all (p # ps) wgs =
     (case map_of wgs p of
        Some (Suc n) \<Rightarrow> wg_done_all ps (AList.update p n wgs)
      | _ \<Rightarrow> None)"

definition ExecuteTask ::
    "'s task_env \<Rightarrow> DAG \<Rightarrow> Task \<Rightarrow> loop_label list \<Rightarrow> ('v, 's) task_state \<Rightarrow>
     ((goval \<times> goerr option) \<times> ('v, 's) task_state) outcome" where
  "ExecuteTask env dag task ls tx =
     (case task_body env dag task ls tx of
        Returns (r, tx1) \<Rightarrow>
          (case GetConsumerProducerWaitGroups (tk_InternalID task) (tx_cm tx1) of
             None \<Rightarrow> Returns (r, tx1)
           | Some producers \<Rightarrow>
               (case wg_done_all producers (cm_producerWaitGroups (tx_cm tx1)) of
                  None \<Rightarrow> Panics
                | Some wgs \<Rightarrow> Returns (r, tx1\<lparr>tx_cm := (tx_cm tx1)\<lparr>cm_producerWaitGroups := wgs\<rparr>\<rparr>)))
      | Blocks \<Rightarrow> Blocks
      | Panics \<Rightarrow> Panics)"


subsection \<open>What a task changes\<close>

lemma check_when_keeps: "check_when env task tx = (r, tx') \<Longrightarrow> keeps tx tx' \<and> tx_cm tx' = tx_cm tx"
  by (auto simp: check_when_def split: prod.splits sum.splits if_splits)

text \<open>A task whose condition skips it closes no channel: the deferred close is its instance's.\<close>

lemma skipped_closes_nothing:
  assumes "check_when env task tx = (Some skip, tx1)" and "ExecuteTask env dag task ls tx = Returns ((v, err), tx')"
  shows "err = Some skip \<and>
    (tx_cm tx')\<lparr>cm_producerWaitGroups := cm_producerWaitGroups (tx_cm tx)\<rparr> = tx_cm tx"
  using assms check_when_keeps [OF assms(1)] by (auto simp: ExecuteTask_def task_body_def split: option.splits)

lemma run_loop_keeps: "run_loop env dag task items ls tx = Returns (r, tx') \<Longrightarrow> keeps tx tx'"
  by (rule loop_keeps [where R = keeps]) (auto dest: executeSingle_keeps intro: keeps_trans)

text \<open>A task writes at most its register key, and only when it returns no error; what it writes
  holds no string with a tracked secret but the marker.\<close>

lemma register_result_store:
  assumes "register_result env task r tx = ((v, err), tx')"
  shows "tx_user tx' = tx_user tx \<and> tx_aggregated tx' = tx_aggregated tx \<and> tx_cm tx' = tx_cm tx \<and>
    (tx_store tx' = tx_store tx \<or> err = None \<and> tk_Register task \<noteq> [] \<and>
      tx_store tx' = store_Set (tk_Register task) v (tx_store tx) \<and>
      (\<forall>s \<in> strings_in v. s = RedactedSecretValue \<or> \<not> ContainsTrackedSecret (te_tracker env (tx_user tx)) s))"
proof (cases "snd r = None \<and> tk_Register task \<noteq> []")
  case True
  obtain summary where r: "r = (summary, None)" using True by (cases r) auto
  with assms True have v: "v = fst (RedactTrackedSecrets summary (Some (te_tracker env (tx_user tx))))" and "err = None"
    and tx': "tx' = tx\<lparr>tx_store := store_Set (tk_Register task) v (tx_store tx)\<rparr>"
    by (auto simp: register_result_def Let_def)
  have "s = RedactedSecretValue \<or> \<not> ContainsTrackedSecret (te_tracker env (tx_user tx)) s" if "s \<in> strings_in v" for s
    using that redactRecursive_strings [of "te_tracker env (tx_user tx)" summary]
    by (auto simp: v RedactTrackedSecrets_def split: if_splits)
  then show ?thesis using True by (simp add: tx' \<open>err = None\<close>)
next
  case False
  with assms show ?thesis by (cases r) (auto simp: register_result_def)
qed

lemma task_body_store:
  assumes "task_body env dag task ls tx = Returns ((v, err), tx')"
  shows "(length (tx_aggregated tx) \<le> err_capacity \<longrightarrow> length (tx_aggregated tx') \<le> err_capacity) \<and>
    (tx_store tx' = tx_store tx \<or> err = None \<and> tk_Register task \<noteq> [] \<and>
      tx_store tx' = store_Set (tk_Register task) v (tx_store tx) \<and>
      (\<forall>s \<in> strings_in v. s = RedactedSecretValue \<or> \<not> ContainsTrackedSecret (te_tracker env (tx_user tx')) s))"
proof -
  obtain skip tx1 where w: "check_when env task tx = (skip, tx1)" by fastforce
  have k1: "keeps tx tx1" using check_when_keeps [OF w] by simp
  obtain res u where l: "resolveLoopItems env (tk_Loop task) (all_state env tx1) (tx_user tx1) = (res, u)" by fastforce
  consider (kept) "keeps tx tx'"
    | (ran) r tx2 where "keeps tx tx2" "register_result env task r tx2 = ((v, err), tx')"
  proof (cases "skip = None \<and> (\<exists>items. res = Inr items \<and> \<not> (tk_Loop task \<noteq> VNil \<and> items = []))")
    case True
    then obtain items where i: "skip = None" "res = Inr items" "\<not> (tk_Loop task \<noteq> VNil \<and> items = [])" by blast
    with assms w l obtain r tx2 where run:
      "(if items \<noteq> [] then run_loop env dag task items ls (tx1\<lparr>tx_user := u\<rparr>)
        else executeSingleTaskInstance env dag task [] 0 (tx1\<lparr>tx_user := u\<rparr>)) = Returns (r, tx2)"
      and reg: "register_result env task r tx2 = ((v, err), tx')"
      by (auto simp: task_body_def split: outcome.splits)
    have "keeps (tx1\<lparr>tx_user := u\<rparr>) tx2"
      using run run_loop_keeps executeSingle_keeps by (metis (no_types))
    then have "keeps tx tx2" using k1 by (auto intro: keeps_trans)
    from this reg show ?thesis by (rule ran)
  next
    case False
    have "keeps tx (tx1\<lparr>tx_user := u\<rparr>)" by (rule keeps_trans [OF k1 keeps_user])
    with False assms w l k1 kept show ?thesis
      by (auto simp: task_body_def split: option.splits sum.splits if_splits)
  qed
  then show ?thesis
  proof cases
    case kept
    then show ?thesis by (simp add: keeps_def)
  next
    case (ran r tx2)
    with register_result_store [OF ran(2)] show ?thesis by (auto simp: keeps_def)
  qed
qed

lemma ExecuteTask_cases:
  assumes "ExecuteTask env dag task ls tx = Returns (r, tx')"
  obtains tx1 cm where "task_body env dag task ls tx = Returns (r, tx1)" "tx' = tx1\<lparr>tx_cm := cm\<rparr>"
  using assms unfolding ExecuteTask_def
  by (auto split: outcome.splits option.splits) (metis task_state.surjective task_state.update_convs(1))+

end
