(* ===== verification/Gxo_Engine.thy ===== *)
theory Gxo_Engine
  imports Gxo_Channels Gxo_State Gxo_Redact
begin

text \<open>
  The run of a playbook (\<open>internal/engine/engine.go\<close>): the scheduling loop of \<open>RunPlaybook\<close>, the
  worker pool, completion handling and the signalling of dependents, as steps of one state. A
  step is one access to a shared variable or channel, or one section under a lock, by one
  goroutine; a label says which goroutine moves and what the runtime or the environment chose.
  \<open>fire\<close> computes the state after a step, if the step is possible.
\<close>

subsection \<open>Program counters\<close>

text \<open>
  Signalling walks the dependents of a task: a counter is decremented (\<open>Dec\<close>); if it became 0
  the readiness of the dependent is read (\<open>Chk\<close>); if it is ready its id is sent on the ready
  channel (\<open>Snd\<close>). The two loads of \<open>isTaskReady\<close> are one step, since a counter that is 0
  stays 0.
\<close>

datatype act = Dec string | Chk string | Snd string

text \<open>Where \<open>handleTaskCompletion\<close> stands.\<close>

datatype hstage =
    HBegin TaskStatus "goerr option" bool     \<comment> \<open>called with status, error and the synthetic flag\<close>
  | HWrite TaskStatus "goerr option" "TaskStatus option"  \<comment> \<open>recorded under the lock; the old status\<close>
  | HSignal "act list" TaskStatus "goerr option"
  | HFatal TaskStatus "goerr option"

text \<open>What a goroutine that works on a task is doing.\<close>

datatype stage =
    Sig "act list"   \<comment> \<open>scheduler: \<open>signalStreamDependents\<close>\<close>
  | Disp             \<comment> \<open>scheduler: the select that sends to the work queue\<close>
  | Queued           \<comment> \<open>in the work queue\<close>
  | Got              \<comment> \<open>worker: received, before \<open>activeWorkers.Add(1)\<close>\<close>
  | Active           \<comment> \<open>worker: before the context check\<close>
  | Run              \<comment> \<open>worker: in \<open>ExecuteTask\<close>\<close>
  | Hand hstage      \<comment> \<open>in \<open>handleTaskCompletion\<close>\<close>
  | Left             \<comment> \<open>worker: before \<open>runningTasksWg.Done()\<close>\<close>

datatype spc =
    SLoop
  | STick1 int            \<comment> \<open>tick: terminal tasks counted\<close>
  | STick2 int int        \<comment> \<open>and active workers read\<close>
  | STick3 int int nat    \<comment> \<open>and runnable tasks counted\<close>
  | SBusy string stage
  | SWait
  | SDecide
  | SJoin "goerr option"  \<comment> \<open>outcome decided, work queue closed, waiting for the workers\<close>
  | SDone "goerr option"

datatype wpc = WIdle | WBusy string stage | WLeaving | WStop

subsection \<open>Configuration and state\<close>

datatype event =
    EvTaskStart string
  | EvTaskEnd string TaskStatus "goerr option"
  | EvStatusChanged string "TaskStatus option" TaskStatus

text \<open>
  What a run does not change: the graph (its nodes' counters aside), the iteration orders, the
  number of workers, the stall tolerance and the redacted keywords.
\<close>

record run_cfg =
  rc_dag :: DAG
  rc_rng :: "string ranger"
  rc_pool :: nat
  rc_tolerance :: int
  rc_keywords :: "string list"

text \<open>
  The engine's run-time state and the local variables of \<open>RunPlaybook\<close>. The maps of statuses
  and errors are partial functions, the counters of the nodes functions. Channels are queues;
  \<open>en_fatal\<close> is the channel of capacity 1, \<open>en_ctxErr\<close> the error of the run's context.
\<close>

record engine =
  en_statuses :: "string \<Rightarrow> TaskStatus option"
  en_errors :: "string \<Rightarrow> goerr option"
  en_stream :: "string \<Rightarrow> int"
  en_state :: "string \<Rightarrow> int"
  en_store :: MemoryStateStore
  en_events :: "event list"
  en_completed :: int
  en_active :: int
  en_ready :: "string list"
  en_queue :: "string list"
  en_fatal :: "goerr option"
  en_ctxErr :: "goerr option"
  en_running :: int
  en_dispatched :: "string \<Rightarrow> bool"
  en_accounted :: int
  en_lastAccounted :: int
  en_stallChecks :: int
  en_firstFatal :: "goerr option"
  en_sched :: spc
  en_workers :: "wpc list"

definition total_tasks :: "run_cfg \<Rightarrow> nat" where
  "total_tasks cfg = length (rc_dag cfg)"

definition ready_cap :: "run_cfg \<Rightarrow> nat" where
  "ready_cap cfg = total_tasks cfg + rc_pool cfg"

definition queue_cap :: "run_cfg \<Rightarrow> nat" where
  "queue_cap cfg = rc_pool cfg * 2"

fun status_text :: "TaskStatus \<Rightarrow> string" where
  "status_text StatusPending = ''Pending''"
| "status_text StatusReady = ''Ready''"
| "status_text StatusRunning = ''Running''"
| "status_text StatusCompleted = ''Completed''"
| "status_text StatusFailed = ''Failed''"
| "status_text StatusSkipped = ''Skipped''"

definition is_terminal :: "TaskStatus \<Rightarrow> bool" where
  "is_terminal st \<longleftrightarrow> st = StatusCompleted \<or> st = StatusFailed \<or> st = StatusSkipped"

definition is_ok :: "TaskStatus \<Rightarrow> bool" where
  "is_ok st \<longleftrightarrow> st = StatusCompleted \<or> st = StatusSkipped"

definition status_is :: "(TaskStatus \<Rightarrow> bool) \<Rightarrow> engine \<Rightarrow> string \<Rightarrow> bool" where
  "status_is P e x \<longleftrightarrow> (case en_statuses e x of None \<Rightarrow> False | Some st \<Rightarrow> P st)"

definition status_key :: "DAG \<Rightarrow> string \<Rightarrow> string" where
  "status_key dag taskID =
     GxoStateKeyPrefix @ ''.tasks.'' @
     (case map_of dag taskID of
        Some node \<Rightarrow> if tk_Name (nd_Task node) \<noteq> [] then tk_Name (nd_Task node) else taskID
      | None \<Rightarrow> taskID) @ ''.status''"

definition writeTaskStatus :: "run_cfg \<Rightarrow> string \<Rightarrow> TaskStatus \<Rightarrow> engine \<Rightarrow> engine" where
  "writeTaskStatus cfg taskID status e =
     e\<lparr>en_store := store_Set (status_key (rc_dag cfg) taskID) (VStr (status_text status)) (en_store e)\<rparr>"

subsection \<open>Signalling\<close>

definition isTaskReady :: "engine \<Rightarrow> string \<Rightarrow> bool" where
  "isTaskReady e x \<longleftrightarrow> en_stream e x = 0 \<and> en_state e x = 0"

text \<open>The dependents a signal visits, in the order of the range over \<open>RequiredBy\<close>.\<close>

definition stream_signals :: "run_cfg \<Rightarrow> string \<Rightarrow> act list" where
  "stream_signals cfg x =
     map Dec (filter (\<lambda>d. x \<in> set (StreamDependsOn (rc_dag cfg) d)) (rc_rng cfg 7 (RequiredBy (rc_dag cfg) x)))"

definition state_signals :: "run_cfg \<Rightarrow> string \<Rightarrow> act list" where
  "state_signals cfg x =
     map Dec (filter (\<lambda>d. x \<in> set (StateDependsOn (rc_dag cfg) d)) (rc_rng cfg 8 (RequiredBy (rc_dag cfg) x)))"

definition dec_stream :: "string \<Rightarrow> engine \<Rightarrow> engine" where
  "dec_stream d e = e\<lparr>en_stream := (en_stream e)(d := en_stream e d - 1)\<rparr>"

definition dec_state :: "string \<Rightarrow> engine \<Rightarrow> engine" where
  "dec_state d e = e\<lparr>en_state := (en_state e)(d := en_state e d - 1)\<rparr>"

text \<open>One action; a send blocks while the ready channel is full. The flag tells stream from state.\<close>

fun do_act :: "run_cfg \<Rightarrow> bool \<Rightarrow> act \<Rightarrow> engine \<Rightarrow> (act list \<times> engine) option" where
  "do_act cfg True (Dec d) e =
     Some (if en_stream (dec_stream d e) d = 0 then [Chk d] else [], dec_stream d e)"
| "do_act cfg False (Dec d) e =
     Some (if en_state (dec_state d e) d = 0 then [Chk d] else [], dec_state d e)"
| "do_act cfg k (Chk d) e = Some (if isTaskReady e d then [Snd d] else [], e)"
| "do_act cfg k (Snd d) e =
     (if length (en_ready e) < ready_cap cfg then Some ([], e\<lparr>en_ready := en_ready e @ [d]\<rparr>) else None)"

subsection \<open>Completion handling\<close>

definition record_status :: "run_cfg \<Rightarrow> string \<Rightarrow> TaskStatus \<Rightarrow> goerr option \<Rightarrow> engine \<Rightarrow> engine" where
  "record_status cfg x st err e =
     e\<lparr>en_statuses := (en_statuses e)(x \<mapsto> st),
       en_errors := (en_errors e)(x := map_option (RedactSecretsInError (rc_rng cfg) (rc_keywords cfg)) err)\<rparr>"

definition announce_status :: "run_cfg \<Rightarrow> string \<Rightarrow> TaskStatus \<Rightarrow> TaskStatus option \<Rightarrow> engine \<Rightarrow> engine" where
  "announce_status cfg x st old e =
     (let e1 = writeTaskStatus cfg x st (e\<lparr>en_events := en_events e @ [EvStatusChanged x old st]\<rparr>)
      in if old = Some StatusRunning \<or> old = Some StatusPending then e1\<lparr>en_completed := en_completed e1 + 1\<rparr> else e1)"

text \<open>Whether a failure halts the playbook, and the non-blocking send of it.\<close>

definition halts :: "run_cfg \<Rightarrow> string \<Rightarrow> TaskStatus \<Rightarrow> goerr option \<Rightarrow> bool" where
  "halts cfg x st err \<longleftrightarrow> st = StatusFailed \<and>
     (case map_of (rc_dag cfg) x of None \<Rightarrow> False | Some node \<Rightarrow> \<not> tk_IgnoreErrors (nd_Task node)) \<and>
     (case err of None \<Rightarrow> False
      | Some er \<Rightarrow> \<not> errors_Is er Canceled \<and> \<not> errors_Is er DeadlineExceeded \<and> \<not> IsSkipped er)"

definition send_fatal :: "goerr option \<Rightarrow> engine \<Rightarrow> engine" where
  "send_fatal err e = (if en_fatal e = None then e\<lparr>en_fatal := err\<rparr> else e)"

text \<open>One step of \<open>handleTaskCompletion\<close> for a task; no stage is left when it returns.\<close>

fun handle_step :: "run_cfg \<Rightarrow> string \<Rightarrow> hstage \<Rightarrow> engine \<Rightarrow> (hstage option \<times> engine) option" where
  "handle_step cfg x (HBegin st err synthetic) e =
     (if \<not> synthetic \<and> status_is is_terminal e x then Some (None, e)
      else Some (Some (HWrite st err (en_statuses e x)), record_status cfg x st err e))"
| "handle_step cfg x (HWrite st err old) e =
     Some (if map_of (rc_dag cfg) x = None then None
           else if is_ok st then Some (HSignal (state_signals cfg x) st err)
           else Some (HFatal st err),
           announce_status cfg x st old e)"
| "handle_step cfg x (HSignal [] st err) e = Some (Some (HFatal st err), e)"
| "handle_step cfg x (HSignal (a # as) st err) e =
     map_option (\<lambda>(new, e'). (Some (HSignal (new @ as) st err), e')) (do_act cfg False a e)"
| "handle_step cfg x (HFatal st err) e =
     Some (None, if halts cfg x st err then send_fatal err e else e)"

subsection \<open>Outcome\<close>

definition stalled_error :: goerr where
  "stalled_error = PlainError ''playbook execution stalled''"

definition pending_error :: goerr where
  "pending_error =
     ConfigError ''playbook finished with unexpected pending tasks (potential deadlock or internal error)'' None"

definition failed_error :: goerr where
  "failed_error = ConfigError ''playbook finished with one or more failed tasks'' None"

text \<open>
  \<open>determineFinalOutcome\<close>. The keys of the status map are the tasks of the graph, so the
  branches for a status without a node or without a graph do not occur.
\<close>

definition determineFinalOutcome :: "run_cfg \<Rightarrow> engine \<Rightarrow> goerr option" where
  "determineFinalOutcome cfg e =
     (case en_firstFatal e of
        Some err \<Rightarrow>
          Some (if errors_Is err Canceled \<or> errors_Is err DeadlineExceeded then err
                else if Error err = ''playbook execution stalled'' then err
                else ConfigError ''playbook finished due to fatal error''
                       (Some (RedactSecretsInError (rc_rng cfg) (rc_keywords cfg) err)))
      | None \<Rightarrow>
          if \<exists>x \<in> set (keys (rc_dag cfg)). en_statuses e x = Some StatusPending \<and> \<not> en_state e x > 0
          then Some pending_error
          else if \<exists>x \<in> set (keys (rc_dag cfg)). en_statuses e x = Some StatusFailed then Some failed_error
          else None)"

subsection \<open>The worker\<close>

definition final_status :: "goerr option \<Rightarrow> TaskStatus" where
  "final_status r = (case r of None \<Rightarrow> StatusCompleted
     | Some er \<Rightarrow> if IsSkipped er then StatusSkipped else StatusFailed)"

fun worker_step :: "run_cfg \<Rightarrow> string \<Rightarrow> stage \<Rightarrow> engine \<Rightarrow> (stage option \<times> engine) option" where
  "worker_step cfg x Got e = Some (Some Active, e\<lparr>en_active := en_active e + 1\<rparr>)"
| "worker_step cfg x Active e =
     Some (case map_of (rc_dag cfg) x of
        None \<Rightarrow> (Some (Hand (HBegin StatusFailed
                    (Some (PlainError (''task '' @ x @ '' definition not found in DAG''))) True)), e)
      | Some node \<Rightarrow>
          (case en_ctxErr e of
             Some c \<Rightarrow> (Some (Hand (HBegin StatusFailed (Some c) False)), e)
           | None \<Rightarrow> (Some Run, e\<lparr>en_events := en_events e @ [EvTaskStart x]\<rparr>)))"
| "worker_step cfg x (Hand h) e =
     map_option (\<lambda>(h', e'). (Some (case h' of None \<Rightarrow> Left | Some h'' \<Rightarrow> Hand h''), e')) (handle_step cfg x h e)"
| "worker_step cfg x Left e = Some (None, e\<lparr>en_running := en_running e - 1\<rparr>)"
| "worker_step cfg x _ e = None"

text \<open>
  The end of \<open>ExecuteTask\<close> with error \<open>r\<close>: a result \<open>v\<close> is registered only without an error
  (\<open>Set\<close> of the memory store does not fail), and not at all by a loop over no items (\<open>None\<close>);
  \<open>TaskEnd\<close> carries the error as it is.
\<close>

definition task_result :: "run_cfg \<Rightarrow> string \<Rightarrow> goerr option \<Rightarrow> goval option \<Rightarrow> engine \<Rightarrow> stage \<times> engine" where
  "task_result cfg x r v e =
     (let reg = (case map_of (rc_dag cfg) x of None \<Rightarrow> [] | Some node \<Rightarrow> tk_Register (nd_Task node));
          s = (case v of Some w \<Rightarrow> if r = None \<and> reg \<noteq> [] then store_Set reg w (en_store e) else en_store e
                 | None \<Rightarrow> en_store e)
      in (Hand (HBegin (final_status r) r False),
          e\<lparr>en_store := s, en_events := en_events e @ [EvTaskEnd x (final_status r) r]\<rparr>))"

subsection \<open>The scheduling loop\<close>

definition countTerminalTasks :: "run_cfg \<Rightarrow> engine \<Rightarrow> int" where
  "countTerminalTasks cfg e = int (length (filter (status_is is_terminal e) (keys (rc_dag cfg))))"

definition countRunnablePendingTasks :: "run_cfg \<Rightarrow> engine \<Rightarrow> nat" where
  "countRunnablePendingTasks cfg e =
     length (filter (\<lambda>x. en_statuses e x = Some StatusPending \<and> isTaskReady e x) (keys (rc_dag cfg)))"

definition hasPendingTasks :: "run_cfg \<Rightarrow> engine \<Rightarrow> bool" where
  "hasPendingTasks cfg e = list_ex (\<lambda>x. en_statuses e x = Some StatusPending) (keys (rc_dag cfg))"

definition cancelRun :: "engine \<Rightarrow> engine" where
  "cancelRun e = (if en_ctxErr e = None then e\<lparr>en_ctxErr := Some Canceled\<rparr> else e)"

definition note_fatal :: "goerr \<Rightarrow> engine \<Rightarrow> engine" where
  "note_fatal err e = (if en_firstFatal e = None then e\<lparr>en_firstFatal := Some err\<rparr> else e)"

text \<open>A task id received from the ready channel.\<close>

definition dispatch :: "run_cfg \<Rightarrow> string \<Rightarrow> engine \<Rightarrow> engine" where
  "dispatch cfg x e =
     (if en_dispatched e x then e
      else if en_statuses e x \<noteq> Some StatusPending then e
      else writeTaskStatus cfg x StatusRunning
             (e\<lparr>en_dispatched := (en_dispatched e)(x := True),
                en_statuses := (en_statuses e)(x \<mapsto> StatusRunning),
                en_sched := SBusy x (Sig (stream_signals cfg x))\<rparr>))"

text \<open>The decision of a tick, after its reads.\<close>

definition tick_decision :: "run_cfg \<Rightarrow> int \<Rightarrow> int \<Rightarrow> nat \<Rightarrow> engine \<Rightarrow> engine" where
  "tick_decision cfg n active runnable e =
     (let stable = active = 0 \<and> runnable = 0 \<and> hasPendingTasks cfg e in
      if stable then e\<lparr>en_sched := SWait\<rparr>
      else if n = en_lastAccounted e then
        (if en_stallChecks e + 1 \<ge> rc_tolerance cfg
         then cancelRun (note_fatal stalled_error (e\<lparr>en_stallChecks := en_stallChecks e + 1, en_sched := SWait\<rparr>))
         else e\<lparr>en_stallChecks := en_stallChecks e + 1, en_lastAccounted := n, en_sched := SLoop\<rparr>)
      else e\<lparr>en_stallChecks := 0, en_lastAccounted := n, en_sched := SLoop\<rparr>)"

fun sched_step :: "run_cfg \<Rightarrow> spc \<Rightarrow> engine \<Rightarrow> engine option" where
  "sched_step cfg SLoop e =
     (if en_accounted e < int (total_tasks cfg) then None else Some (e\<lparr>en_sched := SWait\<rparr>))"
| "sched_step cfg (STick1 n) e =
     Some (if n \<ge> int (total_tasks cfg) then e\<lparr>en_sched := SLoop\<rparr> else e\<lparr>en_sched := STick2 n (en_active e)\<rparr>)"
| "sched_step cfg (STick2 n a) e = Some (e\<lparr>en_sched := STick3 n a (countRunnablePendingTasks cfg e)\<rparr>)"
| "sched_step cfg (STick3 n a r) e = Some (tick_decision cfg n a r e)"
| "sched_step cfg (SBusy x (Sig [])) e = Some (e\<lparr>en_running := en_running e + 1, en_sched := SBusy x Disp\<rparr>)"
| "sched_step cfg (SBusy x (Sig (a # as))) e =
     map_option (\<lambda>(new, e'). e'\<lparr>en_sched := SBusy x (Sig (new @ as))\<rparr>) (do_act cfg True a e)"
| "sched_step cfg (SBusy x (Hand h)) e =
     map_option (\<lambda>(h', e'). e'\<lparr>en_sched := (case h' of None \<Rightarrow> SLoop | Some h'' \<Rightarrow> SBusy x (Hand h''))\<rparr>)
       (handle_step cfg x h e)"
| "sched_step cfg SDecide e = Some (e\<lparr>en_sched := SJoin (determineFinalOutcome cfg e)\<rparr>)"
| "sched_step cfg (SJoin r) e =
     (if list_all (\<lambda>w. w = WStop) (en_workers e) then Some (e\<lparr>en_sched := SDone r\<rparr>) else None)"
| "sched_step cfg _ e = None"

subsection \<open>Steps\<close>

text \<open>
  The labels: what the scheduler's selects receive (a ready id, a fatal error, the context, a
  tick; a free place in the work queue or the context; the end of the wait), its other steps,
  and the steps of worker \<open>i\<close>. \<open>WResult\<close> gives the outcome of the module; \<open>LCancel\<close> is the
  caller's context ending.
\<close>

datatype label =
    LReady | LFatal | LCtx | LTick | LEnqueue | LGiveUp | LWaitDone | LWaitTimeout | LWaitCtx | LStep
  | LCancel goerr
  | WTake nat | WQuit nat | WStep nat | WLeave nat | WResult nat "goerr option" "goval option"

definition looping :: "run_cfg \<Rightarrow> engine \<Rightarrow> bool" where
  "looping cfg e \<longleftrightarrow> en_sched e = SLoop \<and> en_accounted e < int (total_tasks cfg)"

definition queue_closed :: "engine \<Rightarrow> bool" where
  "queue_closed e = (case en_sched e of SJoin r \<Rightarrow> True | SDone r \<Rightarrow> True | _ \<Rightarrow> False)"

definition set_worker :: "nat \<Rightarrow> wpc \<Rightarrow> engine \<Rightarrow> engine" where
  "set_worker i w e = e\<lparr>en_workers := (en_workers e)[i := w]\<rparr>"

definition wait_error :: "goerr \<Rightarrow> goerr" where
  "wait_error c = WrapError ''cancelled while waiting for running tasks WaitGroup: '' c []"

fun fire_sched :: "run_cfg \<Rightarrow> label \<Rightarrow> engine \<Rightarrow> engine option" where
  "fire_sched cfg LReady e =
     (case (looping cfg e, en_ready e) of
        (True, x # xs) \<Rightarrow> Some (dispatch cfg x (e\<lparr>en_ready := xs, en_stallChecks := 0\<rparr>))
      | _ \<Rightarrow> None)"
| "fire_sched cfg LFatal e =
     (case (looping cfg e, en_fatal e) of
        (True, Some err) \<Rightarrow> Some (cancelRun (note_fatal err (e\<lparr>en_fatal := None, en_stallChecks := 0\<rparr>)))
      | _ \<Rightarrow> None)"
| "fire_sched cfg LCtx e =
     (case (looping cfg e, en_ctxErr e) of
        (True, Some c) \<Rightarrow> Some (note_fatal c (e\<lparr>en_sched := SWait\<rparr>))
      | _ \<Rightarrow> None)"
| "fire_sched cfg LTick e =
     (if looping cfg e
      then Some (e\<lparr>en_accounted := countTerminalTasks cfg e, en_sched := STick1 (countTerminalTasks cfg e)\<rparr>)
      else None)"
| "fire_sched cfg LEnqueue e =
     (case en_sched e of
        SBusy x Disp \<Rightarrow>
          if length (en_queue e) < queue_cap cfg then Some (e\<lparr>en_queue := en_queue e @ [x], en_sched := SLoop\<rparr>)
          else None
      | _ \<Rightarrow> None)"
| "fire_sched cfg LGiveUp e =
     (case (en_sched e, en_ctxErr e) of
        (SBusy x Disp, Some c) \<Rightarrow>
          Some (e\<lparr>en_running := en_running e - 1, en_sched := SBusy x (Hand (HBegin StatusFailed (Some c) True))\<rparr>)
      | _ \<Rightarrow> None)"
| "fire_sched cfg LWaitDone e =
     (if en_sched e = SWait \<and> en_running e = 0 then Some (e\<lparr>en_sched := SDecide\<rparr>) else None)"
| "fire_sched cfg LWaitTimeout e =
     (if en_sched e = SWait
      then Some (note_fatal (PlainError ''timeout waiting for running tasks WaitGroup'') (e\<lparr>en_sched := SDecide\<rparr>))
      else None)"
| "fire_sched cfg LWaitCtx e =
     (case (en_sched e, en_ctxErr e) of
        (SWait, Some c) \<Rightarrow> Some (note_fatal (wait_error c) (e\<lparr>en_sched := SDecide\<rparr>))
      | _ \<Rightarrow> None)"
| "fire_sched cfg LStep e = sched_step cfg (en_sched e) e"
| "fire_sched cfg (LCancel c) e =
     (if en_ctxErr e = None \<and> (c = Canceled \<or> c = DeadlineExceeded) then Some (e\<lparr>en_ctxErr := Some c\<rparr>) else None)"
| "fire_sched cfg _ e = None"

fun fire_worker :: "run_cfg \<Rightarrow> label \<Rightarrow> engine \<Rightarrow> engine option" where
  "fire_worker cfg (WTake i) e =
     (case (i < length (en_workers e) \<and> en_workers e ! i = WIdle, en_queue e) of
        (True, x # xs) \<Rightarrow> Some (set_worker i (WBusy x Got) (e\<lparr>en_queue := xs\<rparr>))
      | _ \<Rightarrow> None)"
| "fire_worker cfg (WQuit i) e =
     (if i < length (en_workers e) \<and> en_workers e ! i = WIdle \<and>
         (en_queue e = [] \<and> queue_closed e \<or> en_ctxErr e \<noteq> None)
      then Some (set_worker i WStop e) else None)"
| "fire_worker cfg (WStep i) e =
     (if i < length (en_workers e) then
        (case en_workers e ! i of
           WBusy x st \<Rightarrow>
             map_option (\<lambda>(st', e'). set_worker i (case st' of None \<Rightarrow> WLeaving | Some s \<Rightarrow> WBusy x s) e')
               (worker_step cfg x st e)
         | _ \<Rightarrow> None)
      else None)"
| "fire_worker cfg (WLeave i) e =
     (if i < length (en_workers e) \<and> en_workers e ! i = WLeaving
      then Some (set_worker i WIdle (e\<lparr>en_active := en_active e - 1\<rparr>)) else None)"
| "fire_worker cfg (WResult i r v) e =
     (if i < length (en_workers e) then
        (case en_workers e ! i of
           WBusy x Run \<Rightarrow> (case task_result cfg x r v e of (st, e') \<Rightarrow> Some (set_worker i (WBusy x st) e'))
         | _ \<Rightarrow> None)
      else None)"
| "fire_worker cfg _ e = None"

text \<open>A label is the scheduler's or a worker's; the other function gives no state for it.\<close>

definition fire :: "run_cfg \<Rightarrow> label \<Rightarrow> engine \<Rightarrow> engine option" where
  "fire cfg l e = (case fire_sched cfg l e of Some e' \<Rightarrow> Some e' | None \<Rightarrow> fire_worker cfg l e)"

fun fires :: "run_cfg \<Rightarrow> label list \<Rightarrow> engine \<Rightarrow> engine option" where
  "fires cfg [] e = Some e"
| "fires cfg (l # ls) e = (case fire cfg l e of None \<Rightarrow> None | Some e' \<Rightarrow> fires cfg ls e')"

text \<open>
  The state when the scheduling loop is entered: variables loaded, every task \<open>Pending\<close>, the
  ids of the initially ready nodes in the ready channel, the workers started.
\<close>

definition start_state :: "run_cfg \<Rightarrow> params option \<Rightarrow> string list \<Rightarrow> MemoryStateStore \<Rightarrow> goerr option \<Rightarrow> engine" where
  "start_state cfg vars ready s ctx = \<lparr>
     en_statuses = (\<lambda>x. if map_of (rc_dag cfg) x = None then None else Some StatusPending),
     en_errors = (\<lambda>x. None),
     en_stream = (\<lambda>x. case map_of (rc_dag cfg) x of None \<Rightarrow> 0 | Some nd \<Rightarrow> nd_StreamDepsRemaining nd),
     en_state = (\<lambda>x. case map_of (rc_dag cfg) x of None \<Rightarrow> 0 | Some nd \<Rightarrow> nd_StateDepsRemaining nd),
     en_store = fold (\<lambda>x. store_Set (status_key (rc_dag cfg) x) (VStr (status_text StatusPending)))
                  (rc_rng cfg 9 (keys (rc_dag cfg))) (store_Load vars s),
     en_events = [], en_completed = 0, en_active = 0, en_ready = ready, en_queue = [],
     en_fatal = None, en_ctxErr = ctx, en_running = 0, en_dispatched = (\<lambda>x. False),
     en_accounted = 0, en_lastAccounted = - 1, en_stallChecks = 0, en_firstFatal = None,
     en_sched = SLoop, en_workers = replicate (rc_pool cfg) WIdle\<rparr>"

end
