(* ===== verification/Gxo_Schedule.thy ===== *)
theory Gxo_Schedule
  imports Gxo_Engine "HOL-Library.Multiset"
begin

text \<open>
  An abstract scheduler: what of the engine's state decides which task runs when, with the
  goroutines that work on tasks as a multiset of (task, phase) pairs. Every step of the engine
  is a step of the abstract scheduler, so its invariants hold in every state a run reaches.
\<close>

subsection \<open>Abstract steps\<close>

datatype phase =
    PSig "act list"
  | PWait
  | PRun
  | PBegin TaskStatus bool
  | PAnn TaskStatus
  | PState "act list"
  | PEnd

fun phase_of :: "stage \<Rightarrow> phase" where
  "phase_of (Sig as) = PSig as"
| "phase_of Run = PRun"
| "phase_of (Hand (HBegin st err syn)) = PBegin st syn"
| "phase_of (Hand (HWrite st err old)) = PAnn st"
| "phase_of (Hand (HSignal as st err)) = PState as"
| "phase_of (Hand (HFatal st err)) = PEnd"
| "phase_of Left = PEnd"
| "phase_of Disp = PWait"
| "phase_of Queued = PWait"
| "phase_of Got = PWait"
| "phase_of Active = PWait"

record core =
  c_status :: "string \<Rightarrow> TaskStatus option"
  c_disp :: "string \<Rightarrow> bool"
  c_stream :: "string \<Rightarrow> int"
  c_state :: "string \<Rightarrow> int"
  c_ready :: "string multiset"
  c_held :: "(string \<times> phase) multiset"
  c_started :: "string multiset"

fun core_act :: "bool \<Rightarrow> act \<Rightarrow> core \<Rightarrow> act list \<times> core" where
  "core_act True (Dec d) c =
     (if c_stream c d - 1 = 0 then [Chk d] else [], c\<lparr>c_stream := (c_stream c)(d := c_stream c d - 1)\<rparr>)"
| "core_act False (Dec d) c =
     (if c_state c d - 1 = 0 then [Chk d] else [], c\<lparr>c_state := (c_state c)(d := c_state c d - 1)\<rparr>)"
| "core_act k (Chk d) c = (if c_stream c d = 0 \<and> c_state c d = 0 then [Snd d] else [], c)"
| "core_act k (Snd d) c = ([], c\<lparr>c_ready := add_mset d (c_ready c)\<rparr>)"

definition term_in :: "core \<Rightarrow> string \<Rightarrow> bool" where
  "term_in c x \<longleftrightarrow> (case c_status c x of None \<Rightarrow> False | Some st \<Rightarrow> is_terminal st)"

inductive moves :: "run_cfg \<Rightarrow> core \<Rightarrow> string \<Rightarrow> phase \<Rightarrow> phase \<Rightarrow> bool" for cfg c x where
  "moves cfg c x (PSig []) PWait"
| "moves cfg c x PWait PWait"
| "is_terminal st \<Longrightarrow> moves cfg c x PWait (PBegin st syn)"
| "is_terminal st \<Longrightarrow> moves cfg c x PRun (PBegin st syn)"
| "term_in c x \<Longrightarrow> moves cfg c x (PBegin st False) PEnd"
| "\<not> is_ok st \<or> map_of (rc_dag cfg) x = None \<Longrightarrow> moves cfg c x (PAnn st) PEnd"
| "is_ok st \<Longrightarrow> moves cfg c x (PAnn st) (PState (state_signals cfg x))"
| "moves cfg c x (PState []) PEnd"
| "moves cfg c x PEnd PEnd"

inductive core_step :: "run_cfg \<Rightarrow> core \<Rightarrow> core \<Rightarrow> bool" for cfg c where
  idle: "core_step cfg c c"
| ignore: "c_ready c = add_mset x M \<Longrightarrow> c_disp c x \<or> c_status c x \<noteq> Some StatusPending \<Longrightarrow>
    core_step cfg c (c\<lparr>c_ready := M\<rparr>)"
| dispatch: "c_ready c = add_mset x M \<Longrightarrow> \<not> c_disp c x \<Longrightarrow> c_status c x = Some StatusPending \<Longrightarrow>
    core_step cfg c (c\<lparr>c_ready := M, c_disp := (c_disp c)(x := True),
      c_status := (c_status c)(x \<mapsto> StatusRunning),
      c_held := add_mset (x, PSig (stream_signals cfg x)) (c_held c)\<rparr>)"
| move: "c_held c = add_mset (x, p) R \<Longrightarrow> moves cfg c x p p' \<Longrightarrow>
    core_step cfg c (c\<lparr>c_held := add_mset (x, p') R\<rparr>)"
| leave: "c_held c = add_mset (x, p) R \<Longrightarrow> moves cfg c x p PEnd \<Longrightarrow>
    core_step cfg c (c\<lparr>c_held := R\<rparr>)"
| start: "c_held c = add_mset (x, PWait) R \<Longrightarrow>
    core_step cfg c (c\<lparr>c_held := add_mset (x, PRun) R, c_started := add_mset x (c_started c)\<rparr>)"
| record_status: "c_held c = add_mset (x, PBegin st syn) R \<Longrightarrow> syn \<or> \<not> term_in c x \<Longrightarrow>
    core_step cfg c (c\<lparr>c_status := (c_status c)(x \<mapsto> st), c_held := add_mset (x, PAnn st) R\<rparr>)"
| stream_act: "c_held c = add_mset (x, PSig (a # as)) R \<Longrightarrow> core_act True a c = (new, c') \<Longrightarrow>
    core_step cfg c (c'\<lparr>c_held := add_mset (x, PSig (new @ as)) R\<rparr>)"
| state_act: "c_held c = add_mset (x, PState (a # as)) R \<Longrightarrow> core_act False a c = (new, c') \<Longrightarrow>
    core_step cfg c (c'\<lparr>c_held := add_mset (x, PState (new @ as)) R\<rparr>)"

subsection \<open>The abstraction of an engine state\<close>

fun sched_held :: "spc \<Rightarrow> (string \<times> phase) multiset" where
  "sched_held (SBusy x st) = {#(x, phase_of st)#}"
| "sched_held _ = {#}"

fun worker_held :: "wpc \<Rightarrow> (string \<times> phase) multiset" where
  "worker_held (WBusy x st) = {#(x, phase_of st)#}"
| "worker_held _ = {#}"

definition workers_held :: "wpc list \<Rightarrow> (string \<times> phase) multiset" where
  "workers_held ws = sum_list (map worker_held ws)"

definition queue_held :: "string list \<Rightarrow> (string \<times> phase) multiset" where
  "queue_held xs = image_mset (\<lambda>x. (x, PWait)) (mset xs)"

fun start_of :: "event \<Rightarrow> string multiset" where
  "start_of (EvTaskStart x) = {#x#}"
| "start_of _ = {#}"

definition core_with :: "(string \<times> phase) multiset \<Rightarrow> engine \<Rightarrow> core" where
  "core_with H e = \<lparr>c_status = en_statuses e, c_disp = en_dispatched e, c_stream = en_stream e,
     c_state = en_state e, c_ready = mset (en_ready e), c_held = H,
     c_started = sum_list (map start_of (en_events e))\<rparr>"

definition held :: "engine \<Rightarrow> (string \<times> phase) multiset" where
  "held e = sched_held (en_sched e) + queue_held (en_queue e) + workers_held (en_workers e)"

definition core_of :: "engine \<Rightarrow> core" where
  "core_of e = core_with (held e) e"

lemma workers_held_simps [simp]:
  "workers_held [] = {#}" "workers_held (w # ws) = worker_held w + workers_held ws"
  by (simp_all add: workers_held_def)

lemma queue_held_simps [simp]:
  "queue_held [] = {#}" "queue_held (x # xs) = add_mset (x, PWait) (queue_held xs)"
  "queue_held (xs @ ys) = queue_held xs + queue_held ys"
  by (simp_all add: queue_held_def)

lemma workers_held_update:
  "i < length ws \<Longrightarrow> \<exists>R. workers_held ws = worker_held (ws ! i) + R \<and>
     (\<forall>w. workers_held (ws[i := w]) = worker_held w + R)"
proof (induction ws arbitrary: i)
  case (Cons w ws)
  show ?case
  proof (cases i)
    case 0
    then show ?thesis by auto
  next
    case (Suc j)
    with Cons obtain R where "workers_held ws = worker_held (ws ! j) + R"
      "\<forall>w. workers_held (ws[j := w]) = worker_held w + R" by fastforce
    with Suc show ?thesis by (intro exI [of _ "worker_held w + R"]) simp
  qed
qed simp

subsection \<open>Completion handling refines the abstract steps\<close>

lemma do_act_core:
  "do_act cfg k a e = Some (new, e') \<Longrightarrow>
     core_act k a (core_with H e) = (new, core_with H e') \<and>
     en_sched e' = en_sched e \<and> en_workers e' = en_workers e \<and> en_queue e' = en_queue e \<and>
     en_running e' = en_running e"
  by (cases "(cfg, k, a, e)" rule: do_act.cases)
    (auto simp: core_with_def dec_stream_def dec_state_def isTaskReady_def split: if_splits)

lemma announce_core [simp]:
  "core_with H (announce_status cfg x st old e) = core_with H e"
  "en_sched (announce_status cfg x st old e) = en_sched e"
  "en_workers (announce_status cfg x st old e) = en_workers e"
  "en_queue (announce_status cfg x st old e) = en_queue e"
  "en_running (announce_status cfg x st old e) = en_running e"
  by (simp_all add: announce_status_def core_with_def writeTaskStatus_def Let_def)

lemma send_fatal_core [simp]:
  "core_with H (send_fatal err e) = core_with H e"
  "en_sched (send_fatal err e) = en_sched e"
  "en_workers (send_fatal err e) = en_workers e"
  "en_queue (send_fatal err e) = en_queue e"
  "en_running (send_fatal err e) = en_running e"
  by (simp_all add: send_fatal_def core_with_def)

lemma handle_step_frame:
  assumes "handle_step cfg x h e = Some (h', e')"
  shows "en_sched e' = en_sched e \<and> en_workers e' = en_workers e \<and> en_queue e' = en_queue e \<and>
    en_running e' = en_running e"
  using assms
  by (cases "(cfg, x, h, e)" rule: handle_step.cases)
    (auto simp: record_status_def split: if_splits dest: do_act_core)

lemma core_with_fields [simp]:
  "c_held (core_with H e) = H" "c_status (core_with H e) = en_statuses e"
  "c_disp (core_with H e) = en_dispatched e" "c_ready (core_with H e) = mset (en_ready e)"
  "c_stream (core_with H e) = en_stream e" "c_state (core_with H e) = en_state e"
  "c_started (core_with H e) = sum_list (map start_of (en_events e))"
  "c_held_update (\<lambda>_. H') (core_with H e) = core_with H' e"
  by (simp_all add: core_with_def)

lemma term_in_core [simp]: "term_in (core_with H e) x = status_is is_terminal e x"
  by (simp add: term_in_def status_is_def)

definition after :: "string \<Rightarrow> hstage option \<Rightarrow> (string \<times> phase) multiset" where
  "after x h = (case h of None \<Rightarrow> {#} | Some h' \<Rightarrow> {#(x, phase_of (Hand h'))#})"

lemma after_simps [simp]: "after x None = {#}" "after x (Some h) = {#(x, phase_of (Hand h))#}"
  by (simp_all add: after_def)

text \<open>A handler step for a goroutine that holds the task; when the handler returns, the goroutine
  either goes on in its last phase or has let the task go.\<close>

lemma core_move:
  "moves cfg (core_with (add_mset (x, p) R) e) x p p' \<Longrightarrow>
     core_step cfg (core_with (add_mset (x, p) R) e) (core_with (add_mset (x, p') R) e)"
  using core_step.move [of "core_with (add_mset (x, p) R) e" x p R cfg p'] by simp

lemma core_leave:
  "moves cfg (core_with (add_mset (x, p) R) e) x p PEnd \<Longrightarrow>
     core_step cfg (core_with (add_mset (x, p) R) e) (core_with R e)"
  using core_step.leave [of "core_with (add_mset (x, p) R) e" x p R cfg] by simp

lemma handle_step_core:
  assumes "handle_step cfg x h e = Some (h', e')" and "h' = None \<Longrightarrow> L = {#} \<or> L = {#(x, PEnd)#}"
    and "h' \<noteq> None \<Longrightarrow> L = after x h'"
  shows "core_step cfg (core_with (add_mset (x, phase_of (Hand h)) R) e) (core_with (L + R) e')"
proof (cases "(cfg, x, h, e)" rule: handle_step.cases)
  case (1 cfg0 x0 st err syn e0)
  show ?thesis
  proof (cases "\<not> syn \<and> status_is is_terminal e x")
    case True
    with 1 assms show ?thesis by (auto intro!: core_move core_leave moves.intros)
  next
    case False
    with 1 assms have "h' = Some (HWrite st err (en_statuses e x))" "e' = record_status cfg x st err e"
      by auto
    moreover have "core_step cfg (core_with (add_mset (x, PBegin st syn) R) e)
        (core_with (add_mset (x, PAnn st) R) (record_status cfg x st err e))"
      using core_step.record_status [of "core_with (add_mset (x, PBegin st syn) R) e" x st syn R cfg] False
      by (simp add: core_with_def record_status_def term_in_def status_is_def)
    ultimately show ?thesis using 1 assms(3) by simp
  qed
next
  case (2 cfg0 x0 st err old e0)
  with assms show ?thesis by (auto intro!: core_move core_leave moves.intros split: if_splits)
next
  case (3 cfg0 x0 st err e0)
  with assms show ?thesis by (auto intro!: core_move core_leave moves.intros)
next
  case (4 cfg0 x0 a as st err e0)
  with assms obtain new where act: "do_act cfg False a e = Some (new, e')" and "h' = Some (HSignal (new @ as) st err)"
    by auto
  with 4 assms(3) show ?thesis
    using core_step.state_act [of "core_with (add_mset (x, PState (a # as)) R) e" x a as R new
        "core_with (add_mset (x, PState (a # as)) R) e'" cfg] do_act_core [OF act]
    by simp
next
  case (5 cfg0 x0 st err e0)
  with assms show ?thesis by (auto intro!: core_move core_leave moves.intros)
qed

subsection \<open>Every step refines an abstract step\<close>

lemma set_worker_simps [simp]:
  "core_with H (set_worker i w e) = core_with H e"
  "en_sched (set_worker i w e) = en_sched e" "en_queue (set_worker i w e) = en_queue e"
  "en_workers (set_worker i w e) = (en_workers e)[i := w]"
  "en_running (set_worker i w e) = en_running e"
  by (simp_all add: set_worker_def core_with_def)

text \<open>Replacing the phase of one worker.\<close>

lemma held_worker:
  assumes "i < length (en_workers e)"
  obtains R where "held e = worker_held (en_workers e ! i) + R"
    and "\<And>e' w. en_sched e' = en_sched e \<Longrightarrow> en_queue e' = en_queue e \<Longrightarrow> en_workers e' = en_workers e \<Longrightarrow>
      held (set_worker i w e') = worker_held w + R"
proof -
  from workers_held_update [OF assms] obtain W where
    "workers_held (en_workers e) = worker_held (en_workers e ! i) + W"
    "\<forall>w. workers_held ((en_workers e)[i := w]) = worker_held w + W" by blast
  then show ?thesis
    by (intro that [of "sched_held (en_sched e) + queue_held (en_queue e) + W"])
      (simp_all add: held_def ac_simps)
qed

lemma core_of_cong:
  "core_with {#} e' = core_with {#} e \<Longrightarrow> held e' = held e \<Longrightarrow> core_of e' = core_of e"
  by (simp add: core_of_def core_with_def)

lemma worker_step_core:
  assumes "worker_step cfg x st e = Some (st', e')"
  shows "core_step cfg (core_with (add_mset (x, phase_of st) R) e)
      (core_with ((case st' of None \<Rightarrow> {#} | Some s \<Rightarrow> {#(x, phase_of s)#}) + R) e')
    \<and> en_sched e' = en_sched e \<and> en_workers e' = en_workers e \<and> en_queue e' = en_queue e"
proof (cases "(cfg, x, st, e)" rule: worker_step.cases)
  case (2 cfg0 x0 e0)
  show ?thesis
  proof (cases "map_of (rc_dag cfg) x = None \<or> en_ctxErr e \<noteq> None")
    case True
    with 2 assms show ?thesis
      by (auto intro!: core_move moves.intros simp: is_terminal_def split: option.splits)
  next
    case False
    then obtain node where "map_of (rc_dag cfg) x = Some node" "en_ctxErr e = None" by auto
    with 2 assms have *: "st' = Some Run" "e' = e\<lparr>en_events := en_events e @ [EvTaskStart x]\<rparr>"
      by auto
    have "core_step cfg (core_with (add_mset (x, PWait) R) e) (core_with (add_mset (x, PRun) R) e')"
      using core_step.start [of "core_with (add_mset (x, PWait) R) e" x R cfg]
      by (simp add: *(2) core_with_def)
    with 2 * show ?thesis by simp
  qed
next
  case (1 cfg0 x0 e0)
  have "core_step cfg (core_with (add_mset (x, PWait) R) e) (core_with (add_mset (x, PWait) R) e)"
    by (rule core_step.idle)
  with 1 assms show ?thesis by (auto simp: core_with_def)
next
  case (3 cfg0 x0 h e0)
  with assms obtain h' where h: "handle_step cfg x h e = Some (h', e')"
    "st' = Some (case h' of None \<Rightarrow> Left | Some h'' \<Rightarrow> Hand h'')" by auto
  have "core_step cfg (core_with (add_mset (x, phase_of (Hand h)) R) e)
      (core_with ({#(x, phase_of (case h' of None \<Rightarrow> Left | Some h'' \<Rightarrow> Hand h''))#} + R) e')"
    using handle_step_core [OF h(1), of "{#(x, phase_of (case h' of None \<Rightarrow> Left | Some h'' \<Rightarrow> Hand h''))#}" R]
    by (auto simp: after_def split: option.splits)
  with 3 h handle_step_frame [OF h(1)] show ?thesis by simp
next
  case (4 cfg0 x0 e0)
  have "core_step cfg (core_with (add_mset (x, PEnd) R) e) (core_with R e)"
    by (intro core_leave moves.intros)
  with 4 assms show ?thesis by (auto simp: core_with_def)
qed (use assms in simp_all)

lemma dispatch_core:
  assumes "mset (en_ready e) = add_mset x (mset xs)" and "sched_held (en_sched e) = {#}"
  shows "core_step cfg (core_of e) (core_of (dispatch cfg x (e\<lparr>en_ready := xs, en_stallChecks := 0\<rparr>)))"
proof (cases "en_dispatched e x \<or> en_statuses e x \<noteq> Some StatusPending")
  case True
  with assms core_step.ignore [of "core_of e" x "mset xs" cfg] show ?thesis
    by (auto simp: dispatch_def core_of_def core_with_def held_def)
next
  case False
  with assms core_step.dispatch [of "core_of e" x "mset xs" cfg] show ?thesis
    by (simp add: dispatch_def core_of_def core_with_def held_def writeTaskStatus_def)
qed

lemma cancel_note_core [simp]:
  "core_with H (cancelRun e) = core_with H e" "held (cancelRun e) = held e"
  "core_with H (note_fatal err e) = core_with H e" "held (note_fatal err e) = held e"
  by (simp_all add: cancelRun_def note_fatal_def core_with_def held_def)

lemma core_of_idle:
  assumes "core_with {#} e' = core_with {#} e" "held e' = held e"
  shows "core_step cfg (core_of e) (core_of e')"
  using core_of_cong [OF assms] core_step.idle by simp

lemma sched_step_core:
  assumes "sched_step cfg (en_sched e) e = Some e'"
  shows "core_step cfg (core_of e) (core_of e')"
proof -
  let ?R = "queue_held (en_queue e) + workers_held (en_workers e)"
  have held: "held e = sched_held (en_sched e) + ?R" by (simp add: held_def ac_simps)
  show ?thesis
  proof (cases "(cfg, en_sched e, e)" rule: sched_step.cases)
    case (5 cfg0 x e0)
    with assms have "core_of e = core_with (add_mset (x, PSig []) ?R) e"
      "core_of e' = core_with (add_mset (x, PWait) ?R) e"
      by (auto simp: core_of_def held core_with_def held_def)
    then show ?thesis by (auto intro!: core_move moves.intros)
  next
    case (6 cfg0 x a as e0)
    with assms obtain new e1 where act: "do_act cfg True a e = Some (new, e1)"
      and e': "e' = e1\<lparr>en_sched := SBusy x (Sig (new @ as))\<rparr>" by auto
    have "core_of e = core_with (add_mset (x, PSig (a # as)) ?R) e"
    proof -
      from 6 have "en_sched e = SBusy x (Sig (a # as))" by auto
      then show ?thesis unfolding core_of_def held by simp
    qed
    moreover have "core_of e' = core_with (add_mset (x, PSig (new @ as)) ?R) e1"
      using do_act_core [OF act] by (simp add: e' core_of_def core_with_def held_def)
    ultimately show ?thesis
      using core_step.stream_act [of "core_with (add_mset (x, PSig (a # as)) ?R) e" x a as ?R new
          "core_with (add_mset (x, PSig (a # as)) ?R) e1" cfg] do_act_core [OF act]
      by simp
  next
    case (7 cfg0 x h e0)
    with assms obtain h' e1 where h: "handle_step cfg x h e = Some (h', e1)"
      and e': "e' = e1\<lparr>en_sched := (case h' of None \<Rightarrow> SLoop | Some h'' \<Rightarrow> SBusy x (Hand h''))\<rparr>" by auto
    have "core_of e = core_with (add_mset (x, phase_of (Hand h)) ?R) e"
    proof -
      from 7 have "en_sched e = SBusy x (Hand h)" by auto
      then show ?thesis unfolding core_of_def held by simp
    qed
    moreover have "core_of e' = core_with (after x h' + ?R) e1"
      using handle_step_frame [OF h] by (cases h') (simp_all add: e' core_of_def core_with_def held_def)
    ultimately show ?thesis
      using handle_step_core [OF h, of "after x h'" ?R] by (cases h') simp_all
  next
    case (4 cfg0 n a r e0)
    with assms show ?thesis
      by (intro core_of_idle)
        (auto simp: tick_decision_def Let_def core_with_def held_def cancelRun_def note_fatal_def)
  qed (use assms in \<open>auto intro!: core_of_idle simp: core_with_def held_def split: if_splits\<close>)
qed

lemma fire_sched_core:
  assumes "fire_sched cfg l e = Some e'"
  shows "core_step cfg (core_of e) (core_of e')"
proof (cases "(cfg, l, e)" rule: fire_sched.cases)
  case (1 cfg0 e0)
  with assms obtain x xs where "looping cfg e" "en_ready e = x # xs"
    "e' = dispatch cfg x (e\<lparr>en_ready := xs, en_stallChecks := 0\<rparr>)"
    by (auto split: bool.splits list.splits)
  then show ?thesis using dispatch_core [of e x xs cfg] by (auto simp: looping_def)
next
  case (5 cfg0 e0)
  with assms obtain x where "en_sched e = SBusy x Disp" "e' = e\<lparr>en_queue := en_queue e @ [x], en_sched := SLoop\<rparr>"
    by (auto split: spc.splits stage.splits if_splits)
  then show ?thesis by (intro core_of_idle) (simp_all add: core_with_def held_def)
next
  case (6 cfg0 e0)
  with assms obtain x c where e: "en_sched e = SBusy x Disp"
    and e': "e' = e\<lparr>en_running := en_running e - 1, en_sched := SBusy x (Hand (HBegin StatusFailed (Some c) True))\<rparr>"
    by (auto split: spc.splits stage.splits option.splits)
  let ?R = "queue_held (en_queue e) + workers_held (en_workers e)"
  have "core_of e = core_with (add_mset (x, PWait) ?R) e"
    "core_of e' = core_with (add_mset (x, PBegin StatusFailed True) ?R) e"
    using e e' by (simp_all add: core_of_def held_def core_with_def)
  then show ?thesis by (auto intro!: core_move moves.intros simp: is_terminal_def)
next
  case (10 cfg0 e0)
  with assms show ?thesis by (simp add: sched_step_core)
next
  case (3 cfg0 e0)
  with assms show ?thesis
    by (intro core_of_idle)
      (auto simp: core_with_def held_def note_fatal_def looping_def split: bool.splits option.splits)
next
  case (9 cfg0 e0)
  with assms show ?thesis
    by (intro core_of_idle)
      (auto simp: core_with_def held_def note_fatal_def split: spc.splits option.splits)
qed (use assms in \<open>auto intro!: core_of_idle simp: core_with_def held_def looping_def note_fatal_def cancelRun_def
       split: if_splits bool.splits option.splits\<close>)

lemma task_result_core [simp]:
  "core_with H (snd (task_result cfg x r v e)) = core_with H e"
  "en_sched (snd (task_result cfg x r v e)) = en_sched e"
  "en_workers (snd (task_result cfg x r v e)) = en_workers e"
  "en_queue (snd (task_result cfg x r v e)) = en_queue e"
  by (simp_all add: task_result_def Let_def core_with_def)

lemma task_result_stage: "fst (task_result cfg x r v e) = Hand (HBegin (final_status r) r False)"
  by (simp add: task_result_def Let_def)

lemma fire_worker_core:
  assumes "fire_worker cfg l e = Some e'"
  shows "core_step cfg (core_of e) (core_of e')"
proof (cases "(cfg, l, e)" rule: fire_worker.cases)
  case (1 cfg0 i e0)
  with assms obtain x xs where i: "i < length (en_workers e)" "en_workers e ! i = WIdle"
    and q: "en_queue e = x # xs" "e' = set_worker i (WBusy x Got) (e\<lparr>en_queue := xs\<rparr>)"
    by (auto split: bool.splits list.splits)
  obtain W where "workers_held (en_workers e) = W" "\<forall>w. workers_held ((en_workers e)[i := w]) = worker_held w + W"
    using workers_held_update [OF i(1)] i(2) by auto
  with q show ?thesis by (intro core_of_idle) (simp_all add: core_with_def held_def set_worker_def)
next
  case (2 cfg0 i e0)
  with assms have i: "i < length (en_workers e)" "en_workers e ! i = WIdle" "e' = set_worker i WStop e"
    by (auto split: if_splits)
  obtain R where "held e = worker_held (en_workers e ! i) + R" "held (set_worker i WStop e) = worker_held WStop + R"
    using held_worker [OF i(1)] by (metis (no_types))
  with i show ?thesis by (intro core_of_idle) simp_all
next
  case (3 cfg0 i e0)
  with assms obtain x st st' e1 where i: "i < length (en_workers e)" "en_workers e ! i = WBusy x st"
    and s: "worker_step cfg x st e = Some (st', e1)"
    and e': "e' = set_worker i (case st' of None \<Rightarrow> WLeaving | Some s \<Rightarrow> WBusy x s) e1"
    by (auto split: if_splits wpc.splits)
  obtain R where R: "held e = worker_held (en_workers e ! i) + R"
    "\<And>e' w. en_sched e' = en_sched e \<Longrightarrow> en_queue e' = en_queue e \<Longrightarrow> en_workers e' = en_workers e \<Longrightarrow>
      held (set_worker i w e') = worker_held w + R"
    using held_worker [OF i(1)] by metis
  note c = worker_step_core [OF s, of R]
  have "core_of e = core_with (add_mset (x, phase_of st) R) e" using i R(1) by (simp add: core_of_def)
  moreover have "core_of e' = core_with ((case st' of None \<Rightarrow> {#} | Some s \<Rightarrow> {#(x, phase_of s)#}) + R) e1"
    using c R(2) by (cases st') (simp_all add: e' core_of_def)
  ultimately show ?thesis using c by simp
next
  case (4 cfg0 i e0)
  with assms have i: "i < length (en_workers e)" "en_workers e ! i = WLeaving"
    "e' = set_worker i WIdle (e\<lparr>en_active := en_active e - 1\<rparr>)"
    by (auto split: if_splits)
  obtain R where "held e = worker_held (en_workers e ! i) + R"
    "\<And>e' w. en_sched e' = en_sched e \<Longrightarrow> en_queue e' = en_queue e \<Longrightarrow> en_workers e' = en_workers e \<Longrightarrow>
      held (set_worker i w e') = worker_held w + R"
    using held_worker [OF i(1)] by metis
  with i show ?thesis by (intro core_of_idle) (simp_all add: core_with_def set_worker_def)
next
  case (5 cfg0 i r v e0)
  with assms obtain x where i: "i < length (en_workers e)" "en_workers e ! i = WBusy x Run"
    and e': "e' = set_worker i (WBusy x (fst (task_result cfg x r v e))) (snd (task_result cfg x r v e))"
    by (auto split: if_splits wpc.splits stage.splits prod.splits)
  obtain R where R: "held e = worker_held (en_workers e ! i) + R"
    "\<And>e' w. en_sched e' = en_sched e \<Longrightarrow> en_queue e' = en_queue e \<Longrightarrow> en_workers e' = en_workers e \<Longrightarrow>
      held (set_worker i w e') = worker_held w + R"
    using held_worker [OF i(1)] by metis
  have "core_of e = core_with (add_mset (x, PRun) R) e" using i R(1) by (simp add: core_of_def)
  moreover have "core_of e' = core_with (add_mset (x, PBegin (final_status r) False) R) e"
    using R(2) [of "snd (task_result cfg x r v e)" "WBusy x (fst (task_result cfg x r v e))"]
    by (simp add: e' core_of_def task_result_stage)
  moreover have "is_terminal (final_status r)"
    by (simp add: final_status_def is_terminal_def split: option.splits)
  ultimately show ?thesis by (auto intro!: core_move moves.intros)
qed (use assms in simp_all)

text \<open>The refinement: every step of the engine is a step of the abstract scheduler.\<close>

lemma fire_core: "fire cfg l e = Some e' \<Longrightarrow> core_step cfg (core_of e) (core_of e')"
  by (auto simp: fire_def split: option.splits dest: fire_sched_core fire_worker_core)

inductive reachable :: "run_cfg \<Rightarrow> engine \<Rightarrow> engine \<Rightarrow> bool" for cfg s where
  start: "reachable cfg s s"
| step: "reachable cfg s e \<Longrightarrow> fire cfg l e = Some e' \<Longrightarrow> reachable cfg s e'"

lemma fires_reachable: "reachable cfg s e \<Longrightarrow> fires cfg ls e = Some e' \<Longrightarrow> reachable cfg s e'"
  by (induction cfg ls e rule: fires.induct) (auto split: option.splits intro: reachable.step)

end
