(* ===== verification/Gxo_Progress.thy ===== *)
theory Gxo_Progress
  imports Gxo_Schedule
begin

text \<open>
  The invariants of the abstract scheduler, each kept by every abstract step: a task is in at
  most one goroutine's hands; its counters are the producers that have not signalled it yet;
  only a task with both counters at 0 is sent or dispatched; and a task whose counters are 0
  is dispatched, on its way to the ready channel, or about to be checked.
\<close>

subsection \<open>Weights\<close>

definition wt :: "(phase \<Rightarrow> nat) \<Rightarrow> (string \<times> phase) multiset \<Rightarrow> string \<Rightarrow> nat" where
  "wt f H x = (\<Sum>h \<in># H. if fst h = x then f (snd h) else 0)"

lemma wt_simps [simp]:
  "wt f {#} x = 0"
  "wt f (add_mset (y, p) H) x = (if y = x then f p else 0) + wt f H x"
  by (simp_all add: wt_def)

lemma wt_zero: "(\<And>p. (x, p) \<in># H \<Longrightarrow> f p = 0) \<Longrightarrow> wt f H x = 0"
  by (induction H) auto

text \<open>A task in a phase before its final status is recorded; one whose module has not started.\<close>

fun pre_w :: "phase \<Rightarrow> nat" where
  "pre_w (PAnn st) = 0"
| "pre_w (PState as) = 0"
| "pre_w PEnd = 0"
| "pre_w _ = 1"

fun wait_w :: "phase \<Rightarrow> nat" where
  "wait_w (PSig as) = 1"
| "wait_w PWait = 1"
| "wait_w _ = 0"

text \<open>How often the holder of a task will still decrement a counter of \<open>d\<close>.\<close>

fun stream_debt :: "string \<Rightarrow> phase \<Rightarrow> nat" where
  "stream_debt d (PSig as) = count_list as (Dec d)"
| "stream_debt d _ = 0"

fun state_debt :: "string \<Rightarrow> phase \<Rightarrow> nat" where
  "state_debt d (PAnn st) = of_bool (is_ok st)"
| "state_debt d (PState as) = count_list as (Dec d)"
| "state_debt d _ = 0"

fun acts :: "phase \<Rightarrow> act list" where
  "acts (PSig as) = as"
| "acts (PState as) = as"
| "acts _ = []"

fun act_task :: "act \<Rightarrow> string" where
  "act_task (Dec d) = d"
| "act_task (Chk d) = d"
| "act_task (Snd d) = d"

definition ok_in :: "core \<Rightarrow> string \<Rightarrow> bool" where
  "ok_in c x \<longleftrightarrow> (case c_status c x of None \<Rightarrow> False | Some st \<Rightarrow> is_ok st)"

subsection \<open>The invariants\<close>

definition status_inv :: "run_cfg \<Rightarrow> core \<Rightarrow> bool" where
  "status_inv cfg c \<longleftrightarrow> (\<forall>x. (c_status c x = None \<longleftrightarrow> map_of (rc_dag cfg) x = None) \<and>
     (c_disp c x \<longrightarrow> map_of (rc_dag cfg) x \<noteq> None \<and>
        (\<exists>st. c_status c x = Some st \<and> (st = StatusRunning \<or> is_terminal st))) \<and>
     (\<not> c_disp c x \<longrightarrow> c_status c x = None \<or> c_status c x = Some StatusPending))"

fun phase_ok :: "run_cfg \<Rightarrow> string \<Rightarrow> phase \<Rightarrow> bool" where
  "phase_ok cfg x (PBegin st syn) = is_terminal st"
| "phase_ok cfg x (PAnn st) = is_terminal st"
| "phase_ok cfg x (PSig as) = (\<forall>d. Dec d \<in> set as \<longrightarrow> x \<in> set (StreamDependsOn (rc_dag cfg) d))"
| "phase_ok cfg x (PState as) = (\<forall>d. Dec d \<in> set as \<longrightarrow> x \<in> set (StateDependsOn (rc_dag cfg) d))"
| "phase_ok cfg x _ = True"

definition held_inv :: "run_cfg \<Rightarrow> core \<Rightarrow> bool" where
  "held_inv cfg c \<longleftrightarrow> (\<forall>x p. (x, p) \<in># c_held c \<longrightarrow> c_disp c x \<and> phase_ok cfg x p)"

text \<open>One goroutine works on a dispatched task until its final status is recorded.\<close>

definition token_inv :: "core \<Rightarrow> bool" where
  "token_inv c \<longleftrightarrow> (\<forall>x. wt pre_w (c_held c) x + of_bool (term_in c x) = of_bool (c_disp c x))"

definition start_inv :: "core \<Rightarrow> bool" where
  "start_inv c \<longleftrightarrow> (\<forall>x. count (c_started c) x + wt wait_w (c_held c) x \<le> of_bool (c_disp c x))"

definition state_left :: "run_cfg \<Rightarrow> core \<Rightarrow> string \<Rightarrow> nat" where
  "state_left cfg c d = (\<Sum>p \<in> set (StateDependsOn (rc_dag cfg) d).
     of_bool (\<not> ok_in c p) + wt (state_debt d) (c_held c) p)"

definition stream_left :: "run_cfg \<Rightarrow> core \<Rightarrow> string \<Rightarrow> nat" where
  "stream_left cfg c d = (\<Sum>p \<in> set (StreamDependsOn (rc_dag cfg) d).
     of_bool (\<not> c_disp c p) + wt (stream_debt d) (c_held c) p)"

definition count_inv :: "run_cfg \<Rightarrow> core \<Rightarrow> bool" where
  "count_inv cfg c \<longleftrightarrow>
     (\<forall>d. c_state c d = int (state_left cfg c d) \<and> c_stream c d = int (stream_left cfg c d))"

definition both_zero :: "core \<Rightarrow> string \<Rightarrow> bool" where
  "both_zero c d \<longleftrightarrow> c_stream c d = 0 \<and> c_state c d = 0"

definition planned :: "act \<Rightarrow> core \<Rightarrow> bool" where
  "planned a c \<longleftrightarrow> (\<exists>x p. (x, p) \<in># c_held c \<and> a \<in> set (acts p))"

definition zero_inv :: "core \<Rightarrow> bool" where
  "zero_inv c \<longleftrightarrow> (\<forall>d. c_disp c d \<or> d \<in># c_ready c \<or> planned (Snd d) c \<longrightarrow> both_zero c d)"

definition wake_inv :: "run_cfg \<Rightarrow> core \<Rightarrow> bool" where
  "wake_inv cfg c \<longleftrightarrow> (\<forall>d. map_of (rc_dag cfg) d \<noteq> None \<and> both_zero c d \<longrightarrow>
     c_disp c d \<or> d \<in># c_ready c \<or> planned (Chk d) c \<or> planned (Snd d) c)"

lemmas inv_defs = status_inv_def held_inv_def token_inv_def start_inv_def count_inv_def zero_inv_def wake_inv_def

subsection \<open>Signal lists\<close>

lemma stream_signals_set [simp]:
  assumes "permutes (rc_rng cfg)" and "dag_wf (rc_dag cfg)"
  shows "Dec d \<in> set (stream_signals cfg x) \<longleftrightarrow> x \<in> set (StreamDependsOn (rc_dag cfg) d)"
  using assms by (auto simp: stream_signals_def dag_wf_def)

lemma state_signals_set [simp]:
  assumes "permutes (rc_rng cfg)" and "dag_wf (rc_dag cfg)"
  shows "Dec d \<in> set (state_signals cfg x) \<longleftrightarrow> x \<in> set (StateDependsOn (rc_dag cfg) d)"
  using assms by (auto simp: state_signals_def dag_wf_def)

lemma signals_only_dec:
  "Chk d \<notin> set (stream_signals cfg x)" "Snd d \<notin> set (stream_signals cfg x)"
  "Chk d \<notin> set (state_signals cfg x)" "Snd d \<notin> set (state_signals cfg x)"
  by (auto simp: stream_signals_def state_signals_def)

lemma count_list_distinct: "distinct xs \<Longrightarrow> count_list xs a = of_bool (a \<in> set xs)"
  by (induction xs) auto

lemma signals_distinct:
  assumes "permutes (rc_rng cfg)" and "dag_wf (rc_dag cfg)"
  shows "distinct (stream_signals cfg x)" and "distinct (state_signals cfg x)"
  using assms unfolding stream_signals_def state_signals_def dag_wf_def
  by (simp_all add: distinct_map inj_on_def)

lemma count_signals:
  assumes "permutes (rc_rng cfg)" and "dag_wf (rc_dag cfg)"
  shows "count_list (stream_signals cfg x) (Dec d) = of_bool (x \<in> set (StreamDependsOn (rc_dag cfg) d))"
    and "count_list (state_signals cfg x) (Dec d) = of_bool (x \<in> set (StateDependsOn (rc_dag cfg) d))"
  using assms by (simp_all add: count_list_distinct signals_distinct)

subsection \<open>Preservation: statuses and holders\<close>

lemma terminal_cases: "is_terminal st \<Longrightarrow> st \<noteq> StatusPending \<and> st \<noteq> StatusRunning"
  by (auto simp: is_terminal_def)

lemma ok_terminal: "is_ok st \<Longrightarrow> is_terminal st"
  by (auto simp: is_ok_def is_terminal_def)

lemma core_act_frame:
  assumes "core_act k a c = (new, c')"
  shows "c_status c' = c_status c" "c_disp c' = c_disp c" "c_held c' = c_held c" "c_started c' = c_started c"
    "term_in c' x = term_in c x" "ok_in c' x = ok_in c x" "\<forall>d. Dec d \<notin> set new"
  using assms by (cases "(k, a, c)" rule: core_act.cases; force simp: term_in_def ok_in_def split: if_splits)+

lemma status_inv_step: "core_step cfg c c' \<Longrightarrow> status_inv cfg c \<Longrightarrow> held_inv cfg c \<Longrightarrow> status_inv cfg c'"
proof (induction rule: core_step.induct)
  case (record_status x st syn R)
  then have "c_disp c x" "is_terminal st" by (auto simp: held_inv_def)
  with record_status.prems(1) show ?case by (auto simp: status_inv_def)
next
  case (dispatch x M)
  then have "map_of (rc_dag cfg) x \<noteq> None" unfolding status_inv_def by (metis option.distinct(1))
  with dispatch show ?case by (auto simp: status_inv_def)
qed (auto simp: status_inv_def core_act_frame)

lemma moves_phase_ok:
  assumes "moves cfg c x p p'" and "permutes (rc_rng cfg)" and "dag_wf (rc_dag cfg)" and "phase_ok cfg x p"
  shows "phase_ok cfg x p'"
  using assms by (cases rule: moves.cases) auto

lemma held_inv_step:
  assumes "core_step cfg c c'" and rng: "permutes (rc_rng cfg)" and wf: "dag_wf (rc_dag cfg)"
    and inv: "held_inv cfg c"
  shows "held_inv cfg c'"
  using assms(1)
proof cases
  case (move x p R p')
  have "phase_ok cfg x p'" by (rule moves_phase_ok [OF move(3) rng wf]) (use inv move(2) in \<open>auto simp: held_inv_def\<close>)
  with inv move(1,2) show ?thesis by (auto simp: held_inv_def)
next
  case (stream_act x a as R new c1)
  with inv core_act_frame [OF stream_act(3)] show ?thesis by (auto simp: held_inv_def)
next
  case (state_act x a as R new c1)
  with inv core_act_frame [OF state_act(3)] show ?thesis by (auto simp: held_inv_def)
qed (use inv rng wf in \<open>auto simp: held_inv_def\<close>)

lemma term_in_upd [simp]:
  "term_in (c\<lparr>c_held := H\<rparr>) x = term_in c x"
  "term_in (c\<lparr>c_ready := M\<rparr>) x = term_in c x"
  "term_in (c\<lparr>c_held := H, c_started := S\<rparr>) x = term_in c x"
  by (simp_all add: term_in_def)

lemma ok_in_upd [simp]:
  "ok_in (c\<lparr>c_held := H\<rparr>) x = ok_in c x"
  "ok_in (c\<lparr>c_ready := M\<rparr>) x = ok_in c x"
  "ok_in (c\<lparr>c_held := H, c_started := S\<rparr>) x = ok_in c x"
  by (simp_all add: ok_in_def)

lemma token_invD: "token_inv c \<Longrightarrow> wt pre_w (c_held c) x + of_bool (term_in c x) = of_bool (c_disp c x)"
  by (simp add: token_inv_def)

lemma start_invD: "start_inv c \<Longrightarrow> count (c_started c) x + wt wait_w (c_held c) x \<le> of_bool (c_disp c x)"
  by (simp add: start_inv_def)

lemma not_both_pre_and_term: "token_inv c \<Longrightarrow> (x, p) \<in># c_held c \<Longrightarrow> pre_w p = 1 \<Longrightarrow> \<not> term_in c x"
proof
  assume inv: "token_inv c" and "(x, p) \<in># c_held c" and p: "pre_w p = 1" and "term_in c x"
  then obtain R where "c_held c = add_mset (x, p) R" using multi_member_split by metis
  then have "wt pre_w (c_held c) x \<ge> 1" using p by simp
  with inv \<open>term_in c x\<close> show False unfolding token_inv_def
    by (metis Suc_eq_plus1 of_bool_eq(2) of_bool_less_eq_one One_nat_def not_less_eq_eq)
qed

lemma moves_pre: "moves cfg c x p p' \<Longrightarrow> (\<not> term_in c x \<longrightarrow> pre_w p' = pre_w p) \<and> pre_w p' \<le> pre_w p"
  by (cases rule: moves.cases) auto

lemma token_inv_cong:
  assumes "token_inv c" and "\<And>y. wt pre_w (c_held c') y = wt pre_w (c_held c) y"
    and "\<And>y. term_in c' y = term_in c y" and "c_disp c' = c_disp c"
  shows "token_inv c'"
  using assms by (simp only: token_inv_def) blast

lemma start_inv_mono:
  assumes "start_inv c" and "\<And>y. wt wait_w (c_held c') y \<le> wt wait_w (c_held c) y"
    and "c_started c' = c_started c" and "c_disp c' = c_disp c"
  shows "start_inv c'"
  using assms unfolding start_inv_def by (metis add_left_mono order_trans)

lemma token_inv_step:
  assumes "core_step cfg c c'" and st: "status_inv cfg c" and h: "held_inv cfg c" and inv: "token_inv c"
  shows "token_inv c'"
  using assms(1)
proof cases
  case (dispatch x M)
  then have "\<not> term_in c x" by (simp add: term_in_def is_terminal_def)
  moreover have "wt pre_w (c_held c) x = 0" using dispatch(3) token_invD [OF inv, of x] by simp
  moreover have "term_in c' y = (y \<noteq> x \<and> term_in c y)" for y
    using dispatch by (simp add: term_in_def is_terminal_def)
  ultimately show ?thesis using dispatch token_invD [OF inv]
    by (auto simp: token_inv_def)
next
  case (move x p R p')
  have "pre_w p' = pre_w p"
    using moves_pre [OF move(3)] not_both_pre_and_term [OF inv, of x p] move(2)
    by (cases p; auto)
  with move show ?thesis by (intro token_inv_cong [OF inv]) simp_all
next
  case (leave x p R)
  have "pre_w PEnd = pre_w p"
    using moves_pre [OF leave(3)] not_both_pre_and_term [OF inv, of x p] leave(2)
    by (cases p; auto)
  with leave show ?thesis by (intro token_inv_cong [OF inv]) simp_all
next
  case (record_status x st syn R)
  then have *: "\<not> term_in c x" using not_both_pre_and_term [OF inv, of x "PBegin st syn"] by simp
  have "is_terminal st" using h record_status by (auto simp: held_inv_def)
  then have t: "term_in c' y = (y = x \<or> term_in c y)" for y
    using record_status by (simp add: term_in_def)
  have w: "wt pre_w (c_held c) y = of_bool (y = x) + wt pre_w (c_held c') y" for y using record_status by simp
  have "c_disp c' = c_disp c" using record_status by simp
  then have "wt pre_w (c_held c') y + of_bool (term_in c' y) = of_bool (c_disp c' y)" for y
    using token_invD [OF inv, of y] * unfolding w t by (cases "y = x") simp_all
  then show ?thesis by (simp only: token_inv_def) blast
next
  case (stream_act x a as R new c1)
  with core_act_frame [OF stream_act(3)] show ?thesis by (intro token_inv_cong [OF inv]) simp_all
next
  case (state_act x a as R new c1)
  with core_act_frame [OF state_act(3)] show ?thesis by (intro token_inv_cong [OF inv]) simp_all
qed (use inv in \<open>auto intro: token_inv_cong\<close>)

lemma start_inv_step:
  assumes "core_step cfg c c'" and inv: "start_inv c"
  shows "start_inv c'"
  using assms(1)
proof cases
  case (move x p R p')
  have "wait_w p' \<le> wait_w p" using move(3) by cases auto
  with move show ?thesis by (intro start_inv_mono [OF inv]) simp_all
next
  case (stream_act x a as R new c1)
  with core_act_frame [OF stream_act(3)] show ?thesis by (intro start_inv_mono [OF inv]) simp_all
next
  case (state_act x a as R new c1)
  with core_act_frame [OF state_act(3)] show ?thesis by (intro start_inv_mono [OF inv]) simp_all
next
  case (dispatch x M)
  have "count (c_started c') y + wt wait_w (c_held c') y \<le> of_bool (c_disp c' y)" for y
    using start_invD [OF inv, of y] dispatch by (cases "y = x") simp_all
  then show ?thesis by (simp only: start_inv_def) blast
next
  case (start x R)
  have "count (c_started c') y + wt wait_w (c_held c') y = count (c_started c) y + wt wait_w (c_held c) y" for y
    using start by simp
  moreover have "c_disp c' = c_disp c" using start by simp
  ultimately show ?thesis using start_invD [OF inv] by (simp add: start_inv_def)
qed (use inv in \<open>auto intro: start_inv_mono\<close>)

subsection \<open>Preservation: counters\<close>

definition state_bill :: "core \<Rightarrow> string \<Rightarrow> string \<Rightarrow> nat" where
  "state_bill c d p = of_bool (\<not> ok_in c p) + wt (state_debt d) (c_held c) p"

definition stream_bill :: "core \<Rightarrow> string \<Rightarrow> string \<Rightarrow> nat" where
  "stream_bill c d p = of_bool (\<not> c_disp c p) + wt (stream_debt d) (c_held c) p"

lemma state_left_bill: "state_left cfg c d = (\<Sum>p \<in> set (StateDependsOn (rc_dag cfg) d). state_bill c d p)"
  by (simp add: state_left_def state_bill_def)

lemma stream_left_bill: "stream_left cfg c d = (\<Sum>p \<in> set (StreamDependsOn (rc_dag cfg) d). stream_bill c d p)"
  by (simp add: stream_left_def stream_bill_def)

lemma count_inv_cong:
  assumes "count_inv cfg c" and "c_state c' = c_state c" and "c_stream c' = c_stream c"
    and "\<And>d p. p \<in> set (StateDependsOn (rc_dag cfg) d) \<Longrightarrow> state_bill c' d p = state_bill c d p"
    and "\<And>d p. p \<in> set (StreamDependsOn (rc_dag cfg) d) \<Longrightarrow> stream_bill c' d p = stream_bill c d p"
  shows "count_inv cfg c'"
  using assms by (simp add: count_inv_def state_left_bill stream_left_bill cong: sum.cong)

lemma sum_drop_one:
  assumes "finite A" and "x \<in> A" and "f x = Suc (g x)" and "\<And>y. y \<noteq> x \<Longrightarrow> f y = g y"
  shows "sum f A = Suc (sum g A)"
  using assms by (simp add: sum.remove [of A x])

lemma count_list_no_dec: "\<forall>d. Dec d \<notin> set as \<Longrightarrow> count_list as (Dec d) = 0"
  by (simp add: count_list_0_iff)

lemma moves_state_debt:
  assumes "moves cfg c x p p'" and "permutes (rc_rng cfg)" and "dag_wf (rc_dag cfg)"
    and "x \<in> set (StateDependsOn (rc_dag cfg) d)" and "map_of (rc_dag cfg) x \<noteq> None"
  shows "state_debt d p' = state_debt d p"
  using assms(1) by cases (use assms in \<open>simp_all add: count_signals\<close>)

lemma moves_stream_debt:
  assumes "moves cfg c x p p'"
  shows "stream_debt d p' = stream_debt d p"
  using assms by cases simp_all

lemma held_key: "held_inv cfg c \<Longrightarrow> status_inv cfg c \<Longrightarrow> (x, p) \<in># c_held c \<Longrightarrow> map_of (rc_dag cfg) x \<noteq> None"
  by (simp add: held_inv_def status_inv_def)

lemma count_act:
  assumes act: "core_act k a c = (new, c1)" and inv: "count_inv cfg c"
    and held: "c_held c = add_mset (x, if k then PSig (a # as) else PState (a # as)) R"
    and c': "c' = c1\<lparr>c_held := add_mset (x, if k then PSig (new @ as) else PState (new @ as)) R\<rparr>"
    and ok: "phase_ok cfg x (if k then PSig (a # as) else PState (a # as))"
  shows "count_inv cfg c'"
proof -
  note fr = core_act_frame [OF act]
  have new: "count_list new (Dec d) = 0" for d using fr by (simp add: count_list_no_dec)
  have st: "state_bill c d p = of_bool (\<not> k \<and> p = x \<and> a = Dec d) + state_bill c' d p" for d p
    using fr new by (simp add: state_bill_def c' held)
  have sm: "stream_bill c d p = of_bool (k \<and> p = x \<and> a = Dec d) + stream_bill c' d p" for d p
    using fr new by (simp add: stream_bill_def c' held)
  have "c_state c' d = int (state_left cfg c' d) \<and> c_stream c' d = int (stream_left cfg c' d)" for d
  proof (cases "a = Dec d")
    case False
    then have "c_state c' d = c_state c d" "c_stream c' d = c_stream c d"
      using act c' by (cases "(k, a, c)" rule: core_act.cases; auto)+
    with False st sm inv show ?thesis by (simp add: count_inv_def state_left_bill stream_left_bill)
  next
    case True
    show ?thesis
    proof (cases k)
      case True
      with \<open>a = Dec d\<close> have "x \<in> set (StreamDependsOn (rc_dag cfg) d)" using ok by simp
      then have "stream_left cfg c d = Suc (stream_left cfg c' d)"
        unfolding stream_left_bill by (intro sum_drop_one [of _ x]) (simp_all add: sm True \<open>a = Dec d\<close>)
      moreover have "state_left cfg c d = state_left cfg c' d" by (simp add: state_left_bill st True)
      moreover have "c_stream c' d = c_stream c d - 1 \<and> c_state c' d = c_state c d"
        using act c' True \<open>a = Dec d\<close> by auto
      ultimately show ?thesis using inv unfolding count_inv_def by simp
    next
      case False
      with \<open>a = Dec d\<close> have "x \<in> set (StateDependsOn (rc_dag cfg) d)" using ok by simp
      then have "state_left cfg c d = Suc (state_left cfg c' d)"
        unfolding state_left_bill by (intro sum_drop_one [of _ x]) (simp_all add: st False \<open>a = Dec d\<close>)
      moreover have "stream_left cfg c d = stream_left cfg c' d" by (simp add: stream_left_bill sm False)
      moreover have "c_state c' d = c_state c d - 1 \<and> c_stream c' d = c_stream c d"
        using act c' False \<open>a = Dec d\<close> by auto
      ultimately show ?thesis using inv unfolding count_inv_def by simp
    qed
  qed
  then show ?thesis by (simp add: count_inv_def)
qed

lemma count_inv_step:
  assumes "core_step cfg c c'" and rng: "permutes (rc_rng cfg)" and wf: "dag_wf (rc_dag cfg)"
    and st: "status_inv cfg c" and h: "held_inv cfg c" and tok: "token_inv c" and inv: "count_inv cfg c"
  shows "count_inv cfg c'"
  using assms(1)
proof cases
  case (dispatch x M)
  have "ok_in c' p = ok_in c p" for p using dispatch by (simp add: ok_in_def is_ok_def)
  then have "state_bill c' d p = state_bill c d p" for d p
    using dispatch by (simp add: state_bill_def)
  moreover have "stream_bill c' d p = stream_bill c d p" if "p \<in> set (StreamDependsOn (rc_dag cfg) d)" for d p
    using dispatch that by (cases "p = x") (simp_all add: stream_bill_def count_signals [OF rng wf])
  ultimately show ?thesis using dispatch by (intro count_inv_cong [OF inv]) simp_all
next
  case (move x p R p')
  have "map_of (rc_dag cfg) x \<noteq> None" using held_key [OF h st, of x p] move(2) by simp
  with move show ?thesis
    by (intro count_inv_cong [OF inv])
      (auto simp: state_bill_def stream_bill_def moves_state_debt [OF move(3) rng wf] moves_stream_debt [OF move(3)])
next
  case (leave x p R)
  have "map_of (rc_dag cfg) x \<noteq> None" using held_key [OF h st, of x p] leave(2) by simp
  then have "x \<in> set (StateDependsOn (rc_dag cfg) d) \<Longrightarrow> state_debt d p = 0" for d
    using moves_state_debt [OF leave(3) rng wf, of d] by simp
  moreover have "stream_debt d p = 0" for d using moves_stream_debt [OF leave(3)] by (metis stream_debt.simps(7))
  ultimately show ?thesis using leave
    by (intro count_inv_cong [OF inv]) (auto simp: state_bill_def stream_bill_def)
next
  case (start x R)
  then show ?thesis by (intro count_inv_cong [OF inv]) (simp_all add: state_bill_def stream_bill_def)
next
  case (record_status x st syn R)
  then have "\<not> term_in c x" using not_both_pre_and_term [OF tok, of x "PBegin st syn"] by simp
  then have "\<not> ok_in c x" by (auto simp: ok_in_def term_in_def ok_terminal split: option.splits)
  moreover have "ok_in c' p = (if p = x then is_ok st else ok_in c p)" for p
    using record_status by (simp add: ok_in_def)
  ultimately have "state_bill c' d p = state_bill c d p" for d p
    using record_status by (cases "p = x") (simp_all add: state_bill_def)
  with record_status show ?thesis by (intro count_inv_cong [OF inv]) (simp_all add: stream_bill_def)
next
  case (stream_act x a as R new c1)
  show ?thesis
    by (rule count_act [where k = True, OF stream_act(3) inv]) (use stream_act h in \<open>auto simp: held_inv_def\<close>)
next
  case (state_act x a as R new c1)
  show ?thesis
    by (rule count_act [where k = False, OF state_act(3) inv]) (use state_act h in \<open>auto simp: held_inv_def\<close>)
next
  case (ignore x M)
  then show ?thesis by (intro count_inv_cong [OF inv]) (simp_all add: state_bill_def stream_bill_def)
qed (use inv in simp)


subsection \<open>Preservation: readiness\<close>

text \<open>Counters only go down, and not below 0: a signal still owed keeps its counter positive.\<close>

lemma dec_positive:
  assumes inv: "count_inv cfg c"
    and held: "c_held c = add_mset (x, if k then PSig (Dec d # as) else PState (Dec d # as)) R"
    and ok: "phase_ok cfg x (if k then PSig (Dec d # as) else PState (Dec d # as))"
  shows "if k then c_stream c d > 0 else c_state c d > 0"
proof (cases k)
  case True
  then have x: "x \<in> set (StreamDependsOn (rc_dag cfg) d)" using ok by simp
  have "stream_bill c d x > 0" using held True by (simp add: stream_bill_def)
  then have "stream_left cfg c d > 0" unfolding stream_left_bill using x by (auto simp: sum_eq_0_iff intro: gr0I)
  then show ?thesis using inv True by (simp add: count_inv_def)
next
  case False
  then have x: "x \<in> set (StateDependsOn (rc_dag cfg) d)" using ok by simp
  have "state_bill c d x > 0" using held False by (simp add: state_bill_def)
  then have "state_left cfg c d > 0" unfolding state_left_bill using x by (auto simp: sum_eq_0_iff intro: gr0I)
  then show ?thesis using inv False by (simp add: count_inv_def)
qed

lemma act_both_zero:
  assumes act: "core_act k a c = (new, c1)" and inv: "count_inv cfg c"
    and held: "c_held c = add_mset (x, if k then PSig (a # as) else PState (a # as)) R"
    and ok: "phase_ok cfg x (if k then PSig (a # as) else PState (a # as))"
    and z: "both_zero c d"
  shows "both_zero c1 d \<and> Dec d \<noteq> a"
proof (cases "(k, a, c)" rule: core_act.cases)
  case (1 d' c')
  then have "c_stream c d' > 0" using dec_positive [OF inv, of x k d' as R] held ok by simp
  with z 1 act show ?thesis by (auto simp: both_zero_def)
next
  case (2 d' c')
  then have "c_state c d' > 0" using dec_positive [OF inv, of x k d' as R] held ok by simp
  with z 2 act show ?thesis by (auto simp: both_zero_def)
qed (use z act in \<open>auto simp: both_zero_def\<close>)

lemma planned_add:
  "c_held c = add_mset (x, p) R \<Longrightarrow> planned a c \<longleftrightarrow> a \<in> set (acts p) \<or> (\<exists>y q. (y, q) \<in># R \<and> a \<in> set (acts q))"
  by (auto simp: planned_def)

lemma both_zero_upd [simp]:
  "both_zero (c\<lparr>c_held := H\<rparr>) d = both_zero c d"
  "both_zero (c\<lparr>c_ready := M\<rparr>) d = both_zero c d"
  by (simp_all add: both_zero_def)

lemma moves_acts:
  assumes "moves cfg c x p p'" and "\<not> (\<exists>d. a = Dec d)"
  shows "a \<in> set (acts p') \<longleftrightarrow> a \<in> set (acts p)"
  using assms by cases (cases a; simp add: signals_only_dec)+

text \<open>What an action plans, does and leaves planned.\<close>

lemma core_act_zero_inv:
  assumes act: "core_act k a c = (new, c1)" and inv: "zero_inv c" and cnt: "count_inv cfg c"
    and held: "c_held c = add_mset (x, if k then PSig (a # as) else PState (a # as)) R"
    and ok: "phase_ok cfg x (if k then PSig (a # as) else PState (a # as))"
    and c': "c' = c1\<lparr>c_held := add_mset (x, if k then PSig (new @ as) else PState (new @ as)) R\<rparr>"
  shows "zero_inv c'"
  unfolding zero_inv_def
proof (intro allI impI)
  fix d
  assume d: "c_disp c' d \<or> d \<in># c_ready c' \<or> planned (Snd d) c'"
  have pl': "planned (Snd d) c' \<longleftrightarrow> Snd d \<in> set (new @ as) \<or> (\<exists>y q. (y, q) \<in># R \<and> Snd d \<in> set (acts q))"
    by (subst planned_add [of _ x "if k then PSig (new @ as) else PState (new @ as)" R]) (auto simp: c')
  have pl: "planned (Snd d) c \<longleftrightarrow> Snd d \<in> set (a # as) \<or> (\<exists>y q. (y, q) \<in># R \<and> Snd d \<in> set (acts q))"
    by (subst planned_add [OF held]) auto
  have "both_zero c d"
  proof (cases "c_disp c d \<or> d \<in># c_ready c \<or> planned (Snd d) c")
    case True
    with inv show ?thesis by (auto simp: zero_inv_def)
  next
    case False
    with d pl pl' c' act show ?thesis
      by (cases "(k, a, c)" rule: core_act.cases; auto simp: both_zero_def split: if_splits)
  qed
  then have "both_zero c1 d" using act_both_zero [OF act cnt held ok] by simp
  then show "both_zero c' d" by (simp add: c')
qed

lemma zero_inv_cong:
  assumes "zero_inv c" and "\<And>d. both_zero c' d = both_zero c d"
    and "\<And>d. c_disp c' d \<or> d \<in># c_ready c' \<or> planned (Snd d) c' \<Longrightarrow>
      c_disp c d \<or> d \<in># c_ready c \<or> planned (Snd d) c"
  shows "zero_inv c'"
  using assms unfolding zero_inv_def by metis

lemma zero_inv_step:
  assumes "core_step cfg c c'" and h: "held_inv cfg c" and cnt: "count_inv cfg c" and inv: "zero_inv c"
  shows "zero_inv c'"
  using assms(1)
proof cases
  case (dispatch x M)
  have "planned (Snd d) c' \<longleftrightarrow> planned (Snd d) c" for d
    using dispatch by (auto simp: planned_def signals_only_dec)
  with dispatch show ?thesis by (intro zero_inv_cong [OF inv]) (auto simp: both_zero_def split: if_splits)
next
  case (move x p R p')
  have "planned (Snd d) c' \<longleftrightarrow> planned (Snd d) c" for d
    using planned_add [of c' x p' R] planned_add [OF move(2)] moves_acts [OF move(3), of "Snd d"] move(1) by simp
  with move show ?thesis by (intro zero_inv_cong [OF inv]) auto
next
  case (leave x p R)
  then show ?thesis by (intro zero_inv_cong [OF inv]) (auto simp: planned_def)
next
  case (start x R)
  then show ?thesis by (intro zero_inv_cong [OF inv]) (auto simp: both_zero_def planned_def)
next
  case (record_status x st syn R)
  then show ?thesis by (intro zero_inv_cong [OF inv]) (auto simp: both_zero_def planned_def)
next
  case (stream_act x a as R new c1)
  show ?thesis
    by (rule core_act_zero_inv [where k = True, OF stream_act(3) inv cnt])
      (use stream_act h in \<open>auto simp: held_inv_def\<close>)
next
  case (state_act x a as R new c1)
  show ?thesis
    by (rule core_act_zero_inv [where k = False, OF state_act(3) inv cnt])
      (use state_act h in \<open>auto simp: held_inv_def\<close>)
next
  case (ignore x M)
  then show ?thesis by (intro zero_inv_cong [OF inv]) (auto simp: planned_def)
qed (use inv in simp)

text \<open>No wake-up is lost.\<close>

lemma wake_inv_cong:
  assumes "wake_inv cfg c" and "\<And>d. both_zero c' d = both_zero c d"
    and "\<And>d. map_of (rc_dag cfg) d \<noteq> None \<Longrightarrow> c_disp c d \<or> d \<in># c_ready c \<or> planned (Chk d) c \<or> planned (Snd d) c \<Longrightarrow>
      c_disp c' d \<or> d \<in># c_ready c' \<or> planned (Chk d) c' \<or> planned (Snd d) c'"
  shows "wake_inv cfg c'"
  using assms unfolding wake_inv_def by metis

lemma core_act_wake_inv:
  assumes act: "core_act k a c = (new, c1)" and inv: "wake_inv cfg c"
    and held: "c_held c = add_mset (x, if k then PSig (a # as) else PState (a # as)) R"
    and c': "c' = c1\<lparr>c_held := add_mset (x, if k then PSig (new @ as) else PState (new @ as)) R\<rparr>"
  shows "wake_inv cfg c'"
  unfolding wake_inv_def
proof (intro allI impI)
  fix d
  assume d: "map_of (rc_dag cfg) d \<noteq> None \<and> both_zero c' d"
  then have z: "both_zero c1 d" by (simp add: c')
  have pl': "planned b c' \<longleftrightarrow> b \<in> set (new @ as) \<or> (\<exists>y q. (y, q) \<in># R \<and> b \<in> set (acts q))" for b
    by (subst planned_add [of _ x "if k then PSig (new @ as) else PState (new @ as)" R]) (auto simp: c')
  have pl: "planned b c \<longleftrightarrow> b \<in> set (a # as) \<or> (\<exists>y q. (y, q) \<in># R \<and> b \<in> set (acts q))" for b
    by (subst planned_add [OF held]) auto
  note fr = core_act_frame(2) [OF act]
  show "c_disp c' d \<or> d \<in># c_ready c' \<or> planned (Chk d) c' \<or> planned (Snd d) c'"
  proof (cases "both_zero c d")
    case True
    then have "c_disp c d \<or> d \<in># c_ready c \<or> planned (Chk d) c \<or> planned (Snd d) c"
      using inv d by (simp add: wake_inv_def)
    with act True show ?thesis unfolding pl pl'
      by (cases "(k, a, c)" rule: core_act.cases; auto simp: c' both_zero_def)
  next
    case False
    with act z have "Chk d \<in> set new"
      by (cases "(k, a, c)" rule: core_act.cases; auto simp: both_zero_def split: if_splits)
    then show ?thesis by (simp add: pl')
  qed
qed

lemma wake_inv_step:
  assumes "core_step cfg c c'" and st: "status_inv cfg c" and inv: "wake_inv cfg c"
  shows "wake_inv cfg c'"
  using assms(1)
proof cases
  case (ignore x M)
  have "c_disp c x" if "map_of (rc_dag cfg) x \<noteq> None"
    using ignore(3) st that unfolding status_inv_def by (metis)
  with ignore show ?thesis by (intro wake_inv_cong [OF inv]) (auto simp: planned_def)
next
  case (dispatch x M)
  then show ?thesis by (intro wake_inv_cong [OF inv]) (auto simp: both_zero_def planned_def)
next
  case (move x p R p')
  have "planned (Snd d) c' \<longleftrightarrow> planned (Snd d) c" "planned (Chk d) c' \<longleftrightarrow> planned (Chk d) c" for d
    using planned_add [of c' x p' R] planned_add [OF move(2)] moves_acts [OF move(3)] move(1) by simp_all
  with move show ?thesis by (intro wake_inv_cong [OF inv]) auto
next
  case (leave x p R)
  have "planned (Snd d) c' \<longleftrightarrow> planned (Snd d) c" "planned (Chk d) c' \<longleftrightarrow> planned (Chk d) c" for d
    using planned_add [OF leave(2)] moves_acts [OF leave(3)] leave(1) by (simp_all add: planned_def)
  with leave show ?thesis by (intro wake_inv_cong [OF inv]) auto
next
  case (start x R)
  then show ?thesis by (intro wake_inv_cong [OF inv]) (auto simp: both_zero_def planned_def)
next
  case (record_status x st syn R)
  then show ?thesis by (intro wake_inv_cong [OF inv]) (auto simp: both_zero_def planned_def)
next
  case (stream_act x a as R new c1)
  show ?thesis
    by (rule core_act_wake_inv [where k = True, OF stream_act(3) inv]) (use stream_act in auto)
next
  case (state_act x a as R new c1)
  show ?thesis
    by (rule core_act_wake_inv [where k = False, OF state_act(3) inv]) (use state_act in auto)
qed (use inv in simp)

end
