(* ===== verification/Gxo_Run.thy ===== *)
theory Gxo_Run
  imports Gxo_Progress
begin

text \<open>
  What every run keeps: the invariants of the abstract scheduler lifted to the reachable states
  of the engine, the wait group, and the outcome. From them: a task starts at most once, only
  after its producers, a final status is final, nothing is left behind when a run goes quiet,
  and a nil outcome means that every task completed or was skipped.
\<close>

subsection \<open>Reachable states keep the invariants\<close>

definition core_inv :: "run_cfg \<Rightarrow> core \<Rightarrow> bool" where
  "core_inv cfg c \<longleftrightarrow> status_inv cfg c \<and> held_inv cfg c \<and> token_inv c \<and> start_inv c \<and> count_inv cfg c \<and>
     zero_inv c \<and> wake_inv cfg c"

lemma core_inv_step:
  assumes "core_step cfg c c'" and "permutes (rc_rng cfg)" and "dag_wf (rc_dag cfg)" and "core_inv cfg c"
  shows "core_inv cfg c'"
  using assms status_inv_step [OF assms(1)] held_inv_step [OF assms(1-3)] token_inv_step [OF assms(1)]
    start_inv_step [OF assms(1)] count_inv_step [OF assms(1-3)] zero_inv_step [OF assms(1)] wake_inv_step [OF assms(1)]
  by (simp add: core_inv_def)

text \<open>A run of a graph as \<open>BuildDAG\<close> returns it: the counters start at the sizes of the
  dependency sets and the ready list holds the nodes without dependencies.\<close>

definition run_ok :: "run_cfg \<Rightarrow> string list \<Rightarrow> bool" where
  "run_ok cfg ready \<longleftrightarrow> permutes (rc_rng cfg) \<and> dag_wf (rc_dag cfg) \<and>
     (\<forall>x n. map_of (rc_dag cfg) x = Some n \<longrightarrow>
        nd_StreamDepsRemaining n = int (card (set (nd_StreamDependsOn n))) \<and>
        nd_StateDepsRemaining n = int (card (set (nd_StateDependsOn n)))) \<and>
     set ready = {x \<in> set (keys (rc_dag cfg)). case map_of (rc_dag cfg) x of None \<Rightarrow> False | Some n \<Rightarrow> node_ready n}"

lemma built_run_ok:
  assumes dag: "dag_of_playbook extract pb (rc_dag cfg)" and "set ready = initially_ready extract pb"
    and "permutes (rc_rng cfg)"
  shows "run_ok cfg ready"
proof -
  have "nd_StreamDepsRemaining n = int (card (set (nd_StreamDependsOn n))) \<and>
      nd_StateDepsRemaining n = int (card (set (nd_StateDependsOn n)))"
    if "map_of (rc_dag cfg) x = Some n" for x n
  proof -
    have "x \<in> set (keys (rc_dag cfg))" using that by (auto simp: in_keys_conv)
    then have "x \<in> set (task_ids pb)" using dag by (simp add: dag_of_playbook_def)
    then obtain task where "task \<in> set (pb_Tasks pb)" "x = tk_InternalID task" by (auto simp: task_ids_def)
    with dag that show ?thesis by (fastforce simp: dag_of_playbook_def node_of_task_def)
  qed
  with assms ready_nodes [OF dag] show ?thesis by (simp add: run_ok_def dag_of_playbook_def)
qed

lemma workers_held_idle [simp]: "workers_held (replicate n WIdle) = {#}"
  by (induction n) simp_all

lemma start_core:
  "core_of (start_state cfg vars ready s ctx) =
     \<lparr>c_status = (\<lambda>x. if map_of (rc_dag cfg) x = None then None else Some StatusPending),
      c_disp = (\<lambda>x. False),
      c_stream = (\<lambda>x. case map_of (rc_dag cfg) x of None \<Rightarrow> 0 | Some nd \<Rightarrow> nd_StreamDepsRemaining nd),
      c_state = (\<lambda>x. case map_of (rc_dag cfg) x of None \<Rightarrow> 0 | Some nd \<Rightarrow> nd_StateDepsRemaining nd),
      c_ready = mset ready, c_held = {#}, c_started = {#}\<rparr>"
  by (simp add: core_of_def core_with_def held_def start_state_def)

lemma ok_in_start:
  "c_status c = (\<lambda>x. if P x then None else Some StatusPending) \<Longrightarrow> \<not> ok_in c p"
  "c_status c = (\<lambda>x. if P x then None else Some StatusPending) \<Longrightarrow> \<not> term_in c p"
  by (simp_all add: ok_in_def term_in_def is_ok_def is_terminal_def)

lemma start_inv_all:
  assumes "run_ok cfg ready"
  shows "core_inv cfg (core_of (start_state cfg vars ready s ctx))"
proof -
  let ?c = "core_of (start_state cfg vars ready s ctx)"
  note c = start_core [of cfg vars ready s ctx]
  have nt: "\<not> ok_in ?c p" "\<not> term_in ?c p" for p
    using ok_in_start [of ?c "\<lambda>x. map_of (rc_dag cfg) x = None"] by (simp_all add: c)
  have zero: "both_zero ?c d \<and> map_of (rc_dag cfg) d \<noteq> None \<longleftrightarrow> d \<in> set ready" for d
    using assms by (cases "map_of (rc_dag cfg) d")
      (auto simp: run_ok_def both_zero_def c node_ready_def in_keys_conv)
  have "state_left cfg ?c d = card (set (StateDependsOn (rc_dag cfg) d))"
    "stream_left cfg ?c d = card (set (StreamDependsOn (rc_dag cfg) d))" for d
    by (simp_all add: state_left_def stream_left_def nt) (simp_all add: c)
  then have "count_inv cfg ?c"
    using assms unfolding count_inv_def run_ok_def
    by (auto simp: c StateDependsOn_def StreamDependsOn_def split: option.splits)
  moreover have "status_inv cfg ?c" by (simp add: status_inv_def c)
  moreover have "held_inv cfg ?c" "start_inv ?c" by (simp_all add: held_inv_def start_inv_def c)
  moreover have "token_inv ?c" by (simp add: token_inv_def nt) (simp add: c)
  moreover have "zero_inv ?c" unfolding zero_inv_def using zero by (auto simp: planned_def c)
  moreover have "wake_inv cfg ?c" unfolding wake_inv_def using zero by (auto simp: c)
  ultimately show ?thesis by (simp add: core_inv_def)
qed

text \<open>The states a run reaches from its start.\<close>

definition run_reaches :: "run_cfg \<Rightarrow> string list \<Rightarrow> engine \<Rightarrow> bool" where
  "run_reaches cfg ready e \<longleftrightarrow> (\<exists>vars s ctx. reachable cfg (start_state cfg vars ready s ctx) e)"

lemma run_induct [consumes 1, case_names start step]:
  assumes "run_reaches cfg ready e" and "\<And>vars s ctx. P (start_state cfg vars ready s ctx)"
    and "\<And>e l e'. run_reaches cfg ready e \<Longrightarrow> P e \<Longrightarrow> fire cfg l e = Some e' \<Longrightarrow> P e'"
  shows "P e"
proof -
  obtain vars s ctx where "reachable cfg (start_state cfg vars ready s ctx) e"
    using assms(1) by (auto simp: run_reaches_def)
  then show ?thesis
    by (induction rule: reachable.induct) (use assms(2,3) in \<open>unfold run_reaches_def, blast+\<close>)
qed

lemma run_core_inv:
  assumes "run_ok cfg ready" and "run_reaches cfg ready e"
  shows "core_inv cfg (core_of e)"
  using assms(2)
proof (induction rule: run_induct)
  case (start vars s ctx)
  show ?case by (rule start_inv_all [OF assms(1)])
next
  case (step e l e')
  with assms(1) show ?case by (auto simp: run_ok_def intro: core_inv_step [OF fire_core])
qed

lemma core_of_fields [simp]:
  "c_status (core_of e) = en_statuses e" "c_disp (core_of e) = en_dispatched e"
  "c_stream (core_of e) = en_stream e" "c_state (core_of e) = en_state e"
  "c_ready (core_of e) = mset (en_ready e)" "c_held (core_of e) = held e"
  "c_started (core_of e) = sum_list (map start_of (en_events e))"
  "term_in (core_of e) x = status_is is_terminal e x" "ok_in (core_of e) x = status_is is_ok e x"
  by (simp_all add: core_of_def core_with_def term_in_def ok_in_def status_is_def)

subsection \<open>Each task once, after its producers\<close>

lemma count_start_of: "count (start_of ev) x = of_bool (ev = EvTaskStart x)"
  by (cases ev) auto

lemma count_starts:
  "count (sum_list (map start_of evs)) x = length (filter (\<lambda>ev. ev = EvTaskStart x) evs)"
  by (induction evs) (simp_all add: count_start_of)

lemma started_once:
  assumes "run_ok cfg ready" and "run_reaches cfg ready e"
  shows "length (filter (\<lambda>ev. ev = EvTaskStart x) (en_events e)) \<le> of_bool (en_dispatched e x)"
proof -
  have "start_inv (core_of e)" using run_core_inv [OF assms] by (simp add: core_inv_def)
  then have "count (sum_list (map start_of (en_events e))) x \<le> of_bool (en_dispatched e x)"
    unfolding start_inv_def by (metis add_leE core_of_fields(2,7))
  then show ?thesis by (simp only: count_starts)
qed

lemma dispatched_after_producers:
  assumes "run_ok cfg ready" and "run_reaches cfg ready e" and "en_dispatched e d"
  shows "(\<forall>p \<in> set (StateDependsOn (rc_dag cfg) d). status_is is_ok e p) \<and>
    (\<forall>p \<in> set (StreamDependsOn (rc_dag cfg) d). en_dispatched e p)"
proof -
  have inv: "zero_inv (core_of e)" "count_inv cfg (core_of e)"
    using run_core_inv [OF assms(1,2)] by (simp_all add: core_inv_def)
  then have "en_stream e d = 0 \<and> en_state e d = 0" using assms(3) by (simp add: zero_inv_def both_zero_def)
  with inv(2) have "state_left cfg (core_of e) d = 0 \<and> stream_left cfg (core_of e) d = 0"
    unfolding count_inv_def by (metis core_of_fields(3,4) of_nat_eq_0_iff)
  then show ?thesis by (auto simp: state_left_def stream_left_def)
qed

text \<open>A final status is final, and every step keeps a dispatched task dispatched.\<close>

lemma core_step_final:
  assumes "core_step cfg c c'" and "token_inv c" and "term_in c x"
  shows "c_status c' x = c_status c x"
  using assms(1)
proof cases
  case (record_status y st syn R)
  then have "\<not> term_in c y" using not_both_pre_and_term [OF assms(2), of y "PBegin st syn"] by simp
  with record_status assms(3) show ?thesis by auto
next
  case (dispatch y M)
  then have "\<not> term_in c y" by (simp add: term_in_def is_terminal_def)
  with dispatch assms(3) show ?thesis by auto
qed (simp_all add: core_act_frame)

lemma final_status_kept:
  assumes "run_ok cfg ready" and "run_reaches cfg ready e" and "status_is is_terminal e x"
    and "fire cfg l e = Some e'"
  shows "en_statuses e' x = en_statuses e x"
  using core_step_final [OF fire_core [OF assms(4)], of x] run_core_inv [OF assms(1,2)] assms(3)
  by (simp add: core_inv_def)

subsection \<open>Nothing is left behind\<close>

text \<open>No goroutine works on a task and no id is on its way: what is still pending waits for a
  producer that failed or that itself waits.\<close>

definition quiet :: "engine \<Rightarrow> bool" where
  "quiet e \<longleftrightarrow> held e = {#}"

lemma status_of_task:
  assumes "core_inv cfg (core_of e)"
  shows "en_statuses e x = None \<longleftrightarrow> map_of (rc_dag cfg) x = None"
    and "en_dispatched e x \<Longrightarrow> map_of (rc_dag cfg) x \<noteq> None \<and>
      (\<exists>st. en_statuses e x = Some st \<and> (st = StatusRunning \<or> is_terminal st))"
    and "\<not> en_dispatched e x \<Longrightarrow> en_statuses e x = None \<or> en_statuses e x = Some StatusPending"
proof -
  have "status_inv cfg (core_of e)" using assms by (simp add: core_inv_def)
  from this [unfolded status_inv_def, THEN spec, of x]
  show "en_statuses e x = None \<longleftrightarrow> map_of (rc_dag cfg) x = None"
    and "en_dispatched e x \<Longrightarrow> map_of (rc_dag cfg) x \<noteq> None \<and>
      (\<exists>st. en_statuses e x = Some st \<and> (st = StatusRunning \<or> is_terminal st))"
    and "\<not> en_dispatched e x \<Longrightarrow> en_statuses e x = None \<or> en_statuses e x = Some StatusPending"
    by auto
qed

lemma quiet_not_running:
  assumes inv: "core_inv cfg (core_of e)" and q: "quiet e"
  shows "en_statuses e x \<noteq> Some StatusRunning"
proof
  assume r: "en_statuses e x = Some StatusRunning"
  have "wt pre_w (held e) x + of_bool (status_is is_terminal e x) = of_bool (en_dispatched e x)"
    using inv token_invD [of "core_of e" x] by (simp add: core_inv_def)
  moreover have "\<not> status_is is_terminal e x" using r by (simp add: status_is_def is_terminal_def)
  ultimately have "\<not> en_dispatched e x" using q by (auto simp: quiet_def)
  with status_of_task(3) [OF inv, of x] r show False by simp
qed

lemma producers_are_nodes:
  assumes "dag_wf dag" and "p \<in> set (StateDependsOn dag d) \<union> set (StreamDependsOn dag d)"
  shows "(p, d) \<in> dag_arcs dag \<and> p \<in> set (keys dag)"
  using assms dag_wf_closed [OF assms(1), of d p] by (auto simp: dag_arcs_def dag_wf_def)

lemma quiet_status:
  assumes inv: "core_inv cfg (core_of e)" and q: "quiet e" and x: "x \<in> set (keys (rc_dag cfg))"
    and "en_statuses e x \<noteq> Some StatusFailed" and "\<not> status_is is_ok e x"
  shows "en_statuses e x = Some StatusPending"
proof -
  have "map_of (rc_dag cfg) x \<noteq> None" using x by (auto simp: in_keys_conv)
  then obtain st where st: "en_statuses e x = Some st" using status_of_task(1) [OF inv, of x] by auto
  have "st \<noteq> StatusReady"
    using status_of_task(2,3) [OF inv, of x] st by (cases "en_dispatched e x") (auto simp: is_terminal_def)
  with st assms(4,5) quiet_not_running [OF inv q, of x] show ?thesis
    by (cases st) (auto simp: status_is_def is_ok_def)
qed

text \<open>A pending task of a quiet state with a positive state counter has a producer that is not done.\<close>

lemma blocked_by_state:
  assumes inv: "core_inv cfg (core_of e)" and q: "quiet e" and pos: "en_state e d > 0"
  shows "\<exists>p \<in> set (StateDependsOn (rc_dag cfg) d). \<not> status_is is_ok e p"
proof -
  have "count_inv cfg (core_of e)" using inv by (simp add: core_inv_def)
  then have "state_left cfg (core_of e) d > 0" using pos unfolding count_inv_def by (metis core_of_fields(4) of_nat_0_less_iff)
  then obtain p where "p \<in> set (StateDependsOn (rc_dag cfg) d)"
    "of_bool (\<not> ok_in (core_of e) p) + wt (state_debt d) (held e) p \<noteq> 0"
    unfolding state_left_def core_of_fields using sum.neutral by (metis (no_types, lifting) less_numeral_extra(3))
  with q show ?thesis by (auto simp: quiet_def)
qed

lemma no_descent:
  assumes wf: "dag_wf dag" and ac: "acyclic (dag_arcs dag)"
    and step: "\<And>d. d \<in> A \<Longrightarrow> d \<in> set (keys dag) \<and> (\<exists>p \<in> A. (p, d) \<in> dag_arcs dag)"
  shows "A = {}"
proof -
  have "dag_arcs dag \<subseteq> set (keys dag) \<times> set (keys dag)"
    using dag_wf_closed [OF wf] by (auto simp: dag_arcs_def)
  then have "finite (dag_arcs dag)" by (rule finite_subset) simp
  then have "wf (dag_arcs dag)" using ac by (rule finite_acyclic_wf)
  then show ?thesis using step unfolding wf_eq_minimal by (metis ex_in_conv)
qed


text \<open>
  When nothing is held and nothing is ready, a task that is not done waits for a producer that
  is not done; without a failed task every task is done.
\<close>

lemma quiet_left:
  assumes "quiet e"
  shows "state_left cfg (core_of e) d = 0 \<longleftrightarrow> (\<forall>p \<in> set (StateDependsOn (rc_dag cfg) d). status_is is_ok e p)"
    and "stream_left cfg (core_of e) d = 0 \<longleftrightarrow> (\<forall>p \<in> set (StreamDependsOn (rc_dag cfg) d). en_dispatched e p)"
  using assms by (auto simp: state_left_def stream_left_def quiet_def)

lemma waits_for:
  assumes ok: "run_ok cfg ready" and inv: "core_inv cfg (core_of e)" and q: "quiet e" and r: "en_ready e = []"
    and d: "d \<in> set (keys (rc_dag cfg))" "en_statuses e d = Some StatusPending"
  shows "\<exists>p. (p, d) \<in> dag_arcs (rc_dag cfg) \<and> p \<in> set (keys (rc_dag cfg)) \<and> \<not> status_is is_ok e p"
proof -
  have nd: "\<not> en_dispatched e d" using status_of_task(2) [OF inv, of d] d(2) by (auto simp: is_terminal_def)
  have "\<not> both_zero (core_of e) d"
  proof
    assume "both_zero (core_of e) d"
    moreover have "map_of (rc_dag cfg) d \<noteq> None" using d(1) by (auto simp: in_keys_conv)
    moreover have "wake_inv cfg (core_of e)" using inv by (simp add: core_inv_def)
    ultimately show False using nd r q by (auto simp: wake_inv_def planned_def quiet_def)
  qed
  moreover have cnt: "count_inv cfg (core_of e)" using inv by (simp add: core_inv_def)
  ultimately consider "state_left cfg (core_of e) d \<noteq> 0" | "stream_left cfg (core_of e) d \<noteq> 0"
    unfolding both_zero_def count_inv_def by (metis of_nat_eq_0_iff)
  then obtain p where p: "p \<in> set (StateDependsOn (rc_dag cfg) d) \<union> set (StreamDependsOn (rc_dag cfg) d)"
    and "\<not> status_is is_ok e p \<or> \<not> en_dispatched e p"
    using quiet_left [OF q, of cfg d] by cases blast+
  then have "\<not> status_is is_ok e p"
    using status_of_task(3) [OF inv, of p] by (auto simp: status_is_def is_ok_def)
  then show ?thesis using producers_are_nodes p ok by (auto simp: run_ok_def)
qed

lemma quiet_all_ok:
  assumes ok: "run_ok cfg ready" and ac: "acyclic (dag_arcs (rc_dag cfg))" and inv: "core_inv cfg (core_of e)"
    and q: "quiet e" and nf: "\<And>x. x \<in> set (keys (rc_dag cfg)) \<Longrightarrow> en_statuses e x \<noteq> Some StatusFailed"
    and wait: "\<And>d. d \<in> set (keys (rc_dag cfg)) \<Longrightarrow> en_statuses e d = Some StatusPending \<Longrightarrow>
      \<exists>p. (p, d) \<in> dag_arcs (rc_dag cfg) \<and> p \<in> set (keys (rc_dag cfg)) \<and> \<not> status_is is_ok e p"
    and x: "x \<in> set (keys (rc_dag cfg))"
  shows "status_is is_ok e x"
proof -
  let ?A = "{d \<in> set (keys (rc_dag cfg)). \<not> status_is is_ok e d}"
  have "?A = {}"
  proof (rule no_descent [OF _ ac])
    show "dag_wf (rc_dag cfg)" using ok by (simp add: run_ok_def)
    fix d
    assume "d \<in> ?A"
    then have d: "d \<in> set (keys (rc_dag cfg))" "\<not> status_is is_ok e d" by simp_all
    then have "en_statuses e d = Some StatusPending" using quiet_status [OF inv q] nf by blast
    from wait [OF d(1) this] d(1) show "d \<in> set (keys (rc_dag cfg)) \<and> (\<exists>p \<in> ?A. (p, d) \<in> dag_arcs (rc_dag cfg))"
      by blast
  qed
  with x show ?thesis by blast
qed

subsection \<open>The wait group and the outcome\<close>

fun sched_waits :: "spc \<Rightarrow> nat" where
  "sched_waits (SBusy x Disp) = 1"
| "sched_waits _ = 0"

definition in_flight :: "engine \<Rightarrow> nat" where
  "in_flight e = sched_waits (en_sched e) + length (en_queue e) + size (workers_held (en_workers e))"

fun over :: "spc \<Rightarrow> bool" where
  "over SDecide = True"
| "over (SJoin r) = True"
| "over (SDone r) = True"
| "over _ = False"

definition outcome_inv :: "run_cfg \<Rightarrow> engine \<Rightarrow> bool" where
  "outcome_inv cfg e \<longleftrightarrow> en_running e = int (in_flight e) \<and>
     (over (en_sched e) \<and> en_firstFatal e = None \<longrightarrow> quiet e) \<and>
     (en_sched e = SJoin None \<or> en_sched e = SDone None \<longrightarrow>
        en_firstFatal e = None \<and> determineFinalOutcome cfg e = None)"

lemma quiet_iff: "quiet e \<longleftrightarrow> sched_held (en_sched e) = {#} \<and> en_queue e = [] \<and> workers_held (en_workers e) = {#}"
  by (auto simp: quiet_def held_def queue_held_def)

lemma sched_held_over: "over s \<Longrightarrow> sched_held s = {#}"
  by (cases s) simp_all

lemma size_workers_update:
  assumes "i < length ws"
  shows "size (workers_held (ws[i := w])) + size (worker_held (ws ! i)) = size (workers_held ws) + size (worker_held w)"
  using workers_held_update [OF assms] by auto

lemma size_worker_held: "size (worker_held w) = (case w of WBusy x st \<Rightarrow> 1 | _ \<Rightarrow> 0)"
  by (cases w) simp_all

text \<open>What the outcome reads.\<close>

lemma outcome_cong:
  "en_firstFatal e' = en_firstFatal e \<Longrightarrow> en_statuses e' = en_statuses e \<Longrightarrow> en_state e' = en_state e \<Longrightarrow>
     determineFinalOutcome cfg e' = determineFinalOutcome cfg e"
  by (simp only: determineFinalOutcome_def)

lemma outcome_None:
  "determineFinalOutcome cfg e = None \<longleftrightarrow> en_firstFatal e = None \<and>
     (\<forall>x \<in> set (keys (rc_dag cfg)). en_statuses e x \<noteq> Some StatusFailed \<and>
        (en_statuses e x = Some StatusPending \<longrightarrow> en_state e x > 0))"
  by (auto simp: determineFinalOutcome_def split: option.splits)

lemma worker_step_quiet:
  assumes "quiet e" and "fire_worker cfg l e = Some e'"
  shows "quiet e' \<and> en_statuses e' = en_statuses e \<and> en_state e' = en_state e"
proof -
  have q: "en_queue e = []" "workers_held (en_workers e) = {#}" using assms(1) by (simp_all add: quiet_iff)
  have idle: "worker_held (en_workers e ! i) = {#}" if "i < length (en_workers e)" for i
    using workers_held_update [OF that] q(2) by auto
  have upd: "workers_held ((en_workers e)[i := w]) = {#}" if "i < length (en_workers e)" "worker_held w = {#}" for i w
    using workers_held_update [OF that(1)] q(2) that(2) by auto
  show ?thesis
    using assms(2)
  proof (cases "(cfg, l, e)" rule: fire_worker.cases)
    case (3 cfg0 i e0)
    with assms(2) idle [of i] show ?thesis by (auto split: if_splits wpc.splits)
  next
    case (5 cfg0 i r v e0)
    with assms(2) idle [of i] show ?thesis by (auto split: if_splits wpc.splits)
  next
    case (1 cfg0 i e0)
    with assms(2) q show ?thesis by (auto split: bool.splits)
  next
    case (2 cfg0 i e0)
    with assms upd [of i WStop] show ?thesis by (auto simp: quiet_iff set_worker_def split: if_splits)
  next
    case (4 cfg0 i e0)
    with assms upd [of i WIdle] show ?thesis by (auto simp: quiet_iff set_worker_def split: if_splits)
  qed simp_all
qed

lemma do_act_fatal: "do_act cfg k a e = Some (new, e') \<Longrightarrow> en_firstFatal e' = en_firstFatal e"
  by (cases "(cfg, k, a, e)" rule: do_act.cases) (auto simp: dec_stream_def dec_state_def split: if_splits)

lemma handle_step_fatal:
  assumes "handle_step cfg x h e = Some (h', e')"
  shows "en_firstFatal e' = en_firstFatal e"
  using assms
  by (cases "(cfg, x, h, e)" rule: handle_step.cases)
    (auto simp: record_status_def announce_status_def writeTaskStatus_def send_fatal_def Let_def
      split: if_splits dest: do_act_fatal)

lemma worker_fatal:
  assumes "fire_worker cfg l e = Some e'"
  shows "en_firstFatal e' = en_firstFatal e \<and> en_sched e' = en_sched e"
proof -
  have "en_firstFatal e' = en_firstFatal e \<and> en_sched e' = en_sched e"
    if "worker_step cfg x st e = Some (st', e')" for x st st' e'
    using that by (cases "(cfg, x, st, e)" rule: worker_step.cases)
      (auto split: option.splits dest: handle_step_fatal handle_step_frame)
  with assms show ?thesis
    by (cases "(cfg, l, e)" rule: fire_worker.cases)
      (auto simp: set_worker_def task_result_def Let_def split: if_splits wpc.splits stage.splits bool.splits list.splits)
qed

lemma in_flight_worker:
  assumes "fire_worker cfg l e = Some e'"
  shows "int (in_flight e') - en_running e' = int (in_flight e) - en_running e"
proof (cases "(cfg, l, e)" rule: fire_worker.cases)
  case (1 cfg0 i e0)
  with assms obtain x xs where i: "i < length (en_workers e)" "en_workers e ! i = WIdle"
    "en_queue e = x # xs" "e' = set_worker i (WBusy x Got) (e\<lparr>en_queue := xs\<rparr>)"
    by (auto split: bool.splits list.splits)
  then show ?thesis using size_workers_update [OF i(1), of "WBusy x Got"]
    by (simp add: in_flight_def set_worker_def)
next
  case (2 cfg0 i e0)
  with assms have i: "i < length (en_workers e)" "en_workers e ! i = WIdle" "e' = set_worker i WStop e"
    by (auto split: if_splits)
  then show ?thesis using size_workers_update [OF i(1), of WStop] by (simp add: in_flight_def set_worker_def)
next
  case (3 cfg0 i e0)
  with assms obtain x st st' e1 where i: "i < length (en_workers e)" "en_workers e ! i = WBusy x st"
    and s: "worker_step cfg x st e = Some (st', e1)"
    and e': "e' = set_worker i (case st' of None \<Rightarrow> WLeaving | Some s \<Rightarrow> WBusy x s) e1"
    by (auto split: if_splits wpc.splits)
  have "en_running e1 = en_running e - (if st' = None then 1 else 0)"
    using s by (cases "(cfg, x, st, e)" rule: worker_step.cases)
      (auto split: option.splits dest: handle_step_frame)
  moreover have "en_queue e1 = en_queue e" "en_sched e1 = en_sched e" "en_workers e1 = en_workers e"
    using worker_step_core [OF s] by blast+
  ultimately show ?thesis
    using size_workers_update [OF i(1), of "case st' of None \<Rightarrow> WLeaving | Some s \<Rightarrow> WBusy x s"] i(2) e'
    by (cases st') (simp_all add: in_flight_def)
next
  case (4 cfg0 i e0)
  with assms have i: "i < length (en_workers e)" "en_workers e ! i = WLeaving"
    "e' = set_worker i WIdle (e\<lparr>en_active := en_active e - 1\<rparr>)"
    by (auto split: if_splits)
  then show ?thesis using size_workers_update [OF i(1), of WIdle] by (simp add: in_flight_def set_worker_def)
next
  case (5 cfg0 i r v e0)
  with assms obtain x where i: "i < length (en_workers e)" "en_workers e ! i = WBusy x Run"
    and e': "e' = set_worker i (WBusy x (fst (task_result cfg x r v e))) (snd (task_result cfg x r v e))"
    by (auto split: if_splits wpc.splits stage.splits prod.splits)
  have "en_running (snd (task_result cfg x r v e)) = en_running e" by (simp add: task_result_def Let_def)
  then show ?thesis using size_workers_update [OF i(1), of "WBusy x (fst (task_result cfg x r v e))"] i(2)
    by (simp add: e' in_flight_def)
qed (use assms in simp_all)

lemma note_fatal_fields [simp]:
  "en_firstFatal (note_fatal err e) \<noteq> None"
  "en_sched (note_fatal err e) = en_sched e" "en_running (note_fatal err e) = en_running e"
  "in_flight (note_fatal err e) = in_flight e" "quiet (note_fatal err e) = quiet e"
  by (simp_all add: note_fatal_def in_flight_def quiet_iff)

lemma cancelRun_fields [simp]:
  "en_firstFatal (cancelRun e) = en_firstFatal e"
  "en_sched (cancelRun e) = en_sched e" "en_running (cancelRun e) = en_running e"
  "in_flight (cancelRun e) = in_flight e" "quiet (cancelRun e) = quiet e"
  by (simp_all add: cancelRun_def in_flight_def quiet_iff)

lemma in_flight_sched:
  assumes "fire_sched cfg l e = Some e'"
  shows "int (in_flight e') - en_running e' = int (in_flight e) - en_running e"
proof (cases "(cfg, l, e)" rule: fire_sched.cases)
  case (1 cfg0 e0)
  with assms obtain x xs where l: "looping cfg e" "e' = dispatch cfg x (e\<lparr>en_ready := xs, en_stallChecks := 0\<rparr>)"
    by (auto split: bool.splits list.splits)
  then show ?thesis by (auto simp: dispatch_def writeTaskStatus_def in_flight_def looping_def)
next
  case (10 cfg0 e0)
  with assms have s: "sched_step cfg (en_sched e) e = Some e'" by simp
  show ?thesis
  proof (cases "(cfg, en_sched e, e)" rule: sched_step.cases)
    case (6 cfg1 x a as e1)
    then have "en_sched e = SBusy x (Sig (a # as))" by auto
    with s show ?thesis by (auto simp: in_flight_def dest: do_act_core)
  next
    case (7 cfg1 x h e1)
    then have "en_sched e = SBusy x (Hand h)" by auto
    with s show ?thesis by (auto simp: in_flight_def dest!: handle_step_frame split: option.splits)
  next
    case (4 cfg1 n a r e1)
    then have "en_sched e = STick3 n a r" by auto
    with s show ?thesis by (auto simp: tick_decision_def Let_def in_flight_def note_fatal_def cancelRun_def)
  qed (use s in \<open>auto simp: in_flight_def split: if_splits\<close>)
next
  case (6 cfg0 e0)
  with assms show ?thesis by (auto simp: in_flight_def split: spc.splits stage.splits option.splits)
next
  case (5 cfg0 e0)
  with assms show ?thesis by (auto simp: in_flight_def split: spc.splits stage.splits if_splits)
next
  case (9 cfg0 e0)
  with assms show ?thesis by (auto simp: in_flight_def note_fatal_def split: spc.splits option.splits)
qed (use assms in \<open>auto simp: in_flight_def looping_def note_fatal_def cancelRun_def
       split: if_splits bool.splits option.splits\<close>)

text \<open>How a scheduler's step can end the loop: only the three ends of the wait lead to a decision.\<close>

lemma over_step:
  assumes "fire_sched cfg l e = Some e'" and "over (en_sched e')"
  shows "(en_sched e = SWait \<and> (en_running e = 0 \<and> e' = e\<lparr>en_sched := SDecide\<rparr> \<or> en_firstFatal e' \<noteq> None) \<and>
       en_sched e' = SDecide) \<or>
     (en_sched e = SDecide \<and> e' = e\<lparr>en_sched := SJoin (determineFinalOutcome cfg e)\<rparr>) \<or>
     (\<exists>r. en_sched e = SJoin r \<and> e' = e\<lparr>en_sched := SDone r\<rparr>) \<or>
     (over (en_sched e) \<and> (\<exists>c. e' = e\<lparr>en_ctxErr := Some c\<rparr>))"
proof (cases "(cfg, l, e)" rule: fire_sched.cases)
  case (1 cfg0 e0)
  with assms obtain x xs where l: "looping cfg e" "e' = dispatch cfg x (e\<lparr>en_ready := xs, en_stallChecks := 0\<rparr>)"
    by (auto split: bool.splits list.splits)
  with assms(2) show ?thesis by (auto simp: dispatch_def writeTaskStatus_def looping_def split: if_splits)
next
  case (10 cfg0 e0)
  with assms have s: "sched_step cfg (en_sched e) e = Some e'" by simp
  show ?thesis
  proof (cases "(cfg, en_sched e, e)" rule: sched_step.cases)
    case (7 cfg1 x h e1)
    then have "en_sched e = SBusy x (Hand h)" by auto
    with s assms(2) show ?thesis by (auto split: option.splits)
  next
    case (4 cfg1 n a r e1)
    then have "en_sched e = STick3 n a r" by auto
    with s assms(2) show ?thesis by (auto simp: tick_decision_def Let_def split: if_splits)
  qed (use s assms(2) in \<open>auto split: if_splits\<close>)
next
  case (9 cfg0 e0)
  with assms show ?thesis by (auto split: spc.splits option.splits)
next
  case (8 cfg0 e0)
  with assms show ?thesis by (auto split: if_splits)
next
  case (5 cfg0 e0)
  with assms show ?thesis by (auto split: spc.splits stage.splits if_splits)
next
  case (6 cfg0 e0)
  with assms show ?thesis by (auto split: spc.splits stage.splits option.splits)
qed (use assms in \<open>auto simp: looping_def split: if_splits bool.splits option.splits\<close>)

lemma quiet_sched_upd: "over s \<Longrightarrow> quiet (e\<lparr>en_sched := s\<rparr>) \<longleftrightarrow> en_queue e = [] \<and> workers_held (en_workers e) = {#}"
  by (simp add: quiet_iff sched_held_over)

lemma outcome_inv_sched:
  assumes step: "fire_sched cfg l e = Some e'" and inv: "outcome_inv cfg e"
  shows "outcome_inv cfg e'"
proof -
  have run: "en_running e = int (in_flight e)" using inv by (simp add: outcome_inv_def)
  with in_flight_sched [OF step] have run': "en_running e' = int (in_flight e')" by simp
  show ?thesis
  proof (cases "over (en_sched e')")
    case False
    with run' show ?thesis unfolding outcome_inv_def by auto
  next
    case True
    from over_step [OF step True]
    consider (decide) "en_sched e = SWait" "en_running e = 0" "e' = e\<lparr>en_sched := SDecide\<rparr>"
      | (fatal) "en_firstFatal e' \<noteq> None" "en_sched e' = SDecide"
      | (join) "en_sched e = SDecide" "e' = e\<lparr>en_sched := SJoin (determineFinalOutcome cfg e)\<rparr>"
      | (fin) r where "en_sched e = SJoin r" "e' = e\<lparr>en_sched := SDone r\<rparr>"
      | (ctx) c where "over (en_sched e)" "e' = e\<lparr>en_ctxErr := Some c\<rparr>" by blast
    then show ?thesis
    proof cases
      case decide
      with run have "in_flight e = 0" by simp
      then have "en_queue e = []" "workers_held (en_workers e) = {#}" by (simp_all add: in_flight_def)
      with decide run' show ?thesis by (simp add: outcome_inv_def quiet_sched_upd)
    next
      case fatal
      with run' show ?thesis by (auto simp: outcome_inv_def)
    next
      case join
      have "determineFinalOutcome cfg e' = determineFinalOutcome cfg e" by (rule outcome_cong) (simp_all add: join)
      with join run' inv show ?thesis
        by (auto simp: outcome_inv_def quiet_sched_upd quiet_iff outcome_None)
    next
      case (fin r)
      have "determineFinalOutcome cfg e' = determineFinalOutcome cfg e" by (rule outcome_cong) (simp_all add: fin)
      with fin run' inv show ?thesis by (auto simp: outcome_inv_def quiet_sched_upd quiet_iff)
    next
      case (ctx c)
      have "determineFinalOutcome cfg e' = determineFinalOutcome cfg e" by (rule outcome_cong) (simp_all add: ctx)
      with ctx run' inv show ?thesis by (auto simp: outcome_inv_def quiet_iff)
    qed
  qed
qed

lemma outcome_inv_worker:
  assumes step: "fire_worker cfg l e = Some e'" and inv: "outcome_inv cfg e"
  shows "outcome_inv cfg e'"
proof -
  have fr: "en_firstFatal e' = en_firstFatal e" "en_sched e' = en_sched e" using worker_fatal [OF step] by simp_all
  have run': "en_running e' = int (in_flight e')"
    using in_flight_worker [OF step] inv by (simp add: outcome_inv_def)
  show ?thesis
  proof (cases "over (en_sched e) \<and> en_firstFatal e = None")
    case True
    with inv have "quiet e" by (simp add: outcome_inv_def)
    note q = worker_step_quiet [OF this step]
    have "determineFinalOutcome cfg e' = determineFinalOutcome cfg e" using q fr by (intro outcome_cong) simp_all
    with inv q fr run' show ?thesis by (simp add: outcome_inv_def)
  next
    case False
    with inv have "en_sched e \<noteq> SJoin None" "en_sched e \<noteq> SDone None"
      by (auto simp: outcome_inv_def)
    with False run' fr show ?thesis by (auto simp: outcome_inv_def)
  qed
qed

lemma run_outcome_inv: "run_reaches cfg ready e \<Longrightarrow> outcome_inv cfg e"
proof (induction rule: run_induct)
  case (start vars s ctx)
  show ?case by (simp add: outcome_inv_def in_flight_def start_state_def)
next
  case (step e l e')
  then show ?case
    by (auto simp: fire_def split: option.splits intro: outcome_inv_sched outcome_inv_worker)
qed

text \<open>A run that ends without an error has completed or skipped every task.\<close>

lemma nil_outcome_all_ok:
  assumes ok: "run_ok cfg ready" and ac: "acyclic (dag_arcs (rc_dag cfg))" and reach: "run_reaches cfg ready e"
    and fin: "en_sched e = SDone None" and x: "x \<in> set (keys (rc_dag cfg))"
  shows "status_is is_ok e x"
proof -
  have inv: "core_inv cfg (core_of e)" by (rule run_core_inv [OF ok reach])
  have o: "outcome_inv cfg e" by (rule run_outcome_inv [OF reach])
  then have out: "determineFinalOutcome cfg e = None" and "en_firstFatal e = None"
    using fin by (simp_all add: outcome_inv_def)
  then have q: "quiet e" using o fin by (simp add: outcome_inv_def)
  have "dag_wf (rc_dag cfg)" using ok by (simp add: run_ok_def)
  then have wait: "\<exists>p. (p, d) \<in> dag_arcs (rc_dag cfg) \<and> p \<in> set (keys (rc_dag cfg)) \<and> \<not> status_is is_ok e p"
    if "d \<in> set (keys (rc_dag cfg))" "en_statuses e d = Some StatusPending" for d
    using that out blocked_by_state [OF inv q, of d] producers_are_nodes [of "rc_dag cfg" _ d]
    by (fastforce simp: outcome_None)
  show ?thesis by (rule quiet_all_ok [OF ok ac inv q _ wait x]) (use out in \<open>auto simp: outcome_None\<close>)
qed

subsection \<open>Sizes\<close>

text \<open>The queue and the pool keep their sizes, so the wait group is bounded.\<close>

definition sizes_ok :: "run_cfg \<Rightarrow> engine \<Rightarrow> bool" where
  "sizes_ok cfg e \<longleftrightarrow> length (en_queue e) \<le> queue_cap cfg \<and> length (en_workers e) = rc_pool cfg"

lemma sizes_sched:
  assumes "fire_sched cfg l e = Some e'" and "sizes_ok cfg e"
  shows "sizes_ok cfg e'"
proof (cases "(cfg, l, e)" rule: fire_sched.cases)
  case (10 cfg0 e0)
  with assms have s: "sched_step cfg (en_sched e) e = Some e'" by simp
  have "en_queue e' = en_queue e \<and> en_workers e' = en_workers e"
  proof (cases "(cfg, en_sched e, e)" rule: sched_step.cases)
    case (6 cfg1 x a as e1)
    then have "en_sched e = SBusy x (Sig (a # as))" by auto
    with s show ?thesis by (auto dest: do_act_core)
  next
    case (7 cfg1 x h e1)
    then have "en_sched e = SBusy x (Hand h)" by auto
    with s show ?thesis by (auto dest!: handle_step_frame)
  next
    case (4 cfg1 n a r e1)
    then have "en_sched e = STick3 n a r" by auto
    with s show ?thesis by (auto simp: tick_decision_def Let_def note_fatal_def cancelRun_def)
  qed (use s in \<open>auto split: if_splits\<close>)
  with assms(2) show ?thesis by (simp add: sizes_ok_def)
next
  case (1 cfg0 e0)
  with assms show ?thesis
    by (auto simp: sizes_ok_def dispatch_def writeTaskStatus_def split: bool.splits list.splits)
qed (use assms in \<open>auto simp: sizes_ok_def note_fatal_def cancelRun_def
       split: if_splits bool.splits option.splits spc.splits stage.splits\<close>)

lemma sizes_worker:
  assumes "fire_worker cfg l e = Some e'" and "sizes_ok cfg e"
  shows "sizes_ok cfg e'"
proof -
  have w: "en_queue e1 = en_queue e \<and> en_workers e1 = en_workers e" if "worker_step cfg x st e = Some (st', e1)" for x st st' e1
    using worker_step_core [OF that] by blast
  show ?thesis
    using assms
    by (cases "(cfg, l, e)" rule: fire_worker.cases)
      (auto simp: sizes_ok_def set_worker_def task_result_def Let_def
        split: if_splits wpc.splits stage.splits bool.splits list.splits dest!: w)
qed

lemma run_sizes: "run_reaches cfg ready e \<Longrightarrow> sizes_ok cfg e"
proof (induction rule: run_induct)
  case (start vars s ctx)
  show ?case by (simp add: sizes_ok_def start_state_def)
next
  case (step e l e')
  then show ?case by (auto simp: fire_def split: option.splits intro: sizes_sched sizes_worker)
qed

lemma size_workers_le: "size (workers_held ws) \<le> length ws"
proof (induction ws)
  case (Cons w ws)
  then show ?case using size_worker_held [of w] by (simp split: wpc.splits)
qed simp

lemma run_wait_group:
  assumes "run_reaches cfg ready e"
  shows "0 \<le> en_running e \<and> en_running e \<le> 3 * int (rc_pool cfg) + 1"
proof -
  have "en_running e = int (in_flight e)" using run_outcome_inv [OF assms] by (simp add: outcome_inv_def)
  moreover have "sched_waits (en_sched e) \<le> 1" by (cases "en_sched e" rule: sched_waits.cases) simp_all
  ultimately show ?thesis
    using run_sizes [OF assms] size_workers_le [of "en_workers e"] by (simp add: in_flight_def sizes_ok_def queue_cap_def)
qed

end
