(* ===== verification/Gxo_Report.thy ===== *)
theory Gxo_Report
  imports Gxo_Run Gxo_Load
begin

text \<open>
  Around a run (\<open>RunPlaybook\<close> and \<open>generateReport\<close> of \<open>internal/engine/engine.go\<close>,
  \<open>determineExitCode\<close> of \<open>cmd/gxo/main.go\<close>): what happens before the scheduling loop, the
  report of a finished run and the exit code of the command.
\<close>

subsection \<open>Before the loop\<close>

text \<open>What the engine is given: its iteration orders, workers, tolerance, keywords, store,
  channel manager and the state of the caller's context.\<close>

record 'v engine_env =
  ee_rng :: "string ranger"
  ee_pool :: nat
  ee_tolerance :: int
  ee_keywords :: "string list"
  ee_store :: MemoryStateStore
  ee_channels :: "'v ChannelManager"
  ee_ctx :: "goerr option"

datatype 'v launch =
    LaunchError goerr MemoryStateStore
  | NoTasks MemoryStateStore
  | Launched run_cfg engine "'v ChannelManager"

definition no_ready_error :: goerr where
  "no_ready_error =
     ConfigError ''no initially ready tasks found in non-empty DAG (check for cycles or dependency issues)'' None"

definition launch_playbook :: "'v engine_env \<Rightarrow> extractor \<Rightarrow> Playbook \<Rightarrow> 'v launch option" where
  "launch_playbook ee extract pb =
     (let store = store_Load (Some (pb_Vars pb)) (ee_store ee) in
      case BuildDAG (ee_rng ee) extract pb of
        None \<Rightarrow> None
      | Some (Inl err) \<Rightarrow> Some (LaunchError (WrapError ''failed to build DAG: '' err []) store)
      | Some (Inr (dag, ready)) \<Rightarrow>
          if length dag = 0 then Some (NoTasks store)
          else (case CreateChannels (ee_rng ee) dag (ee_channels ee) of
              Inl err \<Rightarrow> Some (LaunchError (WrapError ''failed to create channels: '' err []) store)
            | Inr cm \<Rightarrow>
               (let cfg = \<lparr>rc_dag = dag, rc_rng = ee_rng ee, rc_pool = ee_pool ee,
                      rc_tolerance = ee_tolerance ee, rc_keywords = ee_keywords ee\<rparr>;
                    e = start_state cfg (Some (pb_Vars pb)) ready (ee_store ee) (ee_ctx ee)
                in if ready = [] then Some (LaunchError no_ready_error (en_store e))
                   else Some (Launched cfg e cm))))"

definition RunPlaybook ::
    "'v engine_env \<Rightarrow> load_env \<Rightarrow> string ranger \<Rightarrow> extractor \<Rightarrow> extractor \<Rightarrow> string \<Rightarrow> 'v launch option" where
  "RunPlaybook ee env rng extract0 extract1 yaml =
     (case LoadPlaybook env rng extract0 yaml ''playbook.yaml'' of
        Inl err \<Rightarrow> Some (LaunchError err (ee_store ee))
      | Inr pb \<Rightarrow> launch_playbook ee extract1 pb)"


text \<open>A launched run is a run of the playbook's graph, started with its roots ready.\<close>

lemma launch_Launched:
  assumes rng: "permutes (ee_rng ee)" and ids: "ids_ok pb"
    and l: "launch_playbook ee extract pb = Some (Launched cfg e cm)"
  shows "\<exists>ready. run_ok cfg ready \<and> run_reaches cfg ready e \<and> acyclic (dag_arcs (rc_dag cfg)) \<and>
    dag_of_playbook extract pb (rc_dag cfg) \<and> ready \<noteq> []"
proof -
  obtain dag ready where b: "BuildDAG (ee_rng ee) extract pb = Some (Inr (dag, ready))"
    and cfg: "cfg = \<lparr>rc_dag = dag, rc_rng = ee_rng ee, rc_pool = ee_pool ee,
      rc_tolerance = ee_tolerance ee, rc_keywords = ee_keywords ee\<rparr>"
    and e: "e = start_state cfg (Some (pb_Vars pb)) ready (ee_store ee) (ee_ctx ee)" and "ready \<noteq> []"
    using l by (auto simp: launch_playbook_def Let_def split: option.splits sum.splits if_splits prod.splits)
  note dag = BuildDAG_ok_cases [OF rng ids b]
  have "run_ok cfg ready" by (rule built_run_ok [of "extract" pb]) (use dag rng in \<open>simp_all add: cfg\<close>)
  moreover have "run_reaches cfg ready e" unfolding run_reaches_def e by (blast intro: reachable.start)
  moreover have "acyclic (dag_arcs dag)" using dag dag_of_playbook_arcs [OF dag(1)] by simp
  ultimately show ?thesis using dag(1) \<open>ready \<noteq> []\<close> by (auto simp: cfg)
qed

text \<open>Any sequence of steps after the launch.\<close>

lemma launched_run:
  assumes "permutes (ee_rng ee)" and "ids_ok pb"
    and "launch_playbook ee extract pb = Some (Launched cfg e0 cm)" and "fires cfg ls e0 = Some e"
  obtains ready where "run_ok cfg ready" "run_reaches cfg ready e" "acyclic (dag_arcs (rc_dag cfg))"
    "dag_of_playbook extract pb (rc_dag cfg)"
proof -
  obtain ready where r: "run_ok cfg ready" "run_reaches cfg ready e0" "acyclic (dag_arcs (rc_dag cfg))"
    "dag_of_playbook extract pb (rc_dag cfg)"
    using launch_Launched [OF assms(1-3)] by blast
  moreover have "run_reaches cfg ready e"
    using r(2) fires_reachable [OF _ assms(4)] unfolding run_reaches_def by blast
  ultimately show ?thesis using that by blast
qed

subsection \<open>The report\<close>

record TaskResult =
  tr_Status :: string
  tr_Error :: string
  tr_StartTime :: "int option"
  tr_EndTime :: "int option"
  tr_Duration :: int

record ExecutionReport =
  rp_PlaybookName :: string
  rp_OverallStatus :: string
  rp_StartTime :: int
  rp_EndTime :: int
  rp_Duration :: int
  rp_TotalTasks :: nat
  rp_CompletedTasks :: nat
  rp_FailedTasks :: nat
  rp_SkippedTasks :: nat
  rp_Error :: string
  rp_TaskResults :: "TaskResult gomap"

text \<open>
  What the report is made from: the engine's maps of statuses, recorded errors and start and end
  times (\<open>None\<close> is the zero time), and its iteration order and keywords.
\<close>

record run_maps =
  rm_statuses :: "TaskStatus gomap"
  rm_errors :: "string \<Rightarrow> goerr option"
  rm_timings :: "string \<Rightarrow> int option \<times> int option"

definition task_duration :: "int option \<times> int option \<Rightarrow> int" where
  "task_duration t = (case t of (Some s, Some e) \<Rightarrow> e - s | _ \<Rightarrow> 0)"

definition report_task :: "run_maps \<Rightarrow> string \<times> TaskStatus \<Rightarrow> ExecutionReport \<Rightarrow> ExecutionReport" where
  "report_task rm idst report =
     (case idst of (x, status) \<Rightarrow>
       let timing = rm_timings rm x;
           errStr = (case rm_errors rm x of Some er \<Rightarrow> Error er | None \<Rightarrow> []);
           (report1, errStr1) =
             (case status of
                StatusFailed \<Rightarrow> (report\<lparr>rp_FailedTasks := rp_FailedTasks report + 1\<rparr>,
                  if errStr = [] then ''Task failed (unknown error)'' else errStr)
              | StatusCompleted \<Rightarrow> (report\<lparr>rp_CompletedTasks := rp_CompletedTasks report + 1\<rparr>, errStr)
              | StatusSkipped \<Rightarrow> (report\<lparr>rp_SkippedTasks := rp_SkippedTasks report + 1\<rparr>,
                  case rm_errors rm x of Some er \<Rightarrow> if IsSkipped er then Error er else errStr | None \<Rightarrow> errStr)
              | StatusReady \<Rightarrow> (report, errStr)
              | _ \<Rightarrow>
                 ((if rp_OverallStatus report = ''Completed''
                   then report\<lparr>rp_OverallStatus := ''Failed'',
                          rp_Error := (if rp_Error report = [] then ''Playbook finished with non-terminal tasks''
                                       else rp_Error report),
                          rp_FailedTasks := rp_FailedTasks report + 1\<rparr>
                   else report\<lparr>rp_FailedTasks := rp_FailedTasks report + 1\<rparr>),
                  if status = StatusPending then ''Task remained in Pending state''
                  else ''Task remained in Running state''))
       in report1\<lparr>rp_TaskResults := AList.update x
            \<lparr>tr_Status = status_text status, tr_Error = errStr1, tr_StartTime = fst timing,
             tr_EndTime = snd timing, tr_Duration = task_duration timing\<rparr> (rp_TaskResults report1)\<rparr>)"

definition empty_report ::
    "string ranger \<Rightarrow> string list \<Rightarrow> string \<Rightarrow> int \<Rightarrow> int \<Rightarrow> goerr option \<Rightarrow> ExecutionReport" where
  "empty_report rng kws name start finish finalExecError =
     \<lparr>rp_PlaybookName = name,
      rp_OverallStatus = (if finalExecError \<noteq> None then ''Failed'' else ''Completed''),
      rp_StartTime = start, rp_EndTime = finish, rp_Duration = finish - start,
      rp_TotalTasks = 0, rp_CompletedTasks = 0, rp_FailedTasks = 0, rp_SkippedTasks = 0,
      rp_Error = (case finalExecError of None \<Rightarrow> [] | Some er \<Rightarrow> Error (RedactSecretsInError rng kws er)),
      rp_TaskResults = []\<rparr>"

definition generateReport ::
    "(string \<times> TaskStatus) ranger \<Rightarrow> string ranger \<Rightarrow> string list \<Rightarrow> run_maps \<Rightarrow> string \<Rightarrow> int \<Rightarrow> int \<Rightarrow>
     goerr option \<Rightarrow> ExecutionReport" where
  "generateReport order rng kws rm name start finish finalExecError =
     (let report = fold (report_task rm) (order 10 (rm_statuses rm))
            (empty_report rng kws name start finish finalExecError);
          report1 = report\<lparr>rp_TotalTasks := length (rm_statuses rm)\<rparr>
      in if rp_FailedTasks report1 > 0 \<and> rp_OverallStatus report1 = ''Completed''
         then report1\<lparr>rp_OverallStatus := ''Failed'',
                rp_Error := (if rp_Error report1 = [] then ''Playbook finished with one or more failed tasks''
                             else rp_Error report1)\<rparr>
         else report1)"

text \<open>The status a run is counted under.\<close>

definition metrics_status :: "goerr option \<Rightarrow> ExecutionReport \<Rightarrow> string" where
  "metrics_status finalErr report =
     (if finalErr = None \<and> rp_OverallStatus report = ''Completed'' then ''Completed''
      else if rp_OverallStatus report \<noteq> [] then rp_OverallStatus report
      else ''Failed'')"

text \<open>The maps the engine leaves behind after a run.\<close>

definition maps_of_run :: "run_cfg \<Rightarrow> (string \<Rightarrow> int option \<times> int option) \<Rightarrow> engine \<Rightarrow> run_maps" where
  "maps_of_run cfg timings e =
     \<lparr>rm_statuses = List.map_filter (\<lambda>x. map_option (Pair x) (en_statuses e x)) (keys (rc_dag cfg)),
      rm_errors = en_errors e, rm_timings = timings\<rparr>"

subsection \<open>The exit code\<close>

datatype os_signal = SIGINT | SIGTERM | OtherSignal

definition ExitSuccess :: int where "ExitSuccess = 0"
definition ExitFailure :: int where "ExitFailure = 1"
definition ExitTimeout :: int where "ExitTimeout = 124"
definition ExitSigInt :: int where "ExitSigInt = 128 + 2"
definition ExitSigTerm :: int where "ExitSigTerm = 128 + 15"

definition determineExitCode :: "ExecutionReport option \<Rightarrow> goerr option \<Rightarrow> os_signal option \<Rightarrow> int" where
  "determineExitCode report execErr sig =
     (case execErr of
        Some err \<Rightarrow>
          if errors_Is err Canceled \<and> sig \<noteq> None then
            (case sig of Some SIGINT \<Rightarrow> ExitSigInt | Some SIGTERM \<Rightarrow> ExitSigTerm | _ \<Rightarrow> ExitFailure)
          else if errors_Is err Canceled then ExitFailure
          else if errors_Is err DeadlineExceeded then ExitTimeout
          else ExitFailure
      | None \<Rightarrow>
          (case report of
             Some r \<Rightarrow> if rp_OverallStatus r = ''Failed'' then ExitFailure else ExitSuccess
           | None \<Rightarrow> ExitSuccess))"


subsection \<open>What the report says\<close>

definition bad_status :: "TaskStatus \<Rightarrow> bool" where
  "bad_status st \<longleftrightarrow> st = StatusFailed \<or> st = StatusPending \<or> st = StatusRunning"

definition unfinished :: "TaskStatus \<Rightarrow> bool" where
  "unfinished st \<longleftrightarrow> st = StatusPending \<or> st = StatusRunning"

definition entries_with :: "(TaskStatus \<Rightarrow> bool) \<Rightarrow> (string \<times> TaskStatus) list \<Rightarrow> nat" where
  "entries_with P sts = length (filter (\<lambda>(x, st). P st) sts)"

lemma report_task_fields:
  "rp_CompletedTasks (report_task rm (x, st) r) = rp_CompletedTasks r + of_bool (st = StatusCompleted)"
  "rp_FailedTasks (report_task rm (x, st) r) = rp_FailedTasks r + of_bool (bad_status st)"
  "rp_SkippedTasks (report_task rm (x, st) r) = rp_SkippedTasks r + of_bool (st = StatusSkipped)"
  "rp_OverallStatus (report_task rm (x, st) r) =
     (if unfinished st \<and> rp_OverallStatus r = ''Completed'' then ''Failed'' else rp_OverallStatus r)"
  "keys (rp_TaskResults (report_task rm (x, st) r)) = (if x \<in> set (keys (rp_TaskResults r)) then keys (rp_TaskResults r)
     else keys (rp_TaskResults r) @ [x])"
  by (cases st; simp add: report_task_def Let_def bad_status_def unfinished_def; simp add: keys_def AList.update_keys)+

lemma fold_report_fields:
  shows "rp_CompletedTasks (fold (report_task rm) sts r) = rp_CompletedTasks r + entries_with (\<lambda>st. st = StatusCompleted) sts"
    and "rp_FailedTasks (fold (report_task rm) sts r) = rp_FailedTasks r + entries_with bad_status sts"
    and "rp_SkippedTasks (fold (report_task rm) sts r) = rp_SkippedTasks r + entries_with (\<lambda>st. st = StatusSkipped) sts"
    and "rp_OverallStatus (fold (report_task rm) sts r) =
      (if rp_OverallStatus r = ''Completed'' \<and> entries_with unfinished sts > 0 then ''Failed'' else rp_OverallStatus r)"
  by (induction sts arbitrary: r) (simp_all add: entries_with_def report_task_fields split: prod.splits)

lemma entries_with_perm: "mset xs = mset ys \<Longrightarrow> entries_with P xs = entries_with P ys"
  unfolding entries_with_def by (metis mset_filter size_mset)

lemma entries_with_le: "(\<And>st. P st \<Longrightarrow> Q st) \<Longrightarrow> entries_with P xs \<le> entries_with Q xs"
  unfolding entries_with_def by (induction xs) auto

lemma entries_with_zero: "entries_with P xs = 0 \<longleftrightarrow> (\<forall>(x, st) \<in> set xs. \<not> P st)"
  unfolding entries_with_def by (induction xs) auto

lemma entries_partition:
  "(\<forall>(x, st) \<in> set xs. st \<noteq> StatusReady) \<Longrightarrow>
     entries_with (\<lambda>st. st = StatusCompleted) xs + entries_with bad_status xs +
     entries_with (\<lambda>st. st = StatusSkipped) xs = length xs"
proof (induction xs)
  case (Cons e xs)
  then show ?case by (cases e; cases "snd e") (simp_all add: entries_with_def bad_status_def)
qed (simp add: entries_with_def)

text \<open>The result of one task, whatever else the report holds.\<close>

definition task_result_of :: "run_maps \<Rightarrow> string \<Rightarrow> TaskStatus \<Rightarrow> TaskResult" where
  "task_result_of rm x st =
     (let errStr = (case rm_errors rm x of Some er \<Rightarrow> Error er | None \<Rightarrow> []) in
      \<lparr>tr_Status = status_text st,
       tr_Error = (case st of StatusFailed \<Rightarrow> if errStr = [] then ''Task failed (unknown error)'' else errStr
         | StatusPending \<Rightarrow> ''Task remained in Pending state''
         | StatusRunning \<Rightarrow> ''Task remained in Running state''
         | _ \<Rightarrow> errStr),
       tr_StartTime = fst (rm_timings rm x), tr_EndTime = snd (rm_timings rm x),
       tr_Duration = task_duration (rm_timings rm x)\<rparr>)"

lemma report_task_results:
  "rp_TaskResults (report_task rm (x, st) r) = AList.update x (task_result_of rm x st) (rp_TaskResults r)"
  by (cases st) (simp_all add: report_task_def task_result_of_def Let_def split: option.splits)

lemma fold_report_results:
  "gomap_ok sts \<Longrightarrow> map_of (rp_TaskResults (fold (report_task rm) sts r)) x =
     (case map_of sts x of Some st \<Rightarrow> Some (task_result_of rm x st) | None \<Rightarrow> map_of (rp_TaskResults r) x)"
proof (induction sts arbitrary: r)
  case (Cons e sts)
  obtain y st where e: "e = (y, st)" by (cases e)
  with Cons.prems have "map_of sts y = None" by (auto simp: gomap_ok_def map_of_eq_None_iff)
  with Cons e show ?case
    by (auto simp: report_task_results gomap_ok_def split: option.splits)
qed simp

lemma generateReport_fields:
  fixes rm and rng :: "string ranger" and kws name start finish err
  assumes "permutes order"
  defines "r \<equiv> generateReport order rng kws rm name start finish err"
  shows "rp_TotalTasks r = length (rm_statuses rm)"
    and "rp_CompletedTasks r = entries_with (\<lambda>st. st = StatusCompleted) (rm_statuses rm)"
    and "rp_FailedTasks r = entries_with bad_status (rm_statuses rm)"
    and "rp_SkippedTasks r = entries_with (\<lambda>st. st = StatusSkipped) (rm_statuses rm)"
    and "rp_OverallStatus r = (if err = None \<and> entries_with bad_status (rm_statuses rm) = 0 then ''Completed'' else ''Failed'')"
proof -
  have p: "entries_with P (order 10 (rm_statuses rm)) = entries_with P (rm_statuses rm)" for P
    by (rule entries_with_perm) (rule permutes_mset [OF assms(1)])
  have u: "entries_with unfinished (rm_statuses rm) \<le> entries_with bad_status (rm_statuses rm)"
    by (rule entries_with_le) (auto simp: unfinished_def bad_status_def)
  show "rp_TotalTasks r = length (rm_statuses rm)"
    and "rp_CompletedTasks r = entries_with (\<lambda>st. st = StatusCompleted) (rm_statuses rm)"
    and "rp_FailedTasks r = entries_with bad_status (rm_statuses rm)"
    and "rp_SkippedTasks r = entries_with (\<lambda>st. st = StatusSkipped) (rm_statuses rm)"
    and "rp_OverallStatus r = (if err = None \<and> entries_with bad_status (rm_statuses rm) = 0 then ''Completed'' else ''Failed'')"
    using u unfolding r_def generateReport_def Let_def
    by (simp_all add: fold_report_fields p) (simp_all add: empty_report_def)
qed


lemma set_run_statuses:
  "(x, st) \<in> set (rm_statuses (maps_of_run cfg timings e)) \<longleftrightarrow> x \<in> set (keys (rc_dag cfg)) \<and> en_statuses e x = Some st"
proof -
  have "(x, st) \<in> set (List.map_filter (\<lambda>x. map_option (Pair x) (f x)) xs) \<longleftrightarrow> x \<in> set xs \<and> f x = Some st"
    for f :: "string \<Rightarrow> TaskStatus option" and xs
    by (induction xs) (auto simp: List.map_filter_simps split: option.splits)
  then show ?thesis by (simp add: maps_of_run_def)
qed

lemma gomap_ok_run_statuses: "distinct (keys (rc_dag cfg)) \<Longrightarrow> gomap_ok (rm_statuses (maps_of_run cfg timings e))"
proof -
  have *: "distinct xs \<Longrightarrow> distinct (keys (List.map_filter (\<lambda>x. map_option (Pair x) (f x)) xs))"
    and "set (keys (List.map_filter (\<lambda>x. map_option (Pair x) (f x)) xs)) \<subseteq> set xs"
    for f :: "string \<Rightarrow> TaskStatus option" and xs
    by (induction xs) (auto simp: List.map_filter_simps split: option.splits)
  assume "distinct (keys (rc_dag cfg))"
  then show ?thesis unfolding gomap_ok_keys maps_of_run_def by (simp add: *)
qed

text \<open>The report of a finished run, its error as exit code: 0 exactly for a run without error,
  whose tasks are then all completed or skipped.\<close>

lemma finished_run_report:
  assumes ok: "run_ok cfg ready" and ac: "acyclic (dag_arcs (rc_dag cfg))" and reach: "run_reaches cfg ready e"
    and fin: "en_sched e = SDone r" and order: "permutes order"
  shows "rp_OverallStatus (generateReport order rng kws (maps_of_run cfg timings e) name start finish r) =
    (if r = None then ''Completed'' else ''Failed'')"
proof (cases r)
  case None
  have "\<not> bad_status st" if "x \<in> set (keys (rc_dag cfg))" "en_statuses e x = Some st" for x st
    using nil_outcome_all_ok [OF ok ac reach _ that(1)] fin None that(2)
    by (auto simp: status_is_def is_ok_def bad_status_def)
  then have "entries_with bad_status (rm_statuses (maps_of_run cfg timings e)) = 0"
    by (auto simp: entries_with_zero set_run_statuses)
  with None show ?thesis by (simp add: generateReport_fields [OF order])
qed (simp add: generateReport_fields [OF order])

lemma exit_code_error: "determineExitCode report (Some err) sig \<noteq> 0"
  by (simp add: determineExitCode_def ExitFailure_def ExitTimeout_def ExitSigInt_def ExitSigTerm_def
      split: os_signal.splits option.splits)

lemma generateReport_results:
  assumes "permutes order" and "gomap_ok (rm_statuses rm)"
  shows "map_of (rp_TaskResults (generateReport order rng kws rm name start finish err)) x =
    map_option (task_result_of rm x) (map_of (rm_statuses rm) x)"
proof -
  have p: "mset (order 10 (rm_statuses rm)) = mset (rm_statuses rm)" by (rule permutes_mset [OF assms(1)])
  have "gomap_ok (order 10 (rm_statuses rm))"
    using p assms(2) unfolding gomap_ok_def by (metis mset_eq_imp_distinct_iff mset_map)
  with fold_report_results [OF this, of rm "empty_report rng kws name start finish err" x] map_of_perm [OF assms(2) p]
  show ?thesis by (simp add: generateReport_def Let_def) (simp add: empty_report_def split: option.splits)
qed

lemma run_status_entry:
  assumes "run_ok cfg ready" and "run_reaches cfg ready e"
  shows "map_of (rm_statuses (maps_of_run cfg timings e)) x = en_statuses e x"
proof -
  have "distinct (keys (rc_dag cfg))" using assms(1) by (simp add: run_ok_def dag_wf_def gomap_ok_keys)
  then have d: "distinct (map fst (rm_statuses (maps_of_run cfg timings e)))"
    using gomap_ok_run_statuses [of cfg timings e] by (simp add: gomap_ok_def)
  have in_dag: "en_statuses e x = Some st \<Longrightarrow> x \<in> set (keys (rc_dag cfg))" for st
    using status_of_task(1) [OF run_core_inv [OF assms], of x] by (auto simp: in_keys_conv)
  have "map_of (rm_statuses (maps_of_run cfg timings e)) x = Some st \<longleftrightarrow> en_statuses e x = Some st" for st
    using map_of_eq_Some_iff [OF d, of x st] in_dag by (auto simp: set_run_statuses)
  then show ?thesis by (metis not_None_eq)
qed

text \<open>Every task of a run has a status, so the three counts add up to the total.\<close>

lemma run_counts:
  assumes ok: "run_ok cfg ready" and reach: "run_reaches cfg ready e" and order: "permutes order"
    and r: "r = generateReport order rng kws (maps_of_run cfg timings e) name start finish err"
  shows "rp_TotalTasks r = length (rc_dag cfg) \<and>
    rp_CompletedTasks r + rp_FailedTasks r + rp_SkippedTasks r = rp_TotalTasks r"
proof -
  note inv = run_core_inv [OF ok reach]
  have st: "\<exists>st. en_statuses e x = Some st \<and> st \<noteq> StatusReady" if "x \<in> set (keys (rc_dag cfg))" for x
  proof -
    have "map_of (rc_dag cfg) x \<noteq> None" using that by (auto simp: in_keys_conv)
    with status_of_task [OF inv, of x] show ?thesis
      by (cases "en_dispatched e x") (auto simp: is_terminal_def)
  qed
  have len: "length (List.map_filter (\<lambda>x. map_option (Pair x) (f x)) xs) = length xs"
    if "\<forall>x \<in> set xs. f x \<noteq> None" for f :: "string \<Rightarrow> TaskStatus option" and xs
    using that by (induction xs) (auto simp: List.map_filter_simps)
  have "length (rm_statuses (maps_of_run cfg timings e)) = length (keys (rc_dag cfg))"
    unfolding maps_of_run_def run_maps.simps by (rule len) (use st in auto)
  moreover have "\<forall>(x, s) \<in> set (rm_statuses (maps_of_run cfg timings e)). s \<noteq> StatusReady"
    using st by (force simp: set_run_statuses)
  ultimately show ?thesis
    using entries_partition [of "rm_statuses (maps_of_run cfg timings e)"] generateReport_fields [OF order]
    by (simp add: r keys_def)
qed

text \<open>The exit code of a finished run.\<close>

lemma finished_run_exit:
  assumes ok: "run_ok cfg ready" and ac: "acyclic (dag_arcs (rc_dag cfg))" and reach: "run_reaches cfg ready e"
    and fin: "en_sched e = SDone r" and order: "permutes order"
    and rep: "rep = generateReport order rng kws (maps_of_run cfg timings e) name start finish r"
  shows "determineExitCode (Some rep) r sig = 0 \<longleftrightarrow> r = None"
    and "r = None \<longleftrightarrow> (rp_OverallStatus rep = ''Completed'')"
    and "r = None \<Longrightarrow> x \<in> set (keys (rc_dag cfg)) \<Longrightarrow> status_is is_ok e x"
proof -
  note st = finished_run_report [OF ok ac reach fin order, of rng kws timings name start finish]
  show "determineExitCode (Some rep) r sig = 0 \<longleftrightarrow> r = None"
    using st exit_code_error [of "Some rep" _ sig]
    by (cases r) (simp_all add: rep determineExitCode_def ExitSuccess_def)
  show "r = None \<longleftrightarrow> rp_OverallStatus rep = ''Completed''" using st by (simp add: rep)
  show "r = None \<Longrightarrow> x \<in> set (keys (rc_dag cfg)) \<Longrightarrow> status_is is_ok e x"
    using nil_outcome_all_ok [OF ok ac reach] fin by simp
qed

end
