(* ===== verification/Gxo_Examples.thy ===== *)
theory Gxo_Examples
  imports Gxo_Channels
begin

text \<open>
  A small playbook the witnesses of the properties use: a task \<open>a\<close> that registers \<open>r\<close>, a task
  \<open>b\<close> that streams from \<open>a\<close>, and a task \<open>c\<close> whose parameter is a template over \<open>r\<close>.
\<close>

definition ex_template :: string where
  "ex_template = ''{{ .r }}''"

definition ex_extract :: extractor where
  "ex_extract s = Inr (if s = ex_template then [''r''] else [])"

definition ex_playbook :: Playbook where
  "ex_playbook = plain_playbook
     [(plain_task ''a'' ''m'')\<lparr>tk_Register := ''r''\<rparr>,
      (plain_task ''b'' ''m'')\<lparr>tk_StreamInputs := [''a'']\<rparr>,
      (plain_task ''c'' ''m'')\<lparr>tk_Params := [(''x'', VStr ex_template)]\<rparr>]"

definition ex_loaded :: Playbook where
  "ex_loaded = assignInternalTaskIDs (ex_playbook\<lparr>pb_FilePath := ''pb''\<rparr>)"

definition ex_dag :: DAG where
  "ex_dag = (case BuildDAG in_order ex_extract ex_loaded of Some (Inr (dag, ready)) \<Rightarrow> dag | _ \<Rightarrow> [])"

lemma ex_valid: "ValidatePlaybookStructure in_order ex_extract ex_playbook = []"
  by code_simp

lemma ex_built: "BuildDAG in_order ex_extract ex_loaded = Some (Inr (ex_dag, [''a'']))"
  by code_simp

lemma ex_ids_ok: "ids_ok ex_loaded"
  by code_simp

lemma ex_names: "distinct (task_names ex_loaded)"
  by code_simp

lemmas ex_dag_facts = BuildDAG_ok_cases [OF permutes_in_order ex_ids_ok ex_built]

text \<open>Two tasks that stream from each other.\<close>

definition ex_cyclic :: Playbook where
  "ex_cyclic = assignInternalTaskIDs (plain_playbook
     [(plain_task ''a'' ''m'')\<lparr>tk_StreamInputs := [''b'']\<rparr>,
      (plain_task ''b'' ''m'')\<lparr>tk_StreamInputs := [''a'']\<rparr>])"

lemma ex_cyclic_error: "BuildDAG in_order ex_extract ex_cyclic = Some (Inl cycle_error)"
  by code_simp

text \<open>An unnamed task before a task whose name is the id the unnamed one gets.\<close>

definition ex_clash :: Playbook where
  "ex_clash = plain_playbook [plain_task [] ''m'', plain_task ''__task_idx_0'' ''m'']"

definition ex_clash_dag :: DAG where
  "ex_clash_dag =
     (case BuildDAG in_order ex_extract (assignInternalTaskIDs ex_clash) of
        Some (Inr (dag, ready)) \<Rightarrow> dag | _ \<Rightarrow> [])"

text \<open>A consumer that lists its producer twice.\<close>

definition ex_duplicate :: Playbook where
  "ex_duplicate = plain_playbook
     [plain_task ''a'' ''m'', (plain_task ''b'' ''m'')\<lparr>tk_StreamInputs := [''a'', ''a'']\<rparr>]"

definition ex_duplicate_dag :: DAG where
  "ex_duplicate_dag =
     (case BuildDAG in_order ex_extract (assignInternalTaskIDs ex_duplicate) of
        Some (Inr (dag, ready)) \<Rightarrow> dag | _ \<Rightarrow> [])"

definition ex_duplicate_cm :: "unit ChannelManager" where
  "ex_duplicate_cm = (case CreateChannels in_order ex_duplicate_dag (fst (NewChannelManager None)) of
     Inr cm \<Rightarrow> cm | Inl e \<Rightarrow> fst (NewChannelManager None))"

text \<open>A full channel under \<open>drop_oldest\<close>.\<close>

definition ex_full :: "nat managedChannel" where
  "ex_full = \<lparr>mc_buffer = [1, 2], mc_cap = 2, mc_closed = False, mc_receivers = 0, mc_received = [],
     mc_policy = \<lparr>cp_Name = [], cp_BufferSize = Some 2, cp_OverflowStrategy = OverflowDropOldest\<rparr>\<rparr>"

text \<open>Libraries that accept the text \<open>x\<close> and decode it to the playbook.\<close>

definition ex_env :: load_env where
  "ex_env = \<lparr>le_loadSchema = None, le_yamlUnmarshal = (\<lambda>_. Inr VNil), le_schemaValidate = (\<lambda>_. Inr []),
     le_yamlDecode = (\<lambda>_. Inr ex_playbook), le_semverIsValid = (\<lambda>_. True), le_semverMajor = (\<lambda>_. ''v1'')\<rparr>"

lemma ex_load: "LoadPlaybook ex_env in_order ex_extract ''x'' ''pb'' = Inr ex_loaded"
  by code_simp

text \<open>The comment on generated ids (guaranteed not to clash with user-defined names) does not
  hold: a playbook with an unnamed first task and a second task named \<open>__task_idx_0\<close> passes
  validation, both tasks get the same id, and the graph has one node for the two.\<close>

theorem generated_id_clash:
  "wf_playbook ex_extract ex_clash \<and>
   task_ids (assignInternalTaskIDs ex_clash) = [''__task_idx_0'', ''__task_idx_0''] \<and>
   (\<exists>dag ready. BuildDAG in_order ex_extract (assignInternalTaskIDs ex_clash) = Some (Inr (dag, ready)) \<and> length dag = 1)"
proof -
  have "ValidatePlaybookStructure in_order ex_extract ex_clash = []" by code_simp
  then have "wf_playbook ex_extract ex_clash" using validate_iff_wf [OF permutes_in_order] by simp
  moreover have "task_ids (assignInternalTaskIDs ex_clash) = [''__task_idx_0'', ''__task_idx_0'']" by code_simp
  moreover have "BuildDAG in_order ex_extract (assignInternalTaskIDs ex_clash) =
      Some (Inr (ex_clash_dag, [''__task_idx_0'']))" "length ex_clash_dag = 1" by (code_simp, code_simp)
  ultimately show ?thesis by blast
qed

text \<open>A consumer that names the same producer twice, which validation accepts, leaves a channel the
  producer writes and nobody reads, and a wait group that counts two.\<close>

theorem duplicate_input_orphans_channel:
  "wf_playbook ex_extract ex_duplicate \<and>
   (\<exists>dag ready cm. BuildDAG in_order ex_extract (assignInternalTaskIDs ex_duplicate) = Some (Inr (dag, ready)) \<and>
      CreateChannels in_order dag (fst (NewChannelManager None) :: unit ChannelManager) = Inr cm \<and>
      GetOutputManagedChannels ''a'' cm = Some [0, 1] \<and> GetInputChannelMap ''b'' cm = Some [(''a'', 1)] \<and>
      map_of (cm_producerWaitGroups cm) ''a'' = Some 2)"
proof -
  have "ValidatePlaybookStructure in_order ex_extract ex_duplicate = []" by code_simp
  then have "wf_playbook ex_extract ex_duplicate" using validate_iff_wf [OF permutes_in_order] by simp
  moreover have "BuildDAG in_order ex_extract (assignInternalTaskIDs ex_duplicate) =
      Some (Inr (ex_duplicate_dag, [''a'']))" by code_simp
  moreover have "CreateChannels in_order ex_duplicate_dag (fst (NewChannelManager None)) = Inr ex_duplicate_cm"
    "GetOutputManagedChannels ''a'' ex_duplicate_cm = Some [0, 1]"
    "GetInputChannelMap ''b'' ex_duplicate_cm = Some [(''a'', 1)]"
    "map_of (cm_producerWaitGroups ex_duplicate_cm) ''a'' = Some 2" by (code_simp, code_simp, code_simp, code_simp)
  ultimately show ?thesis by blast
qed

end
