(* ===== verification/Gxo_RunExamples.thy ===== *)
theory Gxo_RunExamples
  imports Gxo_Report Gxo_Examples
begin

text \<open>
  Concrete runs: a driver that fires the first label of a list that is possible, the example
  playbook run to its end, and a run the monitoring tick ends too early.
\<close>

fun first_step :: "run_cfg \<Rightarrow> label list \<Rightarrow> engine \<Rightarrow> engine option" where
  "first_step cfg [] e = None"
| "first_step cfg (l # ls) e = (case fire cfg l e of Some e' \<Rightarrow> Some e' | None \<Rightarrow> first_step cfg ls e)"

fun drive :: "run_cfg \<Rightarrow> label list \<Rightarrow> nat \<Rightarrow> engine \<Rightarrow> engine" where
  "drive cfg ls 0 e = e"
| "drive cfg ls (Suc n) e = (case first_step cfg ls e of None \<Rightarrow> e | Some e' \<Rightarrow> drive cfg ls n e')"

lemma first_step_fires: "first_step cfg ls e = Some e' \<Longrightarrow> \<exists>l. fire cfg l e = Some e'"
  by (induction ls) (auto split: option.splits)

lemma drive_reaches: "run_reaches cfg ready e \<Longrightarrow> run_reaches cfg ready (drive cfg ls n e)"
proof (induction n arbitrary: e)
  case (Suc n)
  show ?case
  proof (cases "first_step cfg ls e")
    case None
    with Suc.prems show ?thesis by simp
  next
    case (Some e')
    then obtain l where "fire cfg l e = Some e'" using first_step_fires by blast
    with Suc.prems have "run_reaches cfg ready e'" unfolding run_reaches_def by (blast intro: reachable.step)
    with Suc.IH Some show ?thesis by simp
  qed
qed simp

definition plain_order :: "label list" where
  "plain_order = [LReady, LStep, LEnqueue, WTake 0, WStep 0, WResult 0 None None, WLeave 0, LWaitDone, LTick, WQuit 0]"

definition ex_cfg :: run_cfg where
  "ex_cfg = \<lparr>rc_dag = ex_dag, rc_rng = in_order, rc_pool = 1, rc_tolerance = 5, rc_keywords = []\<rparr>"

definition ex_start :: engine where
  "ex_start = start_state ex_cfg None [''a''] NewMemoryStateStore None"

definition ex_end :: engine where
  "ex_end = drive ex_cfg plain_order 80 ex_start"

lemma ex_end_done: "en_sched ex_end = SDone None"
  by code_simp

lemma ex_end_reached: "run_reaches ex_cfg [''a''] ex_end"
  unfolding ex_end_def ex_start_def by (intro drive_reaches) (auto simp: run_reaches_def intro: reachable.start)

lemma ex_run_ok: "run_ok ex_cfg [''a'']"
  by (rule built_run_ok [of ex_extract ex_loaded])
    (use ex_dag_facts in \<open>simp_all add: ex_cfg_def\<close>)

lemma ex_acyclic: "acyclic (dag_arcs (rc_dag ex_cfg))"
  using ex_dag_facts dag_of_playbook_arcs [of ex_extract ex_loaded ex_dag] by (simp add: ex_cfg_def)

text \<open>Two tasks, the second using the first's result; the tick fires while the first is queued.\<close>

definition ex_pair :: Playbook where
  "ex_pair = assignInternalTaskIDs (plain_playbook
     [(plain_task ''a'' ''m'')\<lparr>tk_Register := ''r''\<rparr>,
      (plain_task ''c'' ''m'')\<lparr>tk_Params := [(''x'', VStr ex_template)]\<rparr>])"

definition ex_pair_cfg :: run_cfg where
  "ex_pair_cfg = \<lparr>rc_dag = (case BuildDAG in_order ex_extract ex_pair of Some (Inr (dag, ready)) \<Rightarrow> dag | _ \<Rightarrow> []),
     rc_rng = in_order, rc_pool = 1, rc_tolerance = 5, rc_keywords = []\<rparr>"

definition early_tick :: "label list" where
  "early_tick = [LReady, LStep, LEnqueue, LTick, LStep, LStep, LStep, WTake 0, WStep 0, WStep 0, WResult 0 None None] @
     replicate 8 (WStep 0) @ [WLeave 0, LWaitDone, LStep, WQuit 0, LStep]"

definition ex_pair_start :: engine where
  "ex_pair_start = start_state ex_pair_cfg None [''a''] NewMemoryStateStore None"

text \<open>The monitoring tick can end a run too early: in this run of two tasks the tick reads the
  workers and the runnable tasks while the first task waits in the work queue, finds neither,
  and leaves the loop; the first task then completes and makes the second one ready, but the
  run ends with the error for unexpectedly pending tasks and never dispatches it.\<close>

lemma tick_ends_run_early:
  "map_option (\<lambda>e. (en_sched e, en_statuses e ''a'', en_statuses e ''c'', en_ready e, en_ctxErr e))
     (fires ex_pair_cfg early_tick ex_pair_start) =
   Some (SDone (Some pending_error), Some StatusCompleted, Some StatusPending, [''c''], None)"
  by code_simp

text \<open>The example playbook launched, and the steps of its run to the end.\<close>

definition ex_engine :: "unit engine_env" where
  "ex_engine = \<lparr>ee_rng = in_order, ee_pool = 1, ee_tolerance = 5, ee_keywords = [], ee_store = NewMemoryStateStore,
     ee_channels = fst (NewChannelManager None), ee_ctx = None\<rparr>"

definition ex_launched :: "run_cfg \<times> engine \<times> unit ChannelManager" where
  "ex_launched = (case launch_playbook ex_engine ex_extract ex_loaded of
     Some (Launched cfg e cm) \<Rightarrow> (cfg, e, cm) | _ \<Rightarrow> (ex_cfg, ex_start, ee_channels ex_engine))"

lemma ex_launch: "launch_playbook ex_engine ex_extract ex_loaded =
    Some (Launched (fst ex_launched) (fst (snd ex_launched)) (snd (snd ex_launched)))"
proof -
  have "(case launch_playbook ex_engine ex_extract ex_loaded of
      Some r \<Rightarrow> (case r of Launched cfg e cm \<Rightarrow> True | _ \<Rightarrow> False) | None \<Rightarrow> False) = True"
    by code_simp
  then show ?thesis by (auto simp: ex_launched_def split: option.splits launch.splits)
qed

fun drive_labels :: "run_cfg \<Rightarrow> label list \<Rightarrow> nat \<Rightarrow> engine \<Rightarrow> label list" where
  "drive_labels cfg ls 0 e = []"
| "drive_labels cfg ls (Suc n) e =
     (case List.find (\<lambda>l. fire cfg l e \<noteq> None) ls of
        None \<Rightarrow> []
      | Some l \<Rightarrow> (case fire cfg l e of None \<Rightarrow> [] | Some e' \<Rightarrow> l # drive_labels cfg ls n e'))"

lemma drive_labels_fires: "fires cfg (drive_labels cfg ls n e) e = Some (drive cfg ls n e)"
proof (induction n arbitrary: e)
  case (Suc n)
  have "first_step cfg ls e = (case List.find (\<lambda>l. fire cfg l e \<noteq> None) ls of None \<Rightarrow> None | Some l \<Rightarrow> fire cfg l e)"
    by (induction ls) (auto split: option.splits)
  moreover have "fire cfg l e \<noteq> None" if "List.find (\<lambda>l. fire cfg l e \<noteq> None) ls = Some l" for l
    using that by (auto simp: find_Some_iff)
  ultimately show ?case using Suc.IH by (auto split: option.splits)
qed simp

definition ex_final :: engine where
  "ex_final = drive (fst ex_launched) plain_order 80 (fst (snd ex_launched))"

definition ex_labels :: "label list" where
  "ex_labels = drive_labels (fst ex_launched) plain_order 80 (fst (snd ex_launched))"

lemma ex_final_fires: "fires (fst ex_launched) ex_labels (fst (snd ex_launched)) = Some ex_final"
  unfolding ex_labels_def ex_final_def by (rule drive_labels_fires)

lemma ex_final_done: "en_sched ex_final = SDone None"
  by code_simp

lemma ex_engine_rng: "permutes (ee_rng ex_engine)"
  by (simp add: ex_engine_def)

lemmas ex_run = ex_engine_rng ex_ids_ok ex_launch ex_final_fires

text \<open>One task that ignores errors, and fails.\<close>

definition ex_ignored :: Playbook where
  "ex_ignored = assignInternalTaskIDs (plain_playbook [(plain_task ''a'' ''m'')\<lparr>tk_IgnoreErrors := True\<rparr>])"

definition ex_ignored_run :: "engine option" where
  "ex_ignored_run = (case launch_playbook ex_engine ex_extract ex_ignored of
     Some (Launched cfg e cm) \<Rightarrow> fires cfg ([LReady, LStep, LEnqueue, WTake 0, WStep 0, WStep 0,
       WResult 0 (Some (PlainError ''boom'')) None] @ replicate 4 (WStep 0) @
       [WLeave 0, LTick, LStep, LStep, LWaitDone, LStep, WQuit 0, LStep]) e
   | _ \<Rightarrow> None)"

text \<open>A failure that is to be ignored fails the run all the same: the run of a playbook whose only
  task sets \<open>ignore_errors\<close> and fails is not halted, but ends with the error for failed tasks and
  so with exit code 1.\<close>

theorem ignored_failure_fails_run:
  "map_option (\<lambda>e. (en_sched e, en_firstFatal e, determineExitCode None (Some failed_error) None)) ex_ignored_run =
   Some (SDone (Some failed_error), None, ExitFailure)"
  by code_simp

end
