(* ===== verification/Gxo_TaskRun.thy ===== *)
theory Gxo_TaskRun
  imports Gxo_Task Gxo_RunExamples
begin

text \<open>
  The task runner together with its surroundings: what the engine sees of a task is what
  \<open>ExecuteTask\<close> does; the wait groups of the producers over a run; producers that loop.
\<close>

subsection \<open>The engine's view of a task\<close>

text \<open>The engine models a task by its error and the value it registers, if any; every return of
  \<open>ExecuteTask\<close> is such a result.\<close>

lemma task_result_store:
  assumes exec: "ExecuteTask env dag task ls tx = Returns ((v, err), tx')"
    and node: "map_of (rc_dag cfg) x = Some n" "nd_Task n = task"
    and store: "en_store e = tx_store tx"
  shows "\<exists>w \<in> {None, Some v}. en_store (snd (task_result cfg x err w e)) = tx_store tx'"
proof -
  obtain tx1 cm where b: "task_body env dag task ls tx = Returns ((v, err), tx1)" "tx' = tx1\<lparr>tx_cm := cm\<rparr>"
    by (rule ExecuteTask_cases [OF exec])
  from task_body_store [OF b(1)] consider "tx_store tx' = tx_store tx"
    | "err = None" "tk_Register task \<noteq> []" "tx_store tx' = store_Set (tk_Register task) v (tx_store tx)"
    by (auto simp: b(2))
  then show ?thesis
  proof cases
    case 1
    then show ?thesis by (intro bexI [of _ None]) (simp_all add: task_result_def Let_def store)
  next
    case 2
    then show ?thesis by (intro bexI [of _ "Some v"]) (simp_all add: task_result_def Let_def store node)
  qed
qed

subsection \<open>The wait groups of the producers\<close>

text \<open>What is left of a producer's wait group when the consumers \<open>D\<close> have returned.\<close>

definition consumers_left :: "(string \<times> string) list \<Rightarrow> string set \<Rightarrow> string \<Rightarrow> nat" where
  "consumers_left plan D p = length (filter (\<lambda>x. fst x = p \<and> snd x \<notin> D) plan)"

definition wgs_count :: "(string \<times> string) list \<Rightarrow> string set \<Rightarrow> nat gomap \<Rightarrow> bool" where
  "wgs_count plan D wgs \<longleftrightarrow>
     (\<forall>p. map_of wgs p = (if p \<in> fst ` set plan then Some (consumers_left plan D p) else None))"

lemma wg_done_all_counts:
  "(\<forall>p. map_of wgs p = (if p \<in> P then Some (f p + count (mset ps) p) else None)) \<Longrightarrow> set ps \<subseteq> P \<Longrightarrow>
     \<exists>wgs'. wg_done_all ps wgs = Some wgs' \<and> (\<forall>p. map_of wgs' p = (if p \<in> P then Some (f p) else None))"
proof (induction ps arbitrary: wgs)
  case (Cons p ps)
  let ?wgs = "AList.update p (f p + count (mset ps) p) wgs"
  have "map_of wgs p = Some (Suc (f p + count (mset ps) p))" using Cons.prems by simp
  then have "wg_done_all (p # ps) wgs = wg_done_all ps ?wgs" by simp
  moreover have "\<forall>q. map_of ?wgs q = (if q \<in> P then Some (f q + count (mset ps) q) else None)"
    using Cons.prems by (auto simp: update_conv)
  ultimately show ?case using Cons.IH [of ?wgs] Cons.prems(2) by simp
qed simp

lemma count_producers: "count (mset (map fst (filter (\<lambda>x. snd x = c) plan))) p =
    length (filter (\<lambda>x. fst x = p \<and> snd x = c) plan)"
  by (induction plan) auto

lemma consumers_left_insert:
  "c \<notin> D \<Longrightarrow> consumers_left plan D p =
     consumers_left plan (insert c D) p + count (mset (map fst (filter (\<lambda>x. snd x = c) plan))) p"
  unfolding count_producers consumers_left_def by (induction plan) auto

text \<open>Each consumer's deferred \<open>Done\<close> finds every counter positive, in whatever order they return.\<close>

lemma consumer_done:
  assumes "wgs_count plan D wgs" and "c \<notin> D"
  shows "\<exists>wgs'. wg_done_all (map fst (filter (\<lambda>x. snd x = c) plan)) wgs = Some wgs' \<and> wgs_count plan (insert c D) wgs'"
  unfolding wgs_count_def
  by (rule wg_done_all_counts)
    (use assms(1) consumers_left_insert [OF assms(2), of plan] in \<open>auto simp: wgs_count_def simp del: mset_map mset_filter\<close>)

fun all_done :: "(string \<times> string) list \<Rightarrow> string list \<Rightarrow> nat gomap \<Rightarrow> nat gomap option" where
  "all_done plan [] wgs = Some wgs"
| "all_done plan (c # cs) wgs =
     Option.bind (wg_done_all (map fst (filter (\<lambda>x. snd x = c) plan)) wgs) (all_done plan cs)"

lemma all_done_counts:
  "wgs_count plan D wgs \<Longrightarrow> distinct cs \<Longrightarrow> set cs \<inter> D = {} \<Longrightarrow>
     \<exists>wgs'. all_done plan cs wgs = Some wgs' \<and> wgs_count plan (set cs \<union> D) wgs'"
proof (induction cs arbitrary: D wgs)
  case (Cons c cs)
  from consumer_done [OF Cons.prems(1), of c] Cons.prems(3)
  obtain w where w: "wg_done_all (map fst (filter (\<lambda>x. snd x = c) plan)) wgs = Some w" "wgs_count plan (insert c D) w"
    by auto
  from Cons.IH [OF w(2)] Cons.prems w(1) show ?case by auto
qed simp

lemma topology_wgs: "topology cm plan \<Longrightarrow> wgs_count plan {} (cm_producerWaitGroups cm)"
  by (simp add: topology_def wgs_count_def consumers_left_def length_outputs_of)

subsection \<open>Producers that loop\<close>

lemma close_keeps_outputs:
  "CloseOutputChannels p cm = Some cm' \<Longrightarrow> GetOutputManagedChannels x cm' = GetOutputManagedChannels x cm"
  by (auto simp: CloseOutputChannels_def GetOutputManagedChannels_def split: option.splits)

text \<open>A loop on a producer runs its module at most once: each iteration closes the outputs at its end,
  and closing them again panics.\<close>

definition is_recording :: "iteration \<Rightarrow> bool" where
  "is_recording pc = (case pc of Recording r \<Rightarrow> True | _ \<Rightarrow> False)"

definition is_result :: "loop_event \<Rightarrow> bool" where
  "is_result ev = (case ev of Finish i (Some r) \<Rightarrow> True | _ \<Rightarrow> False)"

lemma is_recording_simps [simp]:
  "is_recording (Recording r)" "\<not> is_recording Started" "\<not> is_recording Running" "\<not> is_recording Releasing"
  "\<not> is_recording Leaving" "\<not> is_recording Gone" "is_result (Finish i (Some r))" "\<not> is_result (Finish i None)" "\<not> is_result (Stop c)"
  by (simp_all add: is_recording_def is_result_def)

definition modules_run :: "('v, 's) loop_state \<Rightarrow> nat" where
  "modules_run s = among is_recording (lp_iters s) +
     length (filter is_result (lp_trace s))"

lemma modules_run_simps [simp]:
  "modules_run (s\<lparr>lp_pc := p\<rparr>) = modules_run s" "modules_run (s\<lparr>lp_sem := k\<rparr>) = modules_run s" "modules_run (s\<lparr>lp_wg := k\<rparr>) = modules_run s" "modules_run (s\<lparr>lp_ctx := c\<rparr>) = modules_run s"
  "modules_run (s\<lparr>lp_tx := tx\<rparr>) = modules_run s" "modules_run (s\<lparr>lp_pc := p, lp_wg := k, lp_iters := lp_iters s @ [Started]\<rparr>) = modules_run s"
  "modules_run (note_event ev s) = modules_run s + (if is_result ev then 1 else 0)" "modules_run (loop_start tx) = 0"
  by (simp_all add: modules_run_def)

lemma modules_run_update:
  "i < length (lp_iters s) \<Longrightarrow> modules_run (set_iter i pc s) + (if is_recording (lp_iters s ! i) then 1 else 0) =
     modules_run s + (if is_recording pc then 1 else 0)"
  using among_update [of i "lp_iters s" is_recording pc] by (simp add: modules_run_def)

lemma producer_instance_closes:
  assumes "GetOutputManagedChannels (tk_InternalID task) (tx_cm tx) \<noteq> None"
    and "executeSingleTaskInstance env dag task scope i tx = Returns (r, tx')"
  shows "CloseOutputChannels (tk_InternalID task) (tx_cm tx) = Some (tx_cm tx') \<and>
    GetOutputManagedChannels (tk_InternalID task) (tx_cm tx') \<noteq> None"
  using executeSingle_keeps [OF assms(2)] assms(1)
    close_keeps_outputs [of "tk_InternalID task" "tx_cm tx" "tx_cm tx'" "tk_InternalID task"] by auto

definition producer_loop_inv :: "string \<Rightarrow> 'v ChannelManager \<Rightarrow> ('v, 's) loop_state \<Rightarrow> bool" where
  "producer_loop_inv p cm s \<longleftrightarrow> GetOutputManagedChannels p (tx_cm (lp_tx s)) \<noteq> None \<and>
     (modules_run s = 0 \<and> tx_cm (lp_tx s) = cm \<or> modules_run s = 1 \<and> CloseOutputChannels p (tx_cm (lp_tx s)) = None)"

lemma producer_loop_step:
  assumes top: "topology cm plan" and p: "tk_InternalID task \<in> fst ` set plan"
    and step: "loop_fire env dag task items l s = Returns s'" and inv: "producer_loop_inv (tk_InternalID task) cm s"
  shows "producer_loop_inv (tk_InternalID task) cm s'"
  using step
proof (cases rule: loop_fire_cases)
  case (performed i r tx)
  have out: "GetOutputManagedChannels (tk_InternalID task) (tx_cm (lp_tx s)) \<noteq> None"
    using inv by (simp add: producer_loop_inv_def)
  from producer_instance_closes [OF out performed(4)]
  have c: "CloseOutputChannels (tk_InternalID task) (tx_cm (lp_tx s)) = Some (tx_cm tx)"
    "GetOutputManagedChannels (tk_InternalID task) (tx_cm tx) \<noteq> None" by simp_all
  with inv have cm: "modules_run s = 0" "tx_cm (lp_tx s) = cm" by (auto simp: producer_loop_inv_def)
  have "CloseOutputChannels (tk_InternalID task) (tx_cm tx) = None"
    using CloseOutputChannels_once [OF top, of "tk_InternalID task"] p c(1) cm(2) by auto
  moreover have "modules_run s' = Suc (modules_run s)" using performed modules_run_update [of i "s\<lparr>lp_tx := tx\<rparr>" "Recording r"] by simp
  ultimately show ?thesis using performed c cm by (simp add: producer_loop_inv_def)
next
  case (recorded i r)
  with modules_run_update [of i s Releasing] inv show ?thesis by (simp add: producer_loop_inv_def)
next
  case (dropped i)
  with modules_run_update [of i s Releasing] inv show ?thesis by (simp add: producer_loop_inv_def)
next
  case (checked i)
  with modules_run_update [of i s Running] inv show ?thesis by (simp add: producer_loop_inv_def)
next
  case (released i)
  with modules_run_update [of i "s\<lparr>lp_sem := lp_sem s - 1\<rparr>" Leaving] inv show ?thesis by (simp add: producer_loop_inv_def)
next
  case (departed i)
  with modules_run_update [of i "s\<lparr>lp_wg := lp_wg s - 1\<rparr>" Gone] inv show ?thesis by (simp add: producer_loop_inv_def)
qed (use inv in \<open>simp_all add: producer_loop_inv_def\<close>)

lemma looped_producer_once:
  assumes top: "topology (tx_cm tx) plan" and p: "tk_InternalID task \<in> fst ` set plan"
    and run: "loop_fires env dag task items ls (loop_start tx) = Returns s"
  shows "modules_run s \<le> 1"
proof -
  have "GetOutputManagedChannels (tk_InternalID task) (tx_cm tx) \<noteq> None"
    using top p by (simp add: topology_def GetOutputManagedChannels_def)
  then have "producer_loop_inv (tk_InternalID task) (tx_cm tx) (loop_start tx)"
    by (simp add: producer_loop_inv_def)
  with run have "producer_loop_inv (tk_InternalID task) (tx_cm tx) s"
    by (induction rule: loop_fires_induct) (auto intro: producer_loop_step [OF top p])
  then show ?thesis by (auto simp: producer_loop_inv_def)
qed

lemma looped_producer_stops:
  assumes "topology (tx_cm tx) plan" and "tk_InternalID task \<in> fst ` set plan"
    and two: "2 \<le> length items" and ctx: "\<forall>c. CtxEnds c \<notin> set ls"
  shows "run_loop env dag task items ls tx \<in> {Blocks, Panics}"
proof (cases "run_loop env dag task items ls tx")
  case (Returns res)
  obtain r tx' where "run_loop env dag task items ls tx = Returns (r, tx')" using Returns by (cases res) simp
  then obtain s where s: "loop_fires env dag task items ls (loop_start tx) = Returns s" "lp_pc s = Ended"
    by (rule run_loop_cases)
  have "length (finished (lp_trace s)) = length items"
    using loop_ended_events [OF loop_inv_fires [OF s(1) loop_inv_start] s(2)] loop_undisturbed [OF s(1) ctx]
    by (simp add: loop_events_ok_def Let_def)
  moreover have "stops evs = [] \<Longrightarrow> \<forall>i. Finish i None \<notin> set evs \<Longrightarrow>
      length (filter is_result evs) = length (finished evs)" for evs
  proof (induction evs)
    case (Cons ev evs)
    then show ?case by (cases ev rule: event_error.cases) auto
  qed simp
  from this [of "lp_trace s"] loop_undisturbed [OF s(1) ctx] have "length (finished (lp_trace s)) \<le> modules_run s"
    by (simp add: modules_run_def)
  ultimately show ?thesis using looped_producer_once [OF assms(1,2) s(1)] two by simp
qed simp_all

text \<open>When its modules return, a schedule that runs one item after the other panics.\<close>

definition two_in_turn :: "loop_label list" where
  "two_in_turn = [Acquire, Launch, Check 0, Perform 0, Record 0, Release 0, Acquire, Launch, Check 1, Perform 1]"

lemma looped_producer_schedule:
  fixes tx :: "('v, 's) task_state"
  assumes top: "topology (tx_cm tx) plan" and p: "tk_InternalID task \<in> fst ` set plan" and two: "2 \<le> length items"
    and ret: "\<And>scope i (t :: ('v, 's) task_state). \<exists>r t'. instance_body env dag task scope i t = Returns (r, t')"
  shows "run_loop env dag task items two_in_turn tx = Panics"
proof -
  let ?p = "tk_InternalID task"
  have out: "GetOutputManagedChannels ?p (tx_cm tx) \<noteq> None"
    using top p by (simp add: topology_def GetOutputManagedChannels_def)
  have run: "(case CloseOutputChannels ?p (tx_cm t) of None \<Rightarrow> executeSingleTaskInstance env dag task scope i t = Panics
      | Some cm \<Rightarrow> \<exists>r t'. executeSingleTaskInstance env dag task scope i t = Returns (r, t') \<and> tx_cm t' = cm)"
    if "GetOutputManagedChannels ?p (tx_cm t) \<noteq> None" for scope i and t :: "('v, 's) task_state"
  proof -
    obtain r t' where b: "instance_body env dag task scope i t = Returns (r, t')" using ret by blast
    with instance_body_keeps [OF b] that show ?thesis by (auto simp: executeSingleTaskInstance_def split: option.split)
  qed
  obtain cm where cm: "CloseOutputChannels ?p (tx_cm tx) = Some cm" "CloseOutputChannels ?p cm = None"
    using CloseOutputChannels_once [OF top, of ?p] p by auto
  from run [OF out] cm(1) obtain r t where one: "executeSingleTaskInstance env dag task [(GetLoopVar task, items ! 0)] 0 tx = Returns (r, t)"
    "tx_cm t = cm" by fastforce
  have "executeSingleTaskInstance env dag task [(GetLoopVar task, items ! 1)] 1 t = Panics"
    using run [of t] one(2) cm close_keeps_outputs [OF cm(1)] out by (auto split: option.splits)
  moreover have "items \<noteq> []" "0 < length items" "Suc 0 < length items" "0 < nat (GetLoopParallel task)"
    using two GetLoopParallel_pos [of task] by auto
  ultimately show ?thesis using one(1)
    by (simp add: run_loop_def two_in_turn_def at_iter_def set_iter_def note_event_def loop_start_def)
qed

lemma looped_producer_task:
  fixes tx :: "('v, 's) task_state"
  assumes "topology (tx_cm tx) plan" and "tk_InternalID task \<in> fst ` set plan"
    and "check_when env task tx = (None, tx1)"
    and "resolveLoopItems env (tk_Loop task) (all_state env tx1) (tx_user tx1) = (Inr items, u)" and "2 \<le> length items"
  shows "((\<forall>c. CtxEnds c \<notin> set ls) \<longrightarrow> ExecuteTask env dag task ls tx \<in> {Blocks, Panics}) \<and>
    ((\<forall>scope i (t :: ('v, 's) task_state). \<exists>r t'. instance_body env dag task scope i t = Returns (r, t')) \<longrightarrow>
       ExecuteTask env dag task two_in_turn tx = Panics)"
proof -
  have cm: "tx_cm (tx1\<lparr>tx_user := u\<rparr>) = tx_cm tx" using check_when_keeps [OF assms(3)] by simp
  have body: "task_body env dag task l tx = (case run_loop env dag task items l (tx1\<lparr>tx_user := u\<rparr>) of
      Returns (r, tx2) \<Rightarrow> Returns (register_result env task r tx2) | Blocks \<Rightarrow> Blocks | Panics \<Rightarrow> Panics)" for l
    using assms(3-5) by (auto simp: task_body_def)
  have "task_body env dag task ls tx \<in> {Blocks, Panics}" if "\<forall>c. CtxEnds c \<notin> set ls"
    using looped_producer_stops [of "tx1\<lparr>tx_user := u\<rparr>" plan task items ls env dag] assms(1,2,5) that cm by (auto simp: body)
  moreover have "task_body env dag task two_in_turn tx = Panics"
    if "\<And>scope i (t :: ('v, 's) task_state). \<exists>r t'. instance_body env dag task scope i t = Returns (r, t')"
    using looped_producer_schedule [of "tx1\<lparr>tx_user := u\<rparr>" plan task items env dag] assms(1,2,5) that cm by (simp add: body)
  ultimately show ?thesis by (auto simp: ExecuteTask_def)
qed

subsection \<open>Examples\<close>

text \<open>A module that returns a secret it used, and whose task's state is the secret tracker.\<close>

definition ex_task_env :: "SecretTracker task_env" where
  "ex_task_env = \<lparr>te_ord = id, te_storeRng = in_order, te_paramRng = in_order, te_itemOrd = id,
     te_opaque = (\<lambda>_. None), te_parseFloat = (\<lambda>_. None),
     te_render = (\<lambda>s m u. (Inr s, u)), te_resolve = (\<lambda>s m u. (Inr (VStr s), u)), te_tracker = (\<lambda>u. u),
     te_before = [], te_registry = (\<lambda>_. None),
     te_perform = (\<lambda>i a params inputs outs u.
       ((VSlice [VStr ''key=s3cret'', VStr ''ok''], None, []), tracker_Add ''s3cret'' u)),
     te_ctxBefore = (\<lambda>_ _. None), te_ctxWait = (\<lambda>_ _. None), te_draw = (\<lambda>_ _. 0),
     te_float = \<lparr>fe_round = FNum, fe_round32 = FNum, fe_pow = (\<lambda>f n. f), fe_convert = (\<lambda>_. 0)\<rparr>,
     te_keywordRng = in_order, te_keywords = [], te_ctxDone = (\<lambda>_. False)\<rparr>"

definition ex_task :: Task where
  "ex_task = (plain_task ''a'' ''m'')\<lparr>tk_Register := ''r'', tk_InternalID := ''a''\<rparr>"

definition ex_task_state :: "'v ChannelManager \<Rightarrow> ('v, SecretTracker) task_state" where
  "ex_task_state cm = \<lparr>tx_cm = cm, tx_store = NewMemoryStateStore, tx_aggregated = [], tx_user = NewSecretTracker\<rparr>"

definition ex_plain_cm :: "unit ChannelManager" where
  "ex_plain_cm = reset_manager (fst (NewChannelManager None))"

definition ex_wired_cm :: "unit ChannelManager" where
  "ex_wired_cm = connect ''a'' ''b'' ex_plain_cm"

lemma ex_wired: "topology ex_wired_cm [(''a'', ''b'')]"
  using connect_topology [OF reset_topology, of "''a''" "''b''" "fst (NewChannelManager None)"]
  by (simp add: ex_wired_cm_def ex_plain_cm_def)

definition ex_secret_summary :: goval where
  "ex_secret_summary = VSlice [VStr ''key=s3cret'', VStr ''ok'']"

lemma ex_instance: "executeSingleTaskInstance ex_task_env [] ex_task [] 0 (ex_task_state ex_plain_cm) =
    Returns ((ex_secret_summary, None), (ex_task_state ex_plain_cm)\<lparr>tx_user := tracker_Add ''s3cret'' NewSecretTracker\<rparr>)"
proof -
  have cm: "GetOutputManagedChannels x ex_plain_cm = None" "GetInputChannelMap x ex_plain_cm = None" for x
    by (simp_all add: ex_plain_cm_def reset_manager_def GetOutputManagedChannels_def GetInputChannelMap_def)
  have "perform_op ex_task_env 0 [] [] [] 1 (NewSecretTracker, [], VNil) = (None, tracker_Add ''s3cret'' NewSecretTracker, [], ex_secret_summary)"
    by (simp add: perform_op_def ex_task_env_def ex_secret_summary_def)
  then have "Do (perform_env ex_task_env 0 [] [] []) (task_retry ex_task) (NewSecretTracker, [], VNil) =
    \<lparr>rs_err = None, rs_waits = [], rs_calls = 1, rs_state = (tracker_Add ''s3cret'' NewSecretTracker, [], ex_secret_summary)\<rparr>"
    by (intro Do_success) (simp_all add: perform_env_def, simp add: ex_task_env_def)
  moreover have "te_before ex_task_env = []" "te_registry ex_task_env x = None"
    "te_paramRng ex_task_env 0 [] = []" for x
    by (simp_all add: ex_task_env_def in_order_def)
  moreover have "tk_Params ex_task = []" "tk_StreamInputs ex_task = []"
    by (simp_all add: ex_task_def plain_task_def)
  ultimately show ?thesis
    by (simp add: executeSingleTaskInstance_def instance_body_def run_module_def ex_task_state_def cm)
qed

lemma ex_execute: "ExecuteTask ex_task_env [] ex_task [] (ex_task_state ex_plain_cm) =
    Returns ((VSlice [VStr RedactedSecretValue, VStr ''ok''], None),
      (ex_task_state ex_plain_cm)\<lparr>tx_user := tracker_Add ''s3cret'' NewSecretTracker,
         tx_store := store_Set ''r'' (VSlice [VStr RedactedSecretValue, VStr ''ok'']) NewMemoryStateStore\<rparr>)"
proof -
  have "register_result ex_task_env ex_task (ex_secret_summary, None)
      ((ex_task_state ex_plain_cm)\<lparr>tx_user := tracker_Add ''s3cret'' NewSecretTracker\<rparr>) =
    ((VSlice [VStr RedactedSecretValue, VStr ''ok''], None),
     (ex_task_state ex_plain_cm)\<lparr>tx_user := tracker_Add ''s3cret'' NewSecretTracker,
        tx_store := store_Set ''r'' (VSlice [VStr RedactedSecretValue, VStr ''ok'']) NewMemoryStateStore\<rparr>)"
  proof -
    have "fst (RedactTrackedSecrets ex_secret_summary (Some (tracker_Add ''s3cret'' NewSecretTracker))) =
      VSlice [VStr RedactedSecretValue, VStr ''ok'']" by code_simp
    then show ?thesis by (simp add: register_result_def Let_def ex_task_env_def ex_task_def ex_task_state_def)
  qed
  moreover have "check_when ex_task_env ex_task tx = (None, tx)" for tx :: "(unit, SecretTracker) task_state"
    by (simp add: check_when_def ex_task_def plain_task_def)
  moreover have "tk_Loop ex_task = VNil" by (simp add: ex_task_def plain_task_def)
  ultimately have "task_body ex_task_env [] ex_task [] (ex_task_state ex_plain_cm) =
    Returns ((VSlice [VStr RedactedSecretValue, VStr ''ok''], None),
      (ex_task_state ex_plain_cm)\<lparr>tx_user := tracker_Add ''s3cret'' NewSecretTracker,
         tx_store := store_Set ''r'' (VSlice [VStr RedactedSecretValue, VStr ''ok'']) NewMemoryStateStore\<rparr>)"
    by (simp add: task_body_def resolveLoopItems_def ex_instance) 
  then show ?thesis
    by (simp add: ExecuteTask_def GetConsumerProducerWaitGroups_def ex_task_state_def ex_plain_cm_def reset_manager_def)
qed

text \<open>A loop over two items, two at a time, whose module returns the number of its iteration.\<close>

definition ex_loop_env :: "SecretTracker task_env" where
  "ex_loop_env = ex_task_env\<lparr>te_perform := (\<lambda>i a params inputs outs u. ((VInt KInt (int i), None, []), u))\<rparr>"

definition ex_loop_task :: Task where
  "ex_loop_task = ex_task\<lparr>tk_LoopControl := Some \<lparr>lc_Parallel = 2, lc_LoopVar = []\<rparr>\<rparr>"

definition no_outputs :: "(unit, SecretTracker) task_state \<Rightarrow> bool" where
  "no_outputs tx \<longleftrightarrow> GetOutputManagedChannels ''a'' (tx_cm tx) = None"

lemma ex_no_outputs: "no_outputs (ex_task_state ex_plain_cm)"
  by (simp add: no_outputs_def ex_task_state_def ex_plain_cm_def reset_manager_def GetOutputManagedChannels_def)

lemma ex_loop_instance:
  assumes "no_outputs tx"
  shows "executeSingleTaskInstance ex_loop_env [] ex_loop_task scope i tx = Returns ((VInt KInt (int i), None), tx)"
proof -
  have "Do (perform_env ex_loop_env i [] ins []) (task_retry ex_loop_task) (u, [], VNil) =
    \<lparr>rs_err = None, rs_waits = [], rs_calls = 1, rs_state = (u, [], VInt KInt (int i))\<rparr>" for ins u
    by (intro Do_success) (simp_all add: perform_env_def perform_op_def ex_loop_env_def ex_task_env_def)
  moreover have "te_before ex_loop_env = []" "te_registry ex_loop_env x = None" "te_paramRng ex_loop_env 0 [] = []" for x
    by (simp_all add: ex_loop_env_def ex_task_env_def in_order_def)
  moreover have "tk_Params ex_loop_task = []" "tk_StreamInputs ex_loop_task = []" "tk_InternalID ex_loop_task = ''a''"
    by (simp_all add: ex_loop_task_def ex_task_def plain_task_def)
  ultimately show ?thesis using assms
    by (simp add: executeSingleTaskInstance_def instance_body_def run_module_def no_outputs_def Let_def)
qed

lemma ex_loop_returns: "instances_return ex_loop_env [] ex_loop_task items no_outputs"
  by (simp add: instances_return_def ex_loop_instance)

text \<open>Both are launched, the second is done first.\<close>

definition ex_loop_run :: "loop_label list" where
  "ex_loop_run = [Acquire, Launch, Acquire, Launch, Check 0, Check 1, Perform 1, Record 1, Perform 0, Record 0,
     Release 0, Depart 0, Launch, Release 1, Depart 1, Launch]"

lemma ex_loop_result: "run_loop ex_loop_env [] ex_loop_task [VBool True, VBool False] ex_loop_run (ex_task_state ex_plain_cm) =
    Returns ((VInt KInt 0, None), ex_task_state ex_plain_cm)"
proof -
  have "GetLoopParallel ex_loop_task = 2" by (simp add: GetLoopParallel_def ex_loop_task_def)
  then show ?thesis using ex_loop_instance [OF ex_no_outputs]
    by (simp add: run_loop_def ex_loop_run_def at_iter_def set_iter_def note_event_def loop_start_def)
qed

text \<open>If the context ends before the launched goroutines start, they leave without a result and without
  an error: the loop succeeds although no item was worked on.\<close>

lemma dropped_loop_succeeds:
  "run_loop ex_loop_env [] ex_loop_task [VBool True, VBool False]
     [Acquire, Launch, Acquire, Launch, CtxEnds DeadlineExceeded, Check 0, Check 1, Release 0, Depart 0, Release 1, Depart 1,
      Launch, Launch] tx = Returns ((VNil, None), tx)"
proof -
  have "GetLoopParallel ex_loop_task = 2" by (simp add: GetLoopParallel_def ex_loop_task_def)
  then show ?thesis by (simp add: run_loop_def at_iter_def set_iter_def note_event_def loop_start_def)
qed

text \<open>A module whose first call succeeds after sending more than ten record errors never returns.\<close>

lemma many_record_errors:
  assumes "te_ctxBefore env i 1 = None" and "length errs > err_capacity"
    and "te_perform env i 1 params
      (case GetInputChannelMap (tk_InternalID task) (tx_cm tx) of None \<Rightarrow> [] | Some m \<Rightarrow> m)
      (case GetOutputManagedChannels (tk_InternalID task) (tx_cm tx) of None \<Rightarrow> [] | Some cs \<Rightarrow> cs)
      (tx_user tx) = ((v, None, errs), u)"
  shows "run_module env task i params tx = Blocks"
proof -
  let ?ins = "case GetInputChannelMap (tk_InternalID task) (tx_cm tx) of None \<Rightarrow> [] | Some m \<Rightarrow> m"
  let ?outs = "case GetOutputManagedChannels (tk_InternalID task) (tx_cm tx) of None \<Rightarrow> [] | Some cs \<Rightarrow> cs"
  have "Do (perform_env env i params ?ins ?outs) (task_retry task) (tx_user tx, [], VNil) =
    \<lparr>rs_err = None, rs_waits = [], rs_calls = 1, rs_state = (u, errs, v)\<rparr>"
    by (rule Do_success) (use assms(1,3) in \<open>simp_all add: perform_env_def perform_op_def\<close>)
  with assms(2) show ?thesis by (intro record_errors_block) simp
qed

end
