(* ===== verification/Gxo_Join.thy ===== *)
theory Gxo_Join
  imports Gxo_Params Gxo_Task "HOL-Library.Char_ord" "HOL-Library.List_Lexorder"
begin

text \<open>
  The stream module \<open>stream:join\<close> (\<open>modules/stream/join/join.go\<close>): its parameters, join keys, the
  build phase (one goroutine per build stream and a collector, as steps), the probe phase, the
  emission of unmatched build records, and the records it makes. A record is a map that is not
  nil. What the state reader's \<open>GetAll\<close> returns is an argument, the same for all records.
\<close>

subsection \<open>Keys\<close>

datatype join_key = JNil | JInt int | JStr string

text \<open>\<open>strconv.ParseInt(s, 10, 64)\<close>.\<close>

definition digits_value :: "string \<Rightarrow> nat" where
  "digits_value s = foldl (\<lambda>n c. 10 * n + digit_val c) 0 s"

definition parse_int64 :: "string \<Rightarrow> int option" where
  "parse_int64 s =
     (let (neg, ds) = (case s of [] \<Rightarrow> (False, []) | c # cs \<Rightarrow>
            if c = CHR ''-'' then (True, cs) else if c = CHR ''+'' then (False, cs) else (False, s));
          i = (if neg then - int (digits_value ds) else int (digits_value ds))
      in if ds \<noteq> [] \<and> list_all is_digit ds \<and> in_int64 i then Some i else None)"

text \<open>
  What a join depends on: floats and their texts, the texts of \<open>%v\<close>, the renderer's \<open>Resolve\<close>, the
  state, the capacity of the error channel, the orders of ranges over maps, and what the module
  sees each time it looks at its context (\<open>None\<close>: it goes on).
\<close>

record join_env =
  je_float :: float_env
  je_showFloat :: "gofloat \<Rightarrow> string"
  je_showVal :: "goval \<Rightarrow> string"
  je_resolve :: "string \<Rightarrow> params \<Rightarrow> goerr + goval"
  je_all :: params
  je_errCap :: nat
  je_ctx :: "nat \<Rightarrow> goerr option"
  je_comboRng :: "(string \<times> params option) ranger"
  je_keyRng :: "join_key ranger"

definition normalizeKey :: "join_env \<Rightarrow> goval \<Rightarrow> goerr + join_key" where
  "normalizeKey env originalKey =
     (case originalKey of
        VNil \<Rightarrow> Inr JNil
      | VInt k i \<Rightarrow> if signed_kind k then Inr (JInt i) else Inr (JStr (je_showVal env originalKey))
      | VFloat k f \<Rightarrow>
          if whole_number (je_float env) k f then Inr (JInt (to_int64 (je_float env) f))
          else Inl (PlainError (''cannot use non-integer '' @ type_name originalKey @ '' '' @ q (je_showFloat env f) @
                 '' as a join key''))
      | VStr s \<Rightarrow> (case parse_int64 s of Some i \<Rightarrow> Inr (JInt i) | None \<Rightarrow> Inr (JStr s))
      | _ \<Rightarrow> Inr (JStr (je_showVal env originalKey)))"

subsection \<open>Configuration\<close>

record joinKeyConfig =
  jk_StreamName :: string
  jk_Field :: string
  jk_Template :: string
  jk_IsProbe :: bool
  jk_inputChannel :: nat

record moduleConfig =
  jc_joinType :: string
  jc_buildStreams :: "joinKeyConfig list"
  jc_probeStream :: joinKeyConfig
  jc_mergeStrategy :: string
  jc_nestingKeys :: "string gomap"
  jc_maxBuildRecords :: int

definition extractKey :: "join_env \<Rightarrow> joinKeyConfig \<Rightarrow> params \<Rightarrow> goerr + join_key" where
  "extractKey env cfg r =
     (if jk_Field cfg \<noteq> [] then
        (case map_of r (jk_Field cfg) of
           None \<Rightarrow> Inl (PlainError (''join key field '' @ q (jk_Field cfg) @ '' not found in record''))
         | Some rawKey \<Rightarrow> normalizeKey env rawKey)
      else
        (case je_resolve env (jk_Template cfg) (fold (\<lambda>(k, v). AList.update k v) r (je_all env)) of
           Inl err \<Rightarrow> Inl (WrapError ''failed to render join key template: '' err [])
         | Inr rawKey \<Rightarrow> normalizeKey env rawKey))"

subsection \<open>Parameters\<close>

definition optional_text :: "params \<Rightarrow> string \<Rightarrow> string option" where
  "optional_text m key = (case GetOptionalString m key of Inl e \<Rightarrow> None | Inr r \<Rightarrow> r)"

text \<open>One element of \<open>on\<close>: its stream, with the configurations made so far.\<close>

definition on_element ::
    "params \<Rightarrow> nat gomap \<Rightarrow> nat \<Rightarrow> goval \<Rightarrow> joinKeyConfig gomap \<Rightarrow> goerr + joinKeyConfig gomap" where
  "on_element producerIDMap inputs i item cfgs =
     (case (case item of VMap m \<Rightarrow> Some m | VNilMap \<Rightarrow> Some [] | _ \<Rightarrow> None) of
        None \<Rightarrow> Inl (VE (''element '' @ show_nat i @ '' in '' @ q ''on'' @ '' is not a map''))
      | Some itemMap \<Rightarrow>
         (case GetRequiredString itemMap ''stream'' of
            Inl e \<Rightarrow> Inl (VE (''missing '' @ q ''stream'' @ '' key in element '' @ show_nat i @ '' of '' @ q ''on''))
          | Inr streamName \<Rightarrow>
              if map_of cfgs streamName \<noteq> None
              then Inl (VE (''duplicate stream name '' @ q streamName @ '' in '' @ q ''on''))
              else (case optional_text itemMap ''role'' of
                 None \<Rightarrow> Inl (VE (''stream '' @ q streamName @ '' must have '' @ q ''role'' @ '' ('' @ q ''build'' @
                            '' or '' @ q ''probe'' @ '')''))
               | Some role \<Rightarrow>
                  (case map_of producerIDMap streamName of
                     Some (VStr producerID) \<Rightarrow>
                       (case map_of inputs producerID of
                          None \<Rightarrow> Inl (VE (''stream '' @ q streamName @ '' defined but no input channel provided by engine''))
                        | Some inputChan \<Rightarrow>
                           (case (optional_text itemMap ''field'', optional_text itemMap ''template'') of
                              (Some field, None) \<Rightarrow>
                                Inr (AList.update streamName \<lparr>jk_StreamName = streamName, jk_Field = field,
                                  jk_Template = [], jk_IsProbe = (role = ''probe''), jk_inputChannel = inputChan\<rparr> cfgs)
                            | (None, Some template) \<Rightarrow>
                                Inr (AList.update streamName \<lparr>jk_StreamName = streamName, jk_Field = [],
                                  jk_Template = template, jk_IsProbe = (role = ''probe''), jk_inputChannel = inputChan\<rparr> cfgs)
                            | _ \<Rightarrow> Inl (VE (''stream '' @ q streamName @ '' must have exactly one of '' @
                                     q ''field'' @ '' or '' @ q ''template''))))
                   | _ \<Rightarrow> Inl (VE (''internal error: producer ID for stream '' @ q streamName @ '' not found''))))))"

fun on_elements ::
    "params \<Rightarrow> nat gomap \<Rightarrow> nat \<Rightarrow> goval list \<Rightarrow> joinKeyConfig gomap \<Rightarrow> goerr + joinKeyConfig gomap" where
  "on_elements producerIDMap inputs i [] cfgs = Inr cfgs"
| "on_elements producerIDMap inputs i (item # rest) cfgs =
     (case on_element producerIDMap inputs i item cfgs of
        Inl e \<Rightarrow> Inl e
      | Inr cfgs' \<Rightarrow> on_elements producerIDMap inputs (Suc i) rest cfgs')"

text \<open>The maps a range visits here: map-valued parameters, the streams, the nesting keys.\<close>

record join_rngs =
  jr_any :: "(goval \<times> goval) ranger"
  jr_streams :: "(string \<times> joinKeyConfig) ranger"
  jr_nesting :: "(string \<times> goval) ranger"

fun nesting_texts :: "(string \<times> goval) list \<Rightarrow> string gomap \<Rightarrow> goerr + string gomap" where
  "nesting_texts [] acc = Inr acc"
| "nesting_texts ((k, VStr s) # rest) acc = nesting_texts rest (AList.update k s acc)"
| "nesting_texts ((k, v) # rest) acc =
     Inl (VE (''values in '' @ q ''nesting_keys'' @ '' must be strings''))"

text \<open>The parameter \<open>output\<close>: the merge strategy and the nesting keys. An error of the map's type is
  ignored.\<close>

definition optional_map :: "(goval \<times> goval) ranger \<Rightarrow> params \<Rightarrow> string \<Rightarrow> params option" where
  "optional_map rng m key = (case GetOptionalMap rng m key of Inl e \<Rightarrow> None | Inr r \<Rightarrow> r)"

definition parse_output :: "join_rngs \<Rightarrow> params \<Rightarrow> joinKeyConfig gomap \<Rightarrow> goerr + string \<times> string gomap" where
  "parse_output rngs params cfgs =
     (case optional_map (jr_any rngs) params ''output'' of
        None \<Rightarrow> Inr (''flat'', [])
      | Some outputParams \<Rightarrow>
         (let strategy = (case optional_text outputParams ''merge_strategy'' of None \<Rightarrow> ''flat'' | Some val \<Rightarrow> val) in
          if strategy \<noteq> ''flat'' \<and> strategy \<noteq> ''nested''
          then Inl (VE (''unsupported merge_strategy: '' @ q strategy))
          else if strategy = ''nested'' then
            (case optional_map (jr_any rngs) outputParams ''nesting_keys'' of
               None \<Rightarrow> Inl (VE (q ''nesting_keys'' @ '' is required for nested merge_strategy''))
             | Some nk \<Rightarrow>
                (case nesting_texts (jr_nesting rngs 0 nk) [] of
                   Inl e \<Rightarrow> Inl e
                 | Inr nestingKeys \<Rightarrow>
                    (case List.find (\<lambda>(name, c). map_of nestingKeys name = None) (jr_streams rngs 1 cfgs) of
                       Some (name, c) \<Rightarrow> Inl (VE (''missing nesting_key for stream '' @ q name))
                     | None \<Rightarrow> Inr (strategy, nestingKeys))))
          else Inr (strategy, [])))"

definition parse_limits :: "join_env \<Rightarrow> join_rngs \<Rightarrow> params \<Rightarrow> goerr + int" where
  "parse_limits env rngs params =
     (case optional_map (jr_any rngs) params ''limits'' of
        None \<Rightarrow> Inr 0
      | Some limitsParams \<Rightarrow>
         (case GetOptionalInt (je_float env) (\<lambda>f. je_showVal env (VFloat KFloat64 f)) limitsParams ''max_build_records'' of
            Inl e \<Rightarrow> Inl e
          | Inr None \<Rightarrow> Inr 0
          | Inr (Some n) \<Rightarrow> Inr n))"

definition parseAndValidateParams ::
    "join_env \<Rightarrow> join_rngs \<Rightarrow> params \<Rightarrow> nat gomap \<Rightarrow> goerr + moduleConfig" where
  "parseAndValidateParams env rngs params inputs =
     (case GetOptionalMap (jr_any rngs) params ProducerIDMapKey of
        Inl e \<Rightarrow> Inl (ValidationError ''internal error: could not read _gxo_producer_id_map_'' (Some e))
      | Inr idMap \<Rightarrow>
     (case GetRequiredString params ''join_type'' of
        Inl e \<Rightarrow> Inl e
      | Inr joinType \<Rightarrow>
        if joinType \<notin> {''inner'', ''left'', ''right'', ''outer''}
        then Inl (VE (''unsupported join_type: '' @ q joinType))
        else
     (case map_of params ''on'' of
        None \<Rightarrow> Inl (VE (''missing required parameter '' @ q ''on''))
      | Some rawOn \<Rightarrow>
     (case (case rawOn of VSlice xs \<Rightarrow> xs | _ \<Rightarrow> []) of onList \<Rightarrow>
        if length onList < 2 \<or> length onList \<noteq> length inputs
        then Inl (VE (''parameter '' @ q ''on'' @ '' must be a list of '' @ show_nat (length inputs) @
               '' objects, one for each input stream''))
        else
     (case on_elements (case idMap of None \<Rightarrow> [] | Some m \<Rightarrow> m) inputs 0 onList [] of
        Inl e \<Rightarrow> Inl e
      | Inr cfgs \<Rightarrow>
        (let probes = filter jk_IsProbe (map snd cfgs) in
         if length probes \<noteq> 1
         then Inl (VE (''exactly one stream must have role '' @ q ''probe'' @ '', found '' @ show_nat (length probes)))
         else
     (case parse_output rngs params cfgs of
        Inl e \<Rightarrow> Inl e
      | Inr (strategy, nestingKeys) \<Rightarrow>
     (case parse_limits env rngs params of
        Inl e \<Rightarrow> Inl e
      | Inr limit \<Rightarrow>
        Inr \<lparr>jc_joinType = joinType,
          jc_buildStreams = filter (\<lambda>c. \<not> jk_IsProbe c) (map snd (jr_streams rngs 0 cfgs)),
          jc_probeStream = hd probes, jc_mergeStrategy = strategy, jc_nestingKeys = nestingKeys,
          jc_maxBuildRecords = limit\<rparr>))))))))"

subsection \<open>The build map\<close>

record buildEntry =
  be_record :: params
  be_matched :: bool

type_synonym build_streams = "buildEntry list gomap"

type_synonym build_map = "(join_key \<times> build_streams) list"

definition insert_build :: "join_key \<Rightarrow> string \<Rightarrow> params \<Rightarrow> build_map \<Rightarrow> build_map" where
  "insert_build key sn r bm =
     (let streams = (case map_of bm key of None \<Rightarrow> [] | Some m \<Rightarrow> m)
      in AList.update key
           (AList.update sn (get_list streams sn @ [\<lparr>be_record = r, be_matched = False\<rparr>]) streams) bm)"

definition entries :: "build_map \<Rightarrow> join_key \<Rightarrow> string \<Rightarrow> buildEntry list" where
  "entries bm key sn = (case map_of bm key of None \<Rightarrow> [] | Some m \<Rightarrow> get_list m sn)"

definition mark_matched :: "build_streams \<Rightarrow> build_streams" where
  "mark_matched m = map (\<lambda>(s, es). (s, map (\<lambda>e. e\<lparr>be_matched := True\<rparr>) es)) m"

definition key_matched :: "build_streams \<Rightarrow> bool" where
  "key_matched m = list_ex (\<lambda>(s, es). list_ex be_matched es) m"

subsection \<open>Combinations and joined records\<close>

text \<open>A combination gives a record or nil for each stream.\<close>

type_synonym combo = "params option gomap"

definition extend_combos :: "string \<Rightarrow> params option list \<Rightarrow> combo list \<Rightarrow> combo list" where
  "extend_combos sn choices combos =
     concat (map (\<lambda>c. map (\<lambda>x. AList.update sn x c) choices) combos)"

fun combine :: "string \<Rightarrow> joinKeyConfig list \<Rightarrow> build_streams \<Rightarrow> combo list \<Rightarrow> combo list" where
  "combine joinType [] buildStreams combos = combos"
| "combine joinType (b # bs) buildStreams combos =
     (let buildEntries = get_list buildStreams (jk_StreamName b) in
      if buildEntries = [] then
        (if joinType = ''inner'' then []
         else combine joinType bs buildStreams (extend_combos (jk_StreamName b) [None] combos))
      else combine joinType bs buildStreams
             (extend_combos (jk_StreamName b) (map (\<lambda>e. Some (be_record e)) buildEntries) combos))"

definition getCombinations :: "moduleConfig \<Rightarrow> params option \<Rightarrow> build_streams \<Rightarrow> combo list" where
  "getCombinations cfg probeRecord buildStreams =
     combine (jc_joinType cfg) (jc_buildStreams cfg) buildStreams
       [case probeRecord of Some r \<Rightarrow> [(jk_StreamName (jc_probeStream cfg), Some r)] | None \<Rightarrow> []]"

definition constructJoinedRecord :: "join_env \<Rightarrow> moduleConfig \<Rightarrow> combo \<Rightarrow> params" where
  "constructJoinedRecord env cfg combination =
     (if jc_mergeStrategy cfg = ''nested'' then
        fold (\<lambda>(streamName, r) joined. case map_of (jc_nestingKeys cfg) streamName of
            None \<Rightarrow> joined
          | Some nestingKey \<Rightarrow> AList.update nestingKey (case r of None \<Rightarrow> VNil | Some m \<Rightarrow> VMap m) joined)
          (je_comboRng env 0 combination) []
      else
        fold (\<lambda>streamName joined. case map_of combination streamName of
            Some (Some recMap) \<Rightarrow> fold (\<lambda>(k, v). AList.update k v) recMap joined
          | _ \<Rightarrow> joined) (sort (keys combination)) [])"

subsection \<open>Emission, probe and post-probe phase\<close>

text \<open>The module's looks at its context so far, what it sent on which output, its counters and the
  record errors it reported.\<close>

record join_state =
  js_looks :: nat
  js_out :: "(nat \<times> params) list"
  js_processed :: nat
  js_joined :: nat
  js_skipped :: nat
  js_errs :: "goerr list"

definition look :: "join_env \<Rightarrow> join_state \<Rightarrow> goerr option \<times> join_state" where
  "look env st = (je_ctx env (js_looks st), st\<lparr>js_looks := js_looks st + 1\<rparr>)"

fun send_outputs :: "join_env \<Rightarrow> params \<Rightarrow> nat list \<Rightarrow> join_state \<Rightarrow> goerr option \<times> join_state" where
  "send_outputs env r [] st = (None, st)"
| "send_outputs env r (out # outs) st =
     (case look env st of
        (Some err, st1) \<Rightarrow> (Some err, st1)
      | (None, st1) \<Rightarrow> send_outputs env r outs (st1\<lparr>js_out := js_out st1 @ [(out, r)]\<rparr>))"

fun emit_combos ::
    "join_env \<Rightarrow> moduleConfig \<Rightarrow> nat list \<Rightarrow> combo list \<Rightarrow> join_state \<Rightarrow> goerr option \<times> join_state" where
  "emit_combos env cfg outs [] st = (None, st)"
| "emit_combos env cfg outs (combo # combos) st =
     (case send_outputs env (constructJoinedRecord env cfg combo) outs (st\<lparr>js_joined := js_joined st + 1\<rparr>) of
        (Some err, st1) \<Rightarrow> (Some err, st1)
      | (None, st1) \<Rightarrow> emit_combos env cfg outs combos st1)"

definition emitJoinedRecords ::
    "join_env \<Rightarrow> moduleConfig \<Rightarrow> nat list \<Rightarrow> params option \<Rightarrow> build_streams \<Rightarrow> join_state \<Rightarrow>
     goerr option \<times> join_state" where
  "emitJoinedRecords env cfg outs probeRecord buildStreams st =
     emit_combos env cfg outs (getCombinations cfg probeRecord buildStreams) st"

text \<open>The probe phase. Sending a record error blocks while the error channel is full, unless the
  context ends.\<close>

fun runProbePhase ::
    "join_env \<Rightarrow> moduleConfig \<Rightarrow> nat list \<Rightarrow> params list \<Rightarrow> build_map \<Rightarrow> join_state \<Rightarrow>
     (goerr option \<times> build_map \<times> join_state) outcome" where
  "runProbePhase env cfg outs [] bm st = Returns (None, bm, st)"
| "runProbePhase env cfg outs (r # rest) bm st =
     (case look env st of
        (Some err, st1) \<Rightarrow> Returns (Some err, bm, st1)
      | (None, st1) \<Rightarrow>
         (let st2 = st1\<lparr>js_processed := js_processed st1 + 1\<rparr> in
          case extractKey env (jc_probeStream cfg) r of
            Inl keyErr \<Rightarrow>
              (case look env (st2\<lparr>js_skipped := js_skipped st2 + 1\<rparr>) of
                 (Some err, st3) \<Rightarrow> Returns (Some err, bm, st3)
               | (None, st3) \<Rightarrow>
                   if length (js_errs st3) < je_errCap env
                   then runProbePhase env cfg outs rest bm (st3\<lparr>js_errs := js_errs st3 @
                          [RecordProcessingError ''stream:join'' (Some (je_showVal env (VMap r))) (Some keyErr)]\<rparr>)
                   else Blocks)
          | Inr probeKey \<Rightarrow>
              (case map_of bm probeKey of
                 Some matched \<Rightarrow>
                   (case emitJoinedRecords env cfg outs (Some r) matched st2 of
                      (Some err, st3) \<Rightarrow> Returns (Some err, AList.update probeKey (mark_matched matched) bm, st3)
                    | (None, st3) \<Rightarrow>
                        runProbePhase env cfg outs rest (AList.update probeKey (mark_matched matched) bm) st3)
               | None \<Rightarrow>
                   if jc_joinType cfg = ''left'' \<or> jc_joinType cfg = ''outer'' then
                     (case emitJoinedRecords env cfg outs (Some r) [] st2 of
                        (Some err, st3) \<Rightarrow> Returns (Some err, bm, st3)
                      | (None, st3) \<Rightarrow> runProbePhase env cfg outs rest bm st3)
                   else runProbePhase env cfg outs rest bm st2)))"

text \<open>\<open>%v\<close> of a key.\<close>

fun key_text :: "join_key \<Rightarrow> string" where
  "key_text JNil = ''<nil>''"
| "key_text (JInt i) = show_int i"
| "key_text (JStr s) = s"

fun post_keys ::
    "join_env \<Rightarrow> moduleConfig \<Rightarrow> nat list \<Rightarrow> join_key list \<Rightarrow> build_map \<Rightarrow> join_state \<Rightarrow> goerr option \<times> join_state" where
  "post_keys env cfg outs [] bm st = (None, st)"
| "post_keys env cfg outs (key # rest) bm st =
     (case look env st of
        (Some err, st1) \<Rightarrow> (Some err, st1)
      | (None, st1) \<Rightarrow>
         (let streams = (case map_of bm key of None \<Rightarrow> [] | Some m \<Rightarrow> m) in
          if key_matched streams then post_keys env cfg outs rest bm st1
          else (case emitJoinedRecords env cfg outs None streams st1 of
              (Some err, st2) \<Rightarrow>
                (Some (WrapError (''error emitting unmatched right/outer record for key '' @ key_text key @ '': '') err []), st2)
            | (None, st2) \<Rightarrow> post_keys env cfg outs rest bm st2)))"

text \<open>\<open>sort.Slice\<close> leaves the order of keys with the same text open; so does the range before it.\<close>

definition runPostProbePhase ::
    "join_env \<Rightarrow> moduleConfig \<Rightarrow> nat list \<Rightarrow> build_map \<Rightarrow> join_state \<Rightarrow> goerr option \<times> join_state" where
  "runPostProbePhase env cfg outs bm st =
     (if jc_joinType cfg \<noteq> ''right'' \<and> jc_joinType cfg \<noteq> ''outer'' then (None, st)
      else (case look env st of
          (Some err, st1) \<Rightarrow> (Some err, st1)
        | (None, st1) \<Rightarrow> post_keys env cfg outs (sort_key key_text (je_keyRng env 0 (map fst bm))) bm st1))"

subsection \<open>The build phase\<close>

text \<open>
  One goroutine per build stream, which receives, counts, extracts the key and hands the record
  over, and the collector that fills the map. A step is one of these of one goroutine; the
  shared error and the cancellation of the phase are set in one step, as \<open>buildErrOnce\<close> does.
  The remaining records of a stream are those its producer has still to send before it closes
  the channel.
\<close>

datatype build_pc = GRecv | GCount params | GKey params | GFail params goerr | GSend params join_key | GLeft

record build_state =
  bs_in :: "params list list"
  bs_pc :: "build_pc list"
  bs_total :: int
  bs_skipped :: nat
  bs_err :: "goerr option"
  bs_cancelled :: bool
  bs_merged :: "(string \<times> params \<times> join_key) list"
  bs_map :: build_map
  bs_errs :: "goerr list"

datatype build_label = JStep nat | JQuit nat | JCollect | JCancel

definition merged_cap :: "moduleConfig \<Rightarrow> nat" where
  "merged_cap cfg = 100 * length (jc_buildStreams cfg)"

definition limit_error :: "moduleConfig \<Rightarrow> goerr" where
  "limit_error cfg = TaskExecutionError ''stream:join''
     (Some (PlainError (''limit exceeded: max_build_records of '' @ show_int (jc_maxBuildRecords cfg) @ '' reached'')))"

definition over_limit :: "moduleConfig \<Rightarrow> int \<Rightarrow> bool" where
  "over_limit cfg n \<longleftrightarrow> jc_maxBuildRecords cfg > 0 \<and> n > jc_maxBuildRecords cfg"

definition set_pc :: "nat \<Rightarrow> build_pc \<Rightarrow> build_state \<Rightarrow> build_state" where
  "set_pc i pc s = s\<lparr>bs_pc := (bs_pc s)[i := pc]\<rparr>"

fun build_step :: "join_env \<Rightarrow> moduleConfig \<Rightarrow> nat \<Rightarrow> build_pc \<Rightarrow> build_state \<Rightarrow> build_state option" where
  "build_step env cfg i GRecv s =
     Some (case bs_in s ! i of
        [] \<Rightarrow> set_pc i GLeft s
      | r # rest \<Rightarrow>
          (let s1 = s\<lparr>bs_in := (bs_in s)[i := rest]\<rparr>
           in if bs_cancelled s \<or> bs_err s \<noteq> None then s1 else set_pc i (GCount r) s1))"
| "build_step env cfg i (GCount r) s =
     (let s1 = s\<lparr>bs_total := bs_total s + 1\<rparr> in
      Some (if over_limit cfg (bs_total s1) then
              set_pc i GRecv (if bs_err s = None then s1\<lparr>bs_err := Some (limit_error cfg), bs_cancelled := True\<rparr> else s1)
            else set_pc i (GKey r) s1))"
| "build_step env cfg i (GKey r) s =
     Some (case extractKey env (jc_buildStreams cfg ! i) r of
        Inl keyErr \<Rightarrow> set_pc i (GFail r keyErr) (s\<lparr>bs_skipped := bs_skipped s + 1\<rparr>)
      | Inr key \<Rightarrow> set_pc i (GSend r key) s)"
| "build_step env cfg i (GFail r keyErr) s =
     (if length (bs_errs s) < je_errCap env
      then Some (set_pc i GRecv (s\<lparr>bs_errs := bs_errs s @
             [RecordProcessingError ''stream:join'' (Some (je_showVal env (VMap r))) (Some keyErr)]\<rparr>))
      else None)"
| "build_step env cfg i (GSend r key) s =
     (if length (bs_merged s) < merged_cap cfg
      then Some (set_pc i GRecv (s\<lparr>bs_merged := bs_merged s @ [(jk_StreamName (jc_buildStreams cfg ! i), r, key)]\<rparr>))
      else None)"
| "build_step env cfg i GLeft s = None"

fun build_fire :: "join_env \<Rightarrow> moduleConfig \<Rightarrow> build_label \<Rightarrow> build_state \<Rightarrow> build_state option" where
  "build_fire env cfg (JStep i) s =
     (if i < length (bs_pc s) then build_step env cfg i (bs_pc s ! i) s else None)"
| "build_fire env cfg (JQuit i) s =
     (if i < length (bs_pc s) \<and> bs_cancelled s then
        (case bs_pc s ! i of
           GFail r keyErr \<Rightarrow> Some (set_pc i GLeft s)
         | GSend r key \<Rightarrow> Some (set_pc i GLeft s)
         | _ \<Rightarrow> None)
      else None)"
| "build_fire env cfg JCollect s =
     (case bs_merged s of
        [] \<Rightarrow> None
      | (sn, r, key) # rest \<Rightarrow>
          Some (s\<lparr>bs_merged := rest,
                  bs_map := (if bs_err s \<noteq> None then bs_map s else insert_build key sn r (bs_map s))\<rparr>))"
| "build_fire env cfg JCancel s = Some (s\<lparr>bs_cancelled := True\<rparr>)"

fun build_fires :: "join_env \<Rightarrow> moduleConfig \<Rightarrow> build_label list \<Rightarrow> build_state \<Rightarrow> build_state option" where
  "build_fires env cfg [] s = Some s"
| "build_fires env cfg (l # ls) s =
     (case build_fire env cfg l s of None \<Rightarrow> None | Some s' \<Rightarrow> build_fires env cfg ls s')"

definition build_start :: "moduleConfig \<Rightarrow> params list list \<Rightarrow> build_state" where
  "build_start cfg ins = \<lparr>bs_in = ins, bs_pc = replicate (length (jc_buildStreams cfg)) GRecv, bs_total = 0,
     bs_skipped = 0, bs_err = None, bs_cancelled = False, bs_merged = [], bs_map = [], bs_errs = []\<rparr>"

definition build_finished :: "build_state \<Rightarrow> bool" where
  "build_finished s \<longleftrightarrow> list_all (\<lambda>pc. pc = GLeft) (bs_pc s) \<and> bs_merged s = []"

text \<open>\<open>Perform\<close> after the build phase, and its summary.\<close>

definition join_summary :: "build_state \<Rightarrow> join_state \<Rightarrow> params" where
  "join_summary s st =
     [(''records_joined'', VInt KInt64 (int (js_joined st))),
      (''probe_stream_records'', VInt KInt64 (int (js_processed st))),
      (''build_stream_records'', VInt KInt64 (bs_total s)),
      (''skipped_key_errors'', VInt KInt64 (int (bs_skipped s + js_skipped st)))]"

definition join_start :: "build_state \<Rightarrow> join_state" where
  "join_start s = \<lparr>js_looks = 0, js_out = [], js_processed = 0, js_joined = 0, js_skipped = 0, js_errs = bs_errs s\<rparr>"

definition Perform_join ::
    "join_env \<Rightarrow> moduleConfig \<Rightarrow> nat list \<Rightarrow> params list \<Rightarrow> build_state \<Rightarrow>
     ((goerr + params) \<times> join_state) outcome" where
  "Perform_join env cfg outs probes s =
     (case bs_err s of
        Some buildErr \<Rightarrow> Returns (Inl buildErr, join_start s)
      | None \<Rightarrow>
         (case runProbePhase env cfg outs probes (bs_map s) (join_start s) of
            Returns (Some probeErr, bm, st) \<Rightarrow> Returns (Inl probeErr, st)
          | Returns (None, bm, st) \<Rightarrow>
              (case runPostProbePhase env cfg outs bm st of
                 (Some err, st1) \<Rightarrow> Returns (Inl err, st1)
               | (None, st1) \<Rightarrow> Returns (Inr (join_summary s st1), st1))
          | Blocks \<Rightarrow> Blocks
          | Panics \<Rightarrow> Panics))"

end
