(* ===== verification/Gxo_JoinBuild.thy ===== *)
theory Gxo_JoinBuild
  imports Gxo_Join
begin

text \<open>
  The build phase of the join: whatever the interleaving of its goroutines, it ends, and if it is
  not cancelled and stays within the limit the map holds, per key and stream, the stream's records
  with that key in the order they were sent.
\<close>

subsection \<open>The records of a stream and key\<close>

definition recs :: "build_map \<Rightarrow> join_key \<Rightarrow> string \<Rightarrow> params list" where
  "recs bm k nm = map be_record (entries bm k nm)"

lemma entries_insert:
  "entries (insert_build key sn r bm) k nm =
     entries bm k nm @ (if k = key \<and> nm = sn then [\<lparr>be_record = r, be_matched = False\<rparr>] else [])"
  by (auto simp: entries_def insert_build_def Let_def get_list_def split: option.splits)

lemma recs_insert: "recs (insert_build key sn r bm) k nm = recs bm k nm @ (if sn = nm \<and> key = k then [r] else [])"
  by (auto simp: recs_def entries_insert)

definition queued :: "(string \<times> params \<times> join_key) list \<Rightarrow> join_key \<Rightarrow> string \<Rightarrow> params list" where
  "queued merged k nm = map (\<lambda>(sn, r, k'). r) (filter (\<lambda>(sn, r, k'). sn = nm \<and> k' = k) merged)"

lemma queued_simps [simp]:
  "queued [] k nm = []"
  "queued ((sn, r, k') # xs) k nm = (if sn = nm \<and> k' = k then [r] else []) @ queued xs k nm"
  "queued (xs @ ys) k nm = queued xs k nm @ queued ys k nm"
  by (simp_all add: queued_def)

definition key_of :: "join_env \<Rightarrow> moduleConfig \<Rightarrow> nat \<Rightarrow> params \<Rightarrow> goerr + join_key" where
  "key_of env cfg i r = extractKey env (jc_buildStreams cfg ! i) r"

definition with_key :: "join_env \<Rightarrow> moduleConfig \<Rightarrow> nat \<Rightarrow> join_key \<Rightarrow> params list \<Rightarrow> params list" where
  "with_key env cfg i k rs = filter (\<lambda>r. key_of env cfg i r = Inr k) rs"

fun pc_records :: "build_pc \<Rightarrow> params list" where
  "pc_records (GCount r) = [r]"
| "pc_records (GKey r) = [r]"
| "pc_records (GSend r k) = [r]"
| "pc_records _ = []"

fun pc_ok :: "join_env \<Rightarrow> moduleConfig \<Rightarrow> nat \<Rightarrow> build_pc \<Rightarrow> bool" where
  "pc_ok env cfg i (GSend r k) \<longleftrightarrow> key_of env cfg i r = Inr k"
| "pc_ok env cfg i _ \<longleftrightarrow> True"

definition stream_name :: "moduleConfig \<Rightarrow> nat \<Rightarrow> string" where
  "stream_name cfg i = jk_StreamName (jc_buildStreams cfg ! i)"

definition names_distinct :: "moduleConfig \<Rightarrow> bool" where
  "names_distinct cfg \<longleftrightarrow> distinct (map jk_StreamName (jc_buildStreams cfg))"

lemma stream_name_inj:
  "names_distinct cfg \<Longrightarrow> i < length (jc_buildStreams cfg) \<Longrightarrow> j < length (jc_buildStreams cfg) \<Longrightarrow>
     stream_name cfg i = stream_name cfg j \<longleftrightarrow> i = j"
  unfolding names_distinct_def stream_name_def using nth_eq_iff_index_eq by fastforce

text \<open>Where the records of stream \<open>i\<close> are: in the map, in the merged channel, in the goroutine's
  hands, still to be received.\<close>

definition flows :: "join_env \<Rightarrow> moduleConfig \<Rightarrow> params list \<Rightarrow> nat \<Rightarrow> build_pc \<Rightarrow> params list \<Rightarrow> build_state \<Rightarrow> bool" where
  "flows env cfg xs i pc rest s \<longleftrightarrow> pc_ok env cfg i pc \<and> (pc = GLeft \<longrightarrow> rest = []) \<and>
     (\<forall>k. recs (bs_map s) k (stream_name cfg i) @ queued (bs_merged s) k (stream_name cfg i) @
          with_key env cfg i k (pc_records pc @ rest) = with_key env cfg i k xs)"

definition sized :: "moduleConfig \<Rightarrow> params list list \<Rightarrow> build_state \<Rightarrow> bool" where
  "sized cfg ins s \<longleftrightarrow> length ins = length (jc_buildStreams cfg) \<and> length (bs_in s) = length ins \<and>
     length (bs_pc s) = length ins"

definition live :: "build_state \<Rightarrow> bool" where
  "live s \<longleftrightarrow> bs_err s = None \<and> \<not> bs_cancelled s"

definition flow_inv :: "join_env \<Rightarrow> moduleConfig \<Rightarrow> params list list \<Rightarrow> build_state \<Rightarrow> bool" where
  "flow_inv env cfg ins s \<longleftrightarrow> (\<forall>i < length ins. flows env cfg (ins ! i) i (bs_pc s ! i) (bs_in s ! i) s)"

lemma set_pc_fields [simp]:
  "bs_in (set_pc i pc s) = bs_in s" "bs_pc (set_pc i pc s) = (bs_pc s)[i := pc]"
  "bs_total (set_pc i pc s) = bs_total s" "bs_skipped (set_pc i pc s) = bs_skipped s"
  "bs_err (set_pc i pc s) = bs_err s" "bs_cancelled (set_pc i pc s) = bs_cancelled s"
  "bs_merged (set_pc i pc s) = bs_merged s" "bs_map (set_pc i pc s) = bs_map s"
  "bs_errs (set_pc i pc s) = bs_errs s"
  by (simp_all add: set_pc_def)

lemma build_step_sized:
  "build_step env cfg i pc s = Some s' \<Longrightarrow> sized cfg ins s \<Longrightarrow> sized cfg ins s'"
  by (cases "(env, cfg, i, pc, s)" rule: build_step.cases)
    (auto simp: sized_def Let_def split: if_splits sum.splits list.splits)

lemma build_fire_sized: "build_fire env cfg l s = Some s' \<Longrightarrow> sized cfg ins s \<Longrightarrow> sized cfg ins s'"
proof (cases "(env, cfg, l, s)" rule: build_fire.cases)
  case (1 env' cfg' i s0)
  moreover assume "build_fire env cfg l s = Some s'" "sized cfg ins s"
  ultimately show ?thesis using build_step_sized by (auto split: if_splits)
qed (auto simp: sized_def split: if_splits build_pc.splits list.splits)

text \<open>A step of stream \<open>i\<close> that leaves the map and the channel alone.\<close>

lemma flow_local:
  assumes inv: "flow_inv env cfg ins s" and sz: "sized cfg ins s" and i: "i < length ins"
    and s': "bs_map s' = bs_map s" "bs_merged s' = bs_merged s" "bs_pc s' = (bs_pc s)[i := pc]"
      "bs_in s' = (bs_in s)[i := rest]"
    and here: "flows env cfg (ins ! i) i pc rest s"
  shows "flow_inv env cfg ins s'"
  unfolding flow_inv_def
proof (intro allI impI)
  fix j assume j: "j < length ins"
  show "flows env cfg (ins ! j) j (bs_pc s' ! j) (bs_in s' ! j) s'"
  proof (cases "j = i")
    case True
    with here i sz s' show ?thesis by (simp add: flows_def sized_def)
  next
    case False
    with inv j s' sz show ?thesis by (simp add: flows_def flow_inv_def)
  qed
qed

lemma with_key_simps [simp]:
  "with_key env cfg i k [] = []"
  "with_key env cfg i k (r # rs) = (if key_of env cfg i r = Inr k then [r] else []) @ with_key env cfg i k rs"
  "with_key env cfg i k (xs @ ys) = with_key env cfg i k xs @ with_key env cfg i k ys"
  by (simp_all add: with_key_def)

lemma flow_step:
  assumes step: "build_step env cfg i (bs_pc s ! i) s = Some s'" and i: "i < length ins"
    and inv: "flow_inv env cfg ins s" and sz: "sized cfg ins s" and lv: "live s'" and nm: "names_distinct cfg"
  shows "flow_inv env cfg ins s' \<and> live s"
proof -
  have here: "flows env cfg (ins ! i) i (bs_pc s ! i) (bs_in s ! i) s" using inv i by (simp add: flow_inv_def)
  show ?thesis
  proof (cases "bs_pc s ! i")
    case GRecv
    show ?thesis
    proof (cases "bs_in s ! i")
      case Nil
      with step GRecv have "s' = set_pc i GLeft s" by simp
      moreover have "(bs_in s)[i := []] = bs_in s" using Nil by (metis list_update_id)
      ultimately have "flow_inv env cfg ins s'"
        by (intro flow_local [OF inv sz i, of s' GLeft "[]"]) (use here GRecv Nil in \<open>simp_all add: flows_def\<close>)
      with lv \<open>s' = set_pc i GLeft s\<close> show ?thesis by (simp add: live_def)
    next
      case (Cons r rest)
      with step GRecv lv have "live s" by (auto simp: live_def Let_def split: if_splits)
      with step GRecv Cons have "s' = set_pc i (GCount r) (s\<lparr>bs_in := (bs_in s)[i := rest]\<rparr>)"
        by (simp add: live_def Let_def)
      with here GRecv Cons have "flow_inv env cfg ins s'"
        by (intro flow_local [OF inv sz i, of s' "GCount r" rest]) (simp_all add: flows_def)
      with \<open>live s\<close> show ?thesis by simp
    qed
  next
    case (GCount r)
    with step lv have "live s" "s' = set_pc i (GKey r) (s\<lparr>bs_total := bs_total s + 1\<rparr>)"
      by (auto simp: live_def Let_def split: if_splits)
    with here GCount have "flow_inv env cfg ins s'"
      by (intro flow_local [OF inv sz i, of s' "GKey r" "bs_in s ! i"]) (simp_all add: flows_def)
    with \<open>live s\<close> show ?thesis by simp
  next
    case (GKey r)
    show ?thesis
    proof (cases "extractKey env (jc_buildStreams cfg ! i) r")
      case (Inl keyErr)
      with step GKey have s': "s' = set_pc i (GFail r keyErr) (s\<lparr>bs_skipped := bs_skipped s + 1\<rparr>)" by simp
      with here GKey Inl have "flow_inv env cfg ins s'"
        by (intro flow_local [OF inv sz i, of s' "GFail r keyErr" "bs_in s ! i"]) (simp_all add: flows_def key_of_def)
      with lv s' show ?thesis by (simp add: live_def)
    next
      case (Inr key)
      with step GKey have s': "s' = set_pc i (GSend r key) s" by simp
      with here GKey Inr have "flow_inv env cfg ins s'"
        by (intro flow_local [OF inv sz i, of s' "GSend r key" "bs_in s ! i"]) (simp_all add: flows_def key_of_def)
      with lv s' show ?thesis by (simp add: live_def)
    qed
  next
    case (GFail r keyErr)
    with step obtain es where "s' = set_pc i GRecv (s\<lparr>bs_errs := es\<rparr>)" by (auto split: if_splits)
    with here GFail have "flow_inv env cfg ins s'"
      by (intro flow_local [OF inv sz i, of s' GRecv "bs_in s ! i"]) (simp_all add: flows_def)
    with lv \<open>s' = set_pc i GRecv (s\<lparr>bs_errs := es\<rparr>)\<close> show ?thesis by (simp add: live_def)
  next
    case (GSend r key)
    with step have s': "s' = set_pc i GRecv (s\<lparr>bs_merged := bs_merged s @ [(stream_name cfg i, r, key)]\<rparr>)"
      by (auto simp: stream_name_def split: if_splits)
    have "flows env cfg (ins ! j) j (bs_pc s' ! j) (bs_in s' ! j) s'" if j: "j < length ins" for j
    proof (cases "j = i")
      case True
      from here GSend have "key_of env cfg i r = Inr key" by (simp add: flows_def)
      with here GSend s' sz i True show ?thesis by (simp add: flows_def sized_def split del: if_split)
    next
      case False
      then have "stream_name cfg i \<noteq> stream_name cfg j" using stream_name_inj [OF nm] sz i j by (simp add: sized_def)
      with inv j s' False show ?thesis by (simp add: flows_def flow_inv_def)
    qed
    with lv s' show ?thesis by (simp add: flow_inv_def live_def)
  qed (use step in simp)
qed

lemma flow_fire:
  assumes step: "build_fire env cfg l s = Some s'" and inv: "live s \<Longrightarrow> flow_inv env cfg ins s"
    and sz: "sized cfg ins s" and lv: "live s'" and nm: "names_distinct cfg"
  shows "flow_inv env cfg ins s'"
proof (cases "(env, cfg, l, s)" rule: build_fire.cases)
  case (1 env' cfg' i s0)
  with step sz have i: "i < length ins" and st: "build_step env cfg i (bs_pc s ! i) s = Some s'"
    by (auto simp: sized_def split: if_splits)
  have "live s"
    using st lv by (cases "bs_pc s ! i") (auto simp: live_def Let_def split: list.splits if_splits sum.splits)
  with flow_step [OF st i inv sz lv nm] show ?thesis by simp
next
  case (3 env' cfg' s0)
  with step obtain sn r key rest where m: "bs_merged s = (sn, r, key) # rest"
    and s': "s' = s\<lparr>bs_merged := rest, bs_map := (if bs_err s \<noteq> None then bs_map s else insert_build key sn r (bs_map s))\<rparr>"
    by (auto split: list.splits)
  with lv have "live s" by (simp add: live_def)
  have "flows env cfg (ins ! j) j (bs_pc s' ! j) (bs_in s' ! j) s'" if "j < length ins" for j
  proof -
    have "flows env cfg (ins ! j) j (bs_pc s ! j) (bs_in s ! j) s" using inv [OF \<open>live s\<close>] that by (simp add: flow_inv_def)
    with m s' \<open>live s\<close> show ?thesis by (simp add: flows_def recs_insert live_def)
  qed
  then show ?thesis by (simp add: flow_inv_def)
qed (use step lv in \<open>auto simp: live_def split: if_splits build_pc.splits\<close>)

subsection \<open>Counting\<close>

definition tally :: "(nat \<Rightarrow> build_pc \<Rightarrow> params list \<Rightarrow> int) \<Rightarrow> build_state \<Rightarrow> int" where
  "tally f s = (\<Sum>j < length (bs_pc s). f j (bs_pc s ! j) (bs_in s ! j))"

lemma tally_update:
  assumes "i < length (bs_pc s)" and "length (bs_in s) = length (bs_pc s)"
    and "bs_pc s' = (bs_pc s)[i := pc]" and "bs_in s' = (bs_in s)[i := rest]"
  shows "tally f s' = tally f s - f i (bs_pc s ! i) (bs_in s ! i) + f i pc rest"
proof -
  let ?n = "length (bs_pc s)"
  have i: "i \<in> {..<?n}" using assms(1) by simp
  have same: "(\<Sum>j \<in> {..<?n} - {i}. f j (bs_pc s' ! j) (bs_in s' ! j)) = (\<Sum>j \<in> {..<?n} - {i}. f j (bs_pc s ! j) (bs_in s ! j))"
    by (rule sum.cong) (simp_all add: assms(3,4))
  have "tally f s' = f i (bs_pc s' ! i) (bs_in s' ! i) + (\<Sum>j \<in> {..<?n} - {i}. f j (bs_pc s' ! j) (bs_in s' ! j))"
    using sum.remove [OF _ i, of "\<lambda>j. f j (bs_pc s' ! j) (bs_in s' ! j)"] by (simp add: tally_def assms(3))
  moreover have "tally f s = f i (bs_pc s ! i) (bs_in s ! i) + (\<Sum>j \<in> {..<?n} - {i}. f j (bs_pc s ! j) (bs_in s ! j))"
    using sum.remove [OF _ i, of "\<lambda>j. f j (bs_pc s ! j) (bs_in s ! j)"] by (simp add: tally_def)
  moreover have "f i (bs_pc s' ! i) (bs_in s' ! i) = f i pc rest" using assms by simp
  ultimately show ?thesis by (simp add: same)
qed

lemma tally_cong: "bs_pc s' = bs_pc s \<Longrightarrow> bs_in s' = bs_in s \<Longrightarrow> tally f s' = tally f s"
  by (simp add: tally_def)

text \<open>What a step of stream \<open>i\<close> changes of the goroutine and its input.\<close>

lemma step_shape:
  assumes "build_step env cfg i (bs_pc s ! i) s = Some s'" and "i < length (bs_pc s)" and "length (bs_in s) = length (bs_pc s)"
  shows "bs_pc s' = (bs_pc s)[i := bs_pc s' ! i] \<and> bs_in s' = (bs_in s)[i := bs_in s' ! i]"
proof (cases "bs_pc s ! i")
  case GRecv
  with assms show ?thesis by (cases "bs_in s ! i"; auto simp: Let_def; metis list_update_id)
qed (use assms in \<open>auto simp: Let_def split: if_splits sum.splits\<close>)

lemma step_tally:
  assumes "build_step env cfg i (bs_pc s ! i) s = Some s'" and "i < length (bs_pc s)" and "length (bs_in s) = length (bs_pc s)"
  shows "tally f s' = tally f s - f i (bs_pc s ! i) (bs_in s ! i) + f i (bs_pc s' ! i) (bs_in s' ! i)"
  using tally_update [OF assms(2,3)] step_shape [OF assms] by blast

subsection \<open>The build phase ends\<close>

fun pc_weight :: "build_pc \<Rightarrow> int" where
  "pc_weight GLeft = 0"
| "pc_weight GRecv = 1"
| "pc_weight (GCount r) = 5"
| "pc_weight (GKey r) = 4"
| "pc_weight (GFail r e) = 3"
| "pc_weight (GSend r k) = 3"

lemma pc_weight_nonneg: "pc_weight pc \<ge> 0"
  by (cases pc) simp_all

definition build_measure :: "build_state \<Rightarrow> int" where
  "build_measure s = tally (\<lambda>i pc rest. pc_weight pc + 5 * int (length rest)) s + int (length (bs_merged s))"

lemma build_measure_step:
  assumes step: "build_fire env cfg l s = Some s'" and sz: "sized cfg ins s"
  shows "build_measure s' \<le> build_measure s - of_bool (l \<noteq> JCancel)"
proof (cases "(env, cfg, l, s)" rule: build_fire.cases)
  case (1 env' cfg' i s0)
  with step have st: "build_step env cfg i (bs_pc s ! i) s = Some s'" and i: "i < length (bs_pc s)" by (auto split: if_splits)
  have len: "length (bs_in s) = length (bs_pc s)" using sz by (simp add: sized_def)
  have i': "i < length (bs_in s)" using i len by simp
  show ?thesis unfolding build_measure_def step_tally [OF st i len]
    using st i i' 1 by (cases "bs_pc s ! i") (auto simp: Let_def split: list.splits if_splits sum.splits)
next
  case (2 env' cfg' i s0)
  with step sz have i: "i < length (bs_pc s)" and len: "length (bs_in s) = length (bs_pc s)"
    and s': "s' = set_pc i GLeft s" and pc: "pc_weight (bs_pc s ! i) = 3"
    by (auto simp: sized_def split: if_splits build_pc.splits)
  have "tally f s' = tally f s - f i (bs_pc s ! i) (bs_in s ! i) + f i GLeft (bs_in s ! i)" for f
    by (rule tally_update [OF i len]) (simp_all add: s')
  then show ?thesis using pc by (simp add: build_measure_def s')
next
  case (3 env' cfg' s0)
  with step obtain sn r key rest where m: "bs_merged s = (sn, r, key) # rest"
    and s': "s' = s\<lparr>bs_merged := rest, bs_map := (if bs_err s \<noteq> None then bs_map s else insert_build key sn r (bs_map s))\<rparr>"
    by (auto split: list.splits)
  have "tally f s' = tally f s" for f by (rule tally_cong) (simp_all add: s')
  with m s' show ?thesis by (simp add: build_measure_def)
next
  case (4 env' cfg' s0)
  with step have "s' = s\<lparr>bs_cancelled := True\<rparr>" by auto
  with 4 show ?thesis by (simp add: build_measure_def tally_def)
qed

lemma build_measure_nonneg: "build_measure s \<ge> 0"
proof -
  have "pc_weight pc \<ge> 0" for pc by (cases pc) simp_all
  then show ?thesis unfolding build_measure_def tally_def by (intro add_nonneg_nonneg sum_nonneg) simp_all
qed

lemma build_steps_bound:
  "build_fires env cfg ls s = Some s' \<Longrightarrow> sized cfg ins s \<Longrightarrow>
     int (length (filter (\<lambda>l. l \<noteq> JCancel) ls)) \<le> build_measure s - build_measure s'"
proof (induction ls arbitrary: s)
  case (Cons l ls)
  then obtain s1 where s1: "build_fire env cfg l s = Some s1" "build_fires env cfg ls s1 = Some s'" by (auto split: option.splits)
  from Cons.IH [OF s1(2) build_fire_sized [OF s1(1) Cons.prems(2)]] build_measure_step [OF s1(1) Cons.prems(2)]
  show ?case by auto
qed simp

lemma build_start_measure:
  assumes "length ins = length (jc_buildStreams cfg)"
  shows "build_measure (build_start cfg ins) = int (length ins) + 5 * int (sum_list (map length ins))"
proof -
  have "tally (\<lambda>i pc rest. pc_weight pc + 5 * int (length rest)) (build_start cfg ins) =
      (\<Sum>j < length ins. 1 + 5 * int (length (ins ! j)))"
    unfolding tally_def by (rule sum.cong) (simp_all add: build_start_def assms)
  also have "\<dots> = int (length ins) + 5 * (\<Sum>j < length ins. int (length (ins ! j)))"
    by (simp add: sum.distrib sum_distrib_left)
  finally show ?thesis
    by (simp add: build_measure_def sum_list_sum_nth atLeast0LessThan) (simp add: build_start_def)
qed

text \<open>Until it has ended, some goroutine can move, unless the error channel is full.\<close>

lemma build_progress:
  assumes sz: "sized cfg ins s" and "\<not> build_finished s" and "bs_cancelled s \<or> length (bs_errs s) < je_errCap env \<or> (\<forall>r e. GFail r e \<notin> set (bs_pc s))"
  shows "\<exists>l s'. l \<noteq> JCancel \<and> build_fire env cfg l s = Some s'"
proof (cases "bs_merged s")
  case (Cons x xs)
  obtain sn r k where "x = (sn, r, k)" by (cases x)
  with Cons show ?thesis by (intro exI [of _ JCollect]) simp
next
  case Nil
  with assms(2) obtain i where i: "i < length (bs_pc s)" "bs_pc s ! i \<noteq> GLeft"
    by (auto simp: build_finished_def list_all_length)
  then have cap: "0 < merged_cap cfg" using sz by (auto simp: merged_cap_def sized_def)
  show ?thesis
  proof (cases "bs_pc s ! i")
    case (GFail r e)
    show ?thesis
    proof (cases "bs_cancelled s")
      case True
      with i GFail show ?thesis by (intro exI [of _ "JQuit i"]) simp
    next
      case False
      moreover have "GFail r e \<in> set (bs_pc s)" using i GFail by (metis nth_mem)
      ultimately show ?thesis using i GFail assms(3) by (intro exI [of _ "JStep i"]) auto
    qed
  next
    case (GSend r k)
    with i cap Nil show ?thesis by (intro exI [of _ "JStep i"]) simp
  qed (use i in \<open>auto intro!: exI [of _ "JStep i"] simp: Let_def\<close>)
qed

subsection \<open>The limit and the skipped records\<close>

definition uncounted :: "nat \<Rightarrow> build_pc \<Rightarrow> params list \<Rightarrow> int" where
  "uncounted i pc rest = (case pc of GCount r \<Rightarrow> 1 | _ \<Rightarrow> 0) + int (length rest)"

definition limit_inv :: "moduleConfig \<Rightarrow> int \<Rightarrow> build_state \<Rightarrow> bool" where
  "limit_inv cfg n s \<longleftrightarrow> (bs_err s \<noteq> None \<longleftrightarrow> over_limit cfg (bs_total s)) \<and> bs_total s + tally uncounted s \<le> n \<and>
     (live s \<longrightarrow> bs_total s + tally uncounted s = n) \<and> (bs_err s \<in> {None, Some (limit_error cfg)})"

lemma limit_step:
  assumes step: "build_fire env cfg l s = Some s'" and sz: "sized cfg ins s" and inv: "limit_inv cfg n s"
  shows "limit_inv cfg n s'"
proof (cases "(env, cfg, l, s)" rule: build_fire.cases)
  case (1 env' cfg' i s0)
  with step have st: "build_step env cfg i (bs_pc s ! i) s = Some s'" and i: "i < length (bs_pc s)" by (auto split: if_splits)
  have len: "length (bs_in s) = length (bs_pc s)" using sz by (simp add: sized_def)
  have i': "i < length (bs_in s)" using i len by simp
  note tl = step_tally [OF st i len, of uncounted]
  have mono: "over_limit cfg (bs_total s) \<Longrightarrow> over_limit cfg (bs_total s + 1)" by (simp add: over_limit_def)
  have n: "bs_total s + tally uncounted s \<le> n" and e: "bs_err s \<noteq> None \<longleftrightarrow> over_limit cfg (bs_total s)"
    and lv: "live s \<Longrightarrow> bs_total s + tally uncounted s = n" and er: "bs_err s \<in> {None, Some (limit_error cfg)}"
    using inv by (simp_all add: limit_inv_def)
  show ?thesis
  proof (cases "bs_pc s ! i")
    case (GCount r)
    show ?thesis
    proof (cases "over_limit cfg (bs_total s + 1)")
      case True
      with st i i' GCount tl n er show ?thesis
        by (cases "bs_err s") (auto simp: limit_inv_def live_def uncounted_def)
    next
      case False
      with mono e have "bs_err s = None" by blast
      with False st i i' GCount tl n lv show ?thesis by (auto simp: limit_inv_def live_def uncounted_def)
    qed
  next
    case GRecv
    with st i i' tl n e lv er show ?thesis
      by (cases "bs_in s ! i") (auto simp: Let_def limit_inv_def live_def uncounted_def split: if_splits)
  next
    case (GKey r)
    with st i i' tl n e lv er show ?thesis
      by (auto simp: limit_inv_def live_def uncounted_def split: sum.splits)
  qed (use st i i' tl n e lv er in \<open>auto simp: limit_inv_def live_def uncounted_def split: if_splits\<close>)
next
  case (2 env' cfg' i s0)
  with step sz have i: "i < length (bs_pc s)" and len: "length (bs_in s) = length (bs_pc s)"
    and s': "s' = set_pc i GLeft s" and "bs_cancelled s" and pc: "uncounted i (bs_pc s ! i) (bs_in s ! i) = int (length (bs_in s ! i))"
    by (auto simp: sized_def uncounted_def split: if_splits build_pc.splits)
  have "tally f s' = tally f s - f i (bs_pc s ! i) (bs_in s ! i) + f i GLeft (bs_in s ! i)" for f
    by (rule tally_update [OF i len]) (simp_all add: s')
  then have "tally uncounted s' = tally uncounted s" using pc by (simp add: uncounted_def)
  with inv s' \<open>bs_cancelled s\<close> show ?thesis by (simp add: limit_inv_def live_def)
next
  case (3 env' cfg' s0)
  with step have f: "bs_pc s' = bs_pc s" "bs_in s' = bs_in s" "bs_err s' = bs_err s" "bs_total s' = bs_total s"
    "bs_cancelled s' = bs_cancelled s" by (auto split: list.splits)
  from inv show ?thesis unfolding limit_inv_def live_def tally_cong [OF f(1,2)] f by simp
next
  case (4 env' cfg' s0)
  with step have "s' = s\<lparr>bs_cancelled := True\<rparr>" by auto
  with inv show ?thesis by (auto simp: limit_inv_def live_def tally_def)
qed

definition is_bad :: "join_env \<Rightarrow> moduleConfig \<Rightarrow> nat \<Rightarrow> params \<Rightarrow> bool" where
  "is_bad env cfg i r \<longleftrightarrow> (case key_of env cfg i r of Inl e \<Rightarrow> True | Inr k \<Rightarrow> False)"

definition bad_todo :: "join_env \<Rightarrow> moduleConfig \<Rightarrow> nat \<Rightarrow> build_pc \<Rightarrow> params list \<Rightarrow> int" where
  "bad_todo env cfg i pc rest =
     int (length (filter (is_bad env cfg i) ((case pc of GCount r \<Rightarrow> [r] | GKey r \<Rightarrow> [r] | _ \<Rightarrow> []) @ rest)))"

definition failing :: "nat \<Rightarrow> build_pc \<Rightarrow> params list \<Rightarrow> int" where
  "failing i pc rest = (case pc of GFail r e \<Rightarrow> 1 | _ \<Rightarrow> 0)"

definition skip_inv :: "join_env \<Rightarrow> moduleConfig \<Rightarrow> int \<Rightarrow> build_state \<Rightarrow> bool" where
  "skip_inv env cfg b s \<longleftrightarrow> (live s \<longrightarrow> int (bs_skipped s) + tally (bad_todo env cfg) s = b \<and>
     int (length (bs_errs s)) + tally failing s = int (bs_skipped s))"

lemma skip_step:
  assumes step: "build_fire env cfg l s = Some s'" and sz: "sized cfg ins s" and inv: "skip_inv env cfg b s"
  shows "skip_inv env cfg b s'"
proof (cases "(env, cfg, l, s)" rule: build_fire.cases)
  case (1 env' cfg' i s0)
  with step have st: "build_step env cfg i (bs_pc s ! i) s = Some s'" and i: "i < length (bs_pc s)" by (auto split: if_splits)
  have len: "length (bs_in s) = length (bs_pc s)" using sz by (simp add: sized_def)
  have i': "i < length (bs_in s)" using i len by simp
  show ?thesis unfolding skip_inv_def step_tally [OF st i len]
    using st i i' inv
    by (cases "bs_pc s ! i")
      (auto simp: Let_def skip_inv_def live_def bad_todo_def failing_def is_bad_def key_of_def
        split: list.splits if_splits sum.splits)
next
  case (2 env' cfg' i s0)
  with step have "bs_cancelled s'" by (auto split: if_splits build_pc.splits)
  then show ?thesis by (simp add: skip_inv_def live_def)
next
  case (3 env' cfg' s0)
  with step have f: "bs_pc s' = bs_pc s" "bs_in s' = bs_in s" "bs_err s' = bs_err s" "bs_skipped s' = bs_skipped s"
    "bs_cancelled s' = bs_cancelled s" "bs_errs s' = bs_errs s" by (auto split: list.splits)
  from inv show ?thesis unfolding skip_inv_def live_def tally_cong [OF f(1,2)] f by simp
next
  case (4 env' cfg' s0)
  with step have "bs_cancelled s'" by auto
  then show ?thesis by (simp add: skip_inv_def live_def)
qed

subsection \<open>The map of a finished build phase\<close>

definition entry_ok :: "moduleConfig \<Rightarrow> string \<times> buildEntry list \<Rightarrow> bool" where
  "entry_ok cfg x \<longleftrightarrow> (case x of (sn, es) \<Rightarrow>
     es \<noteq> [] \<and> sn \<in> jk_StreamName ` set (jc_buildStreams cfg) \<and> (\<forall>e \<in> set es. \<not> be_matched e))"

definition map_ok :: "moduleConfig \<Rightarrow> build_map \<Rightarrow> bool" where
  "map_ok cfg bm \<longleftrightarrow> distinct (map fst bm) \<and>
     (\<forall>k m. map_of bm k = Some m \<longrightarrow> gomap_ok m \<and> m \<noteq> [] \<and> (\<forall>x \<in> set m. entry_ok cfg x))"

definition names_inv :: "moduleConfig \<Rightarrow> build_state \<Rightarrow> bool" where
  "names_inv cfg s \<longleftrightarrow> map_ok cfg (bs_map s) \<and>
     (\<forall>(sn, r, k) \<in> set (bs_merged s). sn \<in> jk_StreamName ` set (jc_buildStreams cfg))"

lemma map_ok_insert:
  assumes ok: "map_ok cfg bm" and sn: "sn \<in> jk_StreamName ` set (jc_buildStreams cfg)"
  shows "map_ok cfg (insert_build key sn r bm)"
proof -
  let ?m = "case map_of bm key of None \<Rightarrow> [] | Some m \<Rightarrow> m"
  let ?es = "get_list ?m sn @ [\<lparr>be_record = r, be_matched = False\<rparr>]"
  have m: "gomap_ok ?m" "\<forall>x \<in> set ?m. entry_ok cfg x"
    using ok by (auto simp: map_ok_def split: option.splits)
  have "\<forall>e \<in> set (get_list ?m sn). \<not> be_matched e"
  proof (cases "map_of ?m sn")
    case (Some es)
    with m(2) show ?thesis by (auto simp: entry_ok_def get_list_def dest: map_of_SomeD)
  qed (simp add: get_list_def)
  then have es: "entry_ok cfg (sn, ?es)" using sn by (auto simp: entry_ok_def)
  have "entry_ok cfg x" if "x \<in> set (AList.update sn ?es ?m)" for x
  proof -
    obtain a b where x: "x = (a, b)" by (cases x)
    have "map_of (AList.update sn ?es ?m) a = Some b"
      using that x m(1) by (simp add: gomap_ok_def distinct_update del: go_map_of_update)
    then show ?thesis using x es m(2) by (auto split: if_splits dest: map_of_SomeD)
  qed
  moreover have "AList.update sn ?es ?m \<noteq> []" by (cases ?m) auto
  moreover have "gomap_ok (AList.update sn ?es ?m)" using m(1) by simp
  moreover have "insert_build key sn r bm = AList.update key (AList.update sn ?es ?m) bm"
    by (simp add: insert_build_def Let_def)
  moreover have "distinct (map fst (AList.update key v bm))" for v using ok by (simp add: map_ok_def distinct_update)
  ultimately show ?thesis using ok unfolding map_ok_def by simp
qed

lemma names_step:
  assumes step: "build_fire env cfg l s = Some s'" and sz: "sized cfg ins s" and inv: "names_inv cfg s"
  shows "names_inv cfg s'"
proof (cases "(env, cfg, l, s)" rule: build_fire.cases)
  case (1 env' cfg' i s0)
  with step sz have "build_step env cfg i (bs_pc s ! i) s = Some s'" and "i < length (jc_buildStreams cfg)"
    by (auto simp: sized_def split: if_splits)
  with inv show ?thesis
    by (cases "bs_pc s ! i") (auto simp: names_inv_def Let_def split: list.splits if_splits sum.splits)
next
  case (3 env' cfg' s0)
  with step obtain sn r key rest where m: "bs_merged s = (sn, r, key) # rest"
    and s': "s' = s\<lparr>bs_merged := rest, bs_map := (if bs_err s \<noteq> None then bs_map s else insert_build key sn r (bs_map s))\<rparr>"
    by (auto split: list.splits)
  with inv have "sn \<in> jk_StreamName ` set (jc_buildStreams cfg)" "map_ok cfg (bs_map s)" by (simp_all add: names_inv_def)
  then have "map_ok cfg (insert_build key sn r (bs_map s))" by (intro map_ok_insert)
  with inv m s' show ?thesis by (simp add: names_inv_def)
qed (use step inv in \<open>auto simp: names_inv_def split: if_splits build_pc.splits\<close>)

definition build_inv :: "join_env \<Rightarrow> moduleConfig \<Rightarrow> params list list \<Rightarrow> build_state \<Rightarrow> bool" where
  "build_inv env cfg ins s \<longleftrightarrow> sized cfg ins s \<and> (live s \<longrightarrow> flow_inv env cfg ins s) \<and>
     limit_inv cfg (int (sum_list (map length ins))) s \<and> names_inv cfg s \<and>
     skip_inv env cfg (\<Sum>i < length ins. int (length (filter (is_bad env cfg i) (ins ! i)))) s \<and>
     (bs_cancelled s \<longleftrightarrow> bs_err s \<noteq> None)"

lemma build_inv_step:
  assumes "build_fire env cfg l s = Some s'" and "build_inv env cfg ins s" and "names_distinct cfg" and "l \<noteq> JCancel"
  shows "build_inv env cfg ins s'"
proof -
  have "bs_cancelled s' \<longleftrightarrow> bs_err s' \<noteq> None"
    using assms(1,2,4)
    by (cases "(env, cfg, l, s)" rule: build_fire.cases; cases "bs_pc s ! (case l of JStep i \<Rightarrow> i | _ \<Rightarrow> 0)")
      (auto simp: build_inv_def Let_def split: if_splits list.splits sum.splits build_pc.splits)
  with assms flow_fire [OF assms(1)] build_fire_sized [OF assms(1)] limit_step [OF assms(1)] names_step [OF assms(1)]
    skip_step [OF assms(1)] show ?thesis by (auto simp: build_inv_def)
qed

lemma build_inv_start:
  assumes "length ins = length (jc_buildStreams cfg)"
  shows "build_inv env cfg ins (build_start cfg ins)"
proof -
  have "tally uncounted (build_start cfg ins) = (\<Sum>j < length ins. int (length (ins ! j)))"
    unfolding tally_def by (rule sum.cong) (simp_all add: build_start_def assms uncounted_def)
  also have "\<dots> = int (sum_list (map length ins))" by (simp add: sum_list_sum_nth atLeast0LessThan)
  finally have u: "tally uncounted (build_start cfg ins) = int (sum_list (map length ins))" .
  have b: "tally (bad_todo env cfg) (build_start cfg ins) = (\<Sum>i < length ins. int (length (filter (is_bad env cfg i) (ins ! i))))"
    unfolding tally_def by (rule sum.cong) (simp_all add: build_start_def assms bad_todo_def)
  have "tally failing (build_start cfg ins) = (\<Sum>j < length ins. 0)"
    unfolding tally_def by (rule sum.cong) (simp_all add: build_start_def assms failing_def)
  then have f: "tally failing (build_start cfg ins) = 0" by simp
  have "flow_inv env cfg ins (build_start cfg ins)"
    by (auto simp: flow_inv_def flows_def build_start_def recs_def entries_def assms)
  then show ?thesis using u b f assms
    by (simp add: build_inv_def limit_inv_def skip_inv_def sized_def names_inv_def map_ok_def over_limit_def)
      (simp add: build_start_def over_limit_def)
qed

lemma build_inv_fires:
  "build_fires env cfg ls s = Some s' \<Longrightarrow> build_inv env cfg ins s \<Longrightarrow> names_distinct cfg \<Longrightarrow> JCancel \<notin> set ls \<Longrightarrow>
     build_inv env cfg ins s'"
  by (induction ls arbitrary: s) (auto split: option.splits intro: build_inv_step)

text \<open>A build phase that is not cancelled and whose error channel holds every record without a key
  ends: it can always go on until it has finished.\<close>

definition bad_builds :: "join_env \<Rightarrow> moduleConfig \<Rightarrow> params list list \<Rightarrow> nat" where
  "bad_builds env cfg ins = (\<Sum>i < length ins. length (filter (is_bad env cfg i) (ins ! i)))"

lemma build_goes_on:
  assumes inv: "build_inv env cfg ins s" and "bad_builds env cfg ins \<le> je_errCap env" and "\<not> build_finished s"
  shows "\<exists>l s'. l \<noteq> JCancel \<and> build_fire env cfg l s = Some s'"
proof (rule build_progress [OF _ assms(3)])
  show sz: "sized cfg ins s" using inv by (simp add: build_inv_def)
  show "bs_cancelled s \<or> length (bs_errs s) < je_errCap env \<or> (\<forall>r e. GFail r e \<notin> set (bs_pc s))"
  proof (rule ccontr)
    assume no: "\<not> ?thesis"
    then have lv: "live s" using inv by (simp add: live_def build_inv_def)
    from no obtain i r e where i: "i < length (bs_pc s)" "bs_pc s ! i = GFail r e" by (auto simp: in_set_conv_nth)
    have "failing i (bs_pc s ! i) (bs_in s ! i) \<le> tally failing s"
      unfolding tally_def by (rule member_le_sum) (use i in \<open>auto simp: failing_def split: build_pc.splits\<close>)
    moreover have "tally (bad_todo env cfg) s \<ge> 0" unfolding tally_def bad_todo_def by (intro sum_nonneg) simp
    moreover have "int (bs_skipped s) + tally (bad_todo env cfg) s = int (bad_builds env cfg ins)"
      "int (length (bs_errs s)) + tally failing s = int (bs_skipped s)"
      using inv lv by (simp_all add: build_inv_def skip_inv_def bad_builds_def)
    ultimately have "length (bs_errs s) < bad_builds env cfg ins" using i by (simp add: failing_def)
    with no assms(2) show False by simp
  qed
qed

lemma build_result:
  assumes run: "build_fires env cfg ls (build_start cfg ins) = Some s" and nc: "JCancel \<notin> set ls"
    and fin: "build_finished s" and nm: "names_distinct cfg" and len: "length ins = length (jc_buildStreams cfg)"
  shows "bs_err s = (if over_limit cfg (int (sum_list (map length ins))) then Some (limit_error cfg) else None)"
    and "\<not> over_limit cfg (int (sum_list (map length ins))) \<Longrightarrow>
      bs_total s = int (sum_list (map length ins)) \<and> length (bs_errs s) = bs_skipped s \<and>
      int (bs_skipped s) = (\<Sum>i < length ins. int (length (filter (is_bad env cfg i) (ins ! i)))) \<and>
      map_ok cfg (bs_map s) \<and>
      (\<forall>i < length ins. \<forall>k. recs (bs_map s) k (stream_name cfg i) = with_key env cfg i k (ins ! i))"
proof -
  have inv: "build_inv env cfg ins s" by (rule build_inv_fires [OF run build_inv_start [OF len] nm nc])
  let ?T = "int (sum_list (map length ins))"
  have sz: "length (bs_pc s) = length ins" using inv by (simp add: build_inv_def sized_def)
  have left: "bs_pc s ! i = GLeft" if "i < length ins" for i using fin sz that by (auto simp: build_finished_def list_all_length)
  have nonneg: "tally uncounted s \<ge> 0" unfolding tally_def uncounted_def by (intro sum_nonneg) (simp split: build_pc.splits)
  have lim: "limit_inv cfg ?T s" using inv by (simp add: build_inv_def)
  have zero: "tally uncounted s = 0 \<and> tally (bad_todo env cfg) s = 0 \<and> tally failing s = 0" if lv: "live s"
  proof -
    have "bs_in s ! i = []" if "i < length ins" for i
      using inv lv left [OF that] that by (auto simp: build_inv_def flow_inv_def flows_def)
    with left sz show ?thesis by (simp add: tally_def uncounted_def bad_todo_def failing_def)
  qed
  have live: "live s \<longleftrightarrow> bs_err s = None" using inv by (auto simp: live_def build_inv_def)
  have mono: "over_limit cfg (bs_total s) \<Longrightarrow> over_limit cfg ?T"
    using lim nonneg by (auto simp: limit_inv_def over_limit_def)
  have total: "bs_total s = ?T" if "bs_err s = None" using lim zero live that by (simp add: limit_inv_def)
  show err: "bs_err s = (if over_limit cfg ?T then Some (limit_error cfg) else None)"
    using lim total mono by (auto simp: limit_inv_def)
  assume "\<not> over_limit cfg ?T"
  with err live have "live s" by simp
  with zero [OF this] inv total err \<open>\<not> over_limit cfg ?T\<close> fin left sz
  show "bs_total s = ?T \<and> length (bs_errs s) = bs_skipped s \<and>
      int (bs_skipped s) = (\<Sum>i < length ins. int (length (filter (is_bad env cfg i) (ins ! i)))) \<and>
      map_ok cfg (bs_map s) \<and>
      (\<forall>i < length ins. \<forall>k. recs (bs_map s) k (stream_name cfg i) = with_key env cfg i k (ins ! i))"
    by (auto simp: build_inv_def skip_inv_def names_inv_def flow_inv_def flows_def build_finished_def)
qed

end
