(* ===== verification/Gxo_JoinSpec.thy ===== *)
theory Gxo_JoinSpec
  imports Gxo_JoinBuild
begin

text \<open>
  What a join computes: the combinations of a key as a product, the records of the probe and the
  post-probe phase, and the whole result as a function of the streams' records, for an
  uncancelled join within its limits.
\<close>

subsection \<open>Combinations are a product\<close>

definition choices :: "build_streams \<Rightarrow> joinKeyConfig \<Rightarrow> params option list" where
  "choices m b = (let es = get_list m (jk_StreamName b) in if es = [] then [None] else map (\<lambda>e. Some (be_record e)) es)"

definition any_missing :: "joinKeyConfig list \<Rightarrow> build_streams \<Rightarrow> bool" where
  "any_missing bs m \<longleftrightarrow> (\<exists>b \<in> set bs. get_list m (jk_StreamName b) = [])"

lemma update_new: "k \<notin> set (keys m) \<Longrightarrow> AList.update k v m = m @ [(k, v)]"
  by (induction m) (auto simp: keys_def)

lemma keys_snoc: "keys (m @ [(k, v)]) = keys m @ [k]"
  by (simp add: keys_def)

lemma extend_combos_keys:
  "\<forall>c \<in> set combos. keys c = ks \<Longrightarrow> sn \<notin> set ks \<Longrightarrow> \<forall>c \<in> set (extend_combos sn xs combos). keys c = ks @ [sn]"
  by (auto simp: extend_combos_def update_new keys_snoc)

lemma extend_combos_eq:
  "\<forall>c \<in> set combos. keys c = ks \<Longrightarrow> sn \<notin> set ks \<Longrightarrow>
     extend_combos sn xs combos = concat (map (\<lambda>c. map (\<lambda>x. c @ [(sn, x)]) xs) combos)"
  unfolding extend_combos_def by (rule arg_cong [where f = concat], rule map_cong) (auto simp: update_new)

lemma concat_map_concat: "concat (map f (concat (map g xs))) = concat (map (\<lambda>x. concat (map f (g x))) xs)"
  by (induction xs) simp_all

lemma combine_product:
  assumes "\<forall>c \<in> set combos. keys c = ks" and "distinct (ks @ map jk_StreamName bs)"
  shows "combine jt bs m combos =
    (if jt = ''inner'' \<and> any_missing bs m then []
     else concat (map (\<lambda>c. map (\<lambda>xs. c @ zip (map jk_StreamName bs) xs) (product_lists (map (choices m) bs))) combos))"
  using assms
proof (induction bs arbitrary: combos ks)
  case Nil
  then show ?case by (induction combos) (auto simp: any_missing_def)
next
  case (Cons b bs)
  let ?sn = "jk_StreamName b"
  have new: "?sn \<notin> set ks" and d: "distinct ((ks @ [?sn]) @ map jk_StreamName bs)" using Cons.prems(2) by auto
  let ?next = "extend_combos ?sn (choices m b) combos"
  note ks = extend_combos_keys [OF Cons.prems(1) new, of "choices m b"]
  have step: "combine jt (b # bs) m combos =
      (if jt = ''inner'' \<and> get_list m ?sn = [] then [] else combine jt bs m ?next)"
    by (simp add: choices_def Let_def)
  have "concat (map (\<lambda>c. map (\<lambda>xs. c @ zip (map jk_StreamName bs) xs) (product_lists (map (choices m) bs))) ?next) =
      concat (map (\<lambda>c. map (\<lambda>xs. c @ zip (map jk_StreamName (b # bs)) xs) (product_lists (map (choices m) (b # bs)))) combos)"
    unfolding extend_combos_eq [OF Cons.prems(1) new] concat_map_concat
    by (simp add: map_concat comp_def)
  then show ?case unfolding step Cons.IH [OF ks d] by (auto simp: any_missing_def)
qed

text \<open>The combinations of a key, from the records the streams have for it.\<close>

definition combos_of :: "moduleConfig \<Rightarrow> params option \<Rightarrow> (string \<Rightarrow> params list) \<Rightarrow> combo list" where
  "combos_of cfg probe B =
     (let names = map jk_StreamName (jc_buildStreams cfg) in
      if jc_joinType cfg = ''inner'' \<and> (\<exists>sn \<in> set names. B sn = []) then []
      else map (\<lambda>xs. (case probe of Some r \<Rightarrow> [(jk_StreamName (jc_probeStream cfg), Some r)] | None \<Rightarrow> []) @ zip names xs)
             (product_lists (map (\<lambda>sn. if B sn = [] then [None] else map Some (B sn)) names)))"

definition streams_distinct :: "moduleConfig \<Rightarrow> bool" where
  "streams_distinct cfg \<longleftrightarrow> distinct (jk_StreamName (jc_probeStream cfg) # map jk_StreamName (jc_buildStreams cfg))"

lemma getCombinations_product:
  assumes "streams_distinct cfg"
  shows "getCombinations cfg probe m = combos_of cfg probe (\<lambda>sn. map be_record (get_list m sn))"
proof -
  let ?base = "case probe of Some r \<Rightarrow> [(jk_StreamName (jc_probeStream cfg), Some r)] | None \<Rightarrow> []"
  have "distinct (keys ?base @ map jk_StreamName (jc_buildStreams cfg))"
    using assms by (cases probe) (auto simp: streams_distinct_def keys_def)
  from combine_product [of "[?base]", OF _ this, of "jc_joinType cfg" m]
  have c: "getCombinations cfg probe m = (if jc_joinType cfg = ''inner'' \<and> any_missing (jc_buildStreams cfg) m then []
      else map (\<lambda>xs. ?base @ zip (map jk_StreamName (jc_buildStreams cfg)) xs)
        (product_lists (map (choices m) (jc_buildStreams cfg))))"
    by (simp add: getCombinations_def)
  have p: "map (\<lambda>sn. if map be_record (get_list m sn) = [] then [None] else map Some (map be_record (get_list m sn)))
      (map jk_StreamName (jc_buildStreams cfg)) = map (choices m) (jc_buildStreams cfg)"
    by (simp add: choices_def Let_def)
  have e: "(\<exists>sn \<in> set (map jk_StreamName (jc_buildStreams cfg)). map be_record (get_list m sn) = []) =
      any_missing (jc_buildStreams cfg) m"
    by (simp add: any_missing_def)
  show ?thesis unfolding c combos_of_def Let_def p e ..
qed

subsection \<open>Emission\<close>

definition uncancelled :: "join_env \<Rightarrow> bool" where
  "uncancelled env \<longleftrightarrow> (\<forall>n. je_ctx env n = None)"

definition sent :: "nat list \<Rightarrow> params list \<Rightarrow> (nat \<times> params) list" where
  "sent outs rs = concat (map (\<lambda>r. map (\<lambda>out. (out, r)) outs) rs)"

lemma sent_simps [simp]: "sent outs [] = []" "sent outs (r # rs) = map (\<lambda>out. (out, r)) outs @ sent outs rs"
  "sent outs (rs @ rs') = sent outs rs @ sent outs rs'"
  by (simp_all add: sent_def)

lemma look_ok: "uncancelled env \<Longrightarrow> look env st = (None, st\<lparr>js_looks := js_looks st + 1\<rparr>)"
  by (simp add: look_def uncancelled_def)

lemma send_outputs_ok:
  "uncancelled env \<Longrightarrow> \<exists>n. send_outputs env r outs st =
     (None, st\<lparr>js_looks := n, js_out := js_out st @ map (\<lambda>out. (out, r)) outs\<rparr>)"
proof (induction outs arbitrary: st)
  case Nil
  then show ?case by (intro exI [of _ "js_looks st"]) simp
next
  case (Cons out outs)
  from Cons.IH [OF Cons.prems, of "st\<lparr>js_looks := js_looks st + 1, js_out := js_out st @ [(out, r)]\<rparr>"]
  show ?case by (auto simp: look_ok [OF Cons.prems])
qed

lemma emit_ok:
  "uncancelled env \<Longrightarrow> \<exists>n. emit_combos env cfg outs cs st =
     (None, st\<lparr>js_looks := n, js_joined := js_joined st + length cs,
        js_out := js_out st @ sent outs (map (constructJoinedRecord env cfg) cs)\<rparr>)"
proof (induction cs arbitrary: st)
  case Nil
  then show ?case by (intro exI [of _ "js_looks st"]) simp
next
  case (Cons c cs)
  let ?st = "st\<lparr>js_joined := js_joined st + 1\<rparr>"
  obtain n where n: "send_outputs env (constructJoinedRecord env cfg c) outs ?st =
      (None, ?st\<lparr>js_looks := n, js_out := js_out ?st @ map (\<lambda>out. (out, constructJoinedRecord env cfg c)) outs\<rparr>)"
    using send_outputs_ok [OF Cons.prems] by blast
  from Cons.IH [OF Cons.prems, of "?st\<lparr>js_looks := n, js_out := js_out ?st @
      map (\<lambda>out. (out, constructJoinedRecord env cfg c)) outs\<rparr>"] n
  show ?case by auto
qed

subsection \<open>The probe phase\<close>

definition bad_probe :: "join_env \<Rightarrow> moduleConfig \<Rightarrow> params \<Rightarrow> bool" where
  "bad_probe env cfg r \<longleftrightarrow> (case extractKey env (jc_probeStream cfg) r of Inl e \<Rightarrow> True | Inr k \<Rightarrow> False)"

definition rows_for :: "join_env \<Rightarrow> moduleConfig \<Rightarrow> params option \<Rightarrow> (string \<Rightarrow> params list) \<Rightarrow> params list" where
  "rows_for env cfg probe B = map (constructJoinedRecord env cfg) (combos_of cfg probe B)"

definition probe_rows :: "join_env \<Rightarrow> moduleConfig \<Rightarrow> build_map \<Rightarrow> params \<Rightarrow> params list" where
  "probe_rows env cfg bm r =
     (case extractKey env (jc_probeStream cfg) r of
        Inl e \<Rightarrow> []
      | Inr k \<Rightarrow>
          if map_of bm k \<noteq> None \<or> jc_joinType cfg = ''left'' \<or> jc_joinType cfg = ''outer''
          then rows_for env cfg (Some r) (recs bm k) else [])"

definition matched_in :: "build_map \<Rightarrow> join_key \<Rightarrow> bool" where
  "matched_in bm k \<longleftrightarrow> (case map_of bm k of None \<Rightarrow> False | Some m \<Rightarrow> key_matched m)"

definition probed :: "join_env \<Rightarrow> moduleConfig \<Rightarrow> params list \<Rightarrow> join_key set" where
  "probed env cfg rs = {k. \<exists>r \<in> set rs. extractKey env (jc_probeStream cfg) r = Inr k}"

text \<open>Every key of the map has an entry.\<close>

definition inhabited :: "build_map \<Rightarrow> bool" where
  "inhabited bm \<longleftrightarrow> (\<forall>k m. map_of bm k = Some m \<longrightarrow> (\<exists>(sn, es) \<in> set m. es \<noteq> []))"

text \<open>A map that differs from another only in which entries are matched.\<close>

definition same_records :: "build_map \<Rightarrow> build_map \<Rightarrow> bool" where
  "same_records bm bm' \<longleftrightarrow> map fst bm' = map fst bm \<and> (\<forall>k. map_of bm' k = None \<longleftrightarrow> map_of bm k = None) \<and>
     (\<forall>k sn. recs bm' k sn = recs bm k sn) \<and> (inhabited bm \<longrightarrow> inhabited bm')"

lemma get_list_mark: "get_list (mark_matched m) sn = map (\<lambda>e. e\<lparr>be_matched := True\<rparr>) (get_list m sn)"
  by (induction m) (auto simp: get_list_def mark_matched_def)

lemma update_keys_same: "map_of bm k \<noteq> None \<Longrightarrow> map fst (AList.update k v bm) = map fst bm"
  by (induction bm) (auto split: if_splits)

lemma mark_same:
  assumes "map_of bm k = Some m"
  shows "same_records bm (AList.update k (mark_matched m) bm)"
proof -
  have "map be_record (get_list (mark_matched m) sn) = map be_record (get_list m sn)" for sn
    by (simp add: get_list_mark)
  moreover have "(\<exists>(sn, es) \<in> set m. es \<noteq> []) \<Longrightarrow> (\<exists>(sn, es) \<in> set (mark_matched m). es \<noteq> [])"
    by (force simp: mark_matched_def)
  ultimately show ?thesis using assms update_keys_same [of bm k "mark_matched m"]
    by (auto simp: same_records_def recs_def entries_def inhabited_def)
qed

lemma mark_key_matched: "(\<exists>(sn, es) \<in> set m. es \<noteq> []) \<Longrightarrow> key_matched (mark_matched m)"
  by (force simp: key_matched_def mark_matched_def list_ex_iff neq_Nil_conv)

lemma same_records_rows: "same_records bm bm' \<Longrightarrow> probe_rows env cfg bm' = probe_rows env cfg bm"
proof (rule ext)
  fix r
  assume a: "same_records bm bm'"
  then have "recs bm' = recs bm" by (simp add: same_records_def fun_eq_iff)
  with a show "probe_rows env cfg bm' r = probe_rows env cfg bm r"
    by (simp add: probe_rows_def same_records_def split: sum.splits)
qed

lemma same_records_trans: "same_records a b \<Longrightarrow> same_records b c \<Longrightarrow> same_records a c"
  by (simp add: same_records_def)

lemma same_records_refl [simp]: "same_records a a"
  by (simp add: same_records_def)

lemma emit_rows:
  assumes "uncancelled env" and "streams_distinct cfg"
  shows "\<exists>n. emitJoinedRecords env cfg outs probe m st =
     (None, st\<lparr>js_looks := n, js_joined := js_joined st + length (rows_for env cfg probe (\<lambda>sn. map be_record (get_list m sn))),
        js_out := js_out st @ sent outs (rows_for env cfg probe (\<lambda>sn. map be_record (get_list m sn)))\<rparr>)"
  using emit_ok [OF assms(1)] by (simp add: emitJoinedRecords_def getCombinations_product [OF assms(2)] rows_for_def)

lemma recs_entry: "map_of bm k = Some m \<Longrightarrow> recs bm k = (\<lambda>sn. map be_record (get_list m sn))"
  by (simp add: fun_eq_iff recs_def entries_def)

lemma recs_none: "map_of bm k = None \<Longrightarrow> recs bm k = (\<lambda>sn. map be_record (get_list ([] :: build_streams) sn))"
  by (simp add: fun_eq_iff recs_def entries_def get_list_def)

definition probe_end ::
    "join_env \<Rightarrow> moduleConfig \<Rightarrow> nat list \<Rightarrow> build_map \<Rightarrow> params list \<Rightarrow> nat \<Rightarrow> goerr list \<Rightarrow> join_state \<Rightarrow> join_state" where
  "probe_end env cfg outs bm rs n es st = st\<lparr>js_looks := n,
     js_out := js_out st @ sent outs (concat (map (probe_rows env cfg bm) rs)),
     js_processed := js_processed st + length rs,
     js_joined := js_joined st + length (concat (map (probe_rows env cfg bm) rs)),
     js_skipped := js_skipped st + length (filter (bad_probe env cfg) rs), js_errs := es\<rparr>"

definition probe_marks :: "join_env \<Rightarrow> moduleConfig \<Rightarrow> params list \<Rightarrow> build_map \<Rightarrow> build_map \<Rightarrow> bool" where
  "probe_marks env cfg rs bm bm' \<longleftrightarrow> same_records bm bm' \<and>
     (\<forall>k. matched_in bm' k \<longleftrightarrow> matched_in bm k \<or> k \<in> probed env cfg rs \<and> map_of bm k \<noteq> None)"

lemma probe_marks_cons:
  assumes "probe_marks env cfg rs bm1 bm'" and "same_records bm bm1"
    and "\<And>k. matched_in bm1 k \<longleftrightarrow> matched_in bm k \<or> k \<in> probed env cfg [r] \<and> map_of bm k \<noteq> None"
  shows "probe_marks env cfg (r # rs) bm bm'"
proof -
  have "map_of bm1 k \<noteq> None \<longleftrightarrow> map_of bm k \<noteq> None" for k using assms(2) by (simp add: same_records_def)
  moreover have "same_records bm bm'" using assms(1,2) same_records_trans by (simp add: probe_marks_def)
  moreover have "k \<in> probed env cfg (r # rs) \<longleftrightarrow> k \<in> probed env cfg [r] \<or> k \<in> probed env cfg rs" for k
    by (auto simp: probed_def)
  ultimately show ?thesis using assms(1,3) unfolding probe_marks_def by metis
qed

lemma matched_update:
  assumes "map_of bm k = Some m" and "inhabited bm"
  shows "matched_in (AList.update k (mark_matched m) bm) k' \<longleftrightarrow> matched_in bm k' \<or> k' = k"
proof -
  have "key_matched (mark_matched m)" by (rule mark_key_matched) (use assms in \<open>auto simp: inhabited_def\<close>)
  then show ?thesis by (simp add: matched_in_def)
qed

lemma probe_ok:
  assumes env: "uncancelled env" and cfg: "streams_distinct cfg"
  shows "inhabited bm \<Longrightarrow> length (js_errs st) + length (filter (bad_probe env cfg) rs) \<le> je_errCap env \<Longrightarrow>
    \<exists>n es bm'. runProbePhase env cfg outs rs bm st = Returns (None, bm', probe_end env cfg outs bm rs n es st) \<and>
      length es = length (js_errs st) + length (filter (bad_probe env cfg) rs) \<and> probe_marks env cfg rs bm bm'"
proof (induction rs arbitrary: bm st)
  case Nil
  show ?case by (intro exI [of _ "js_looks st"] exI [of _ "js_errs st"] exI [of _ bm])
      (simp add: probe_end_def probe_marks_def probed_def)
next
  case (Cons r rs)
  let ?st = "st\<lparr>js_looks := js_looks st + 1, js_processed := js_processed st + 1\<rparr>"
  show ?case
  proof (cases "extractKey env (jc_probeStream cfg) r")
    case (Inl e)
    then have bad: "bad_probe env cfg r" by (simp add: bad_probe_def)
    let ?st' = "?st\<lparr>js_looks := js_looks st + 2, js_skipped := js_skipped st + 1,
      js_errs := js_errs st @ [RecordProcessingError ''stream:join'' (Some (je_showVal env (VMap r))) (Some e)]\<rparr>"
    have "runProbePhase env cfg outs (r # rs) bm st = runProbePhase env cfg outs rs bm ?st'"
      using Inl Cons.prems(2) bad by (cases st) (simp add: look_ok [OF env] Let_def)
    moreover obtain n es bm' where "runProbePhase env cfg outs rs bm ?st' = Returns (None, bm', probe_end env cfg outs bm rs n es ?st')"
      "length es = length (js_errs ?st') + length (filter (bad_probe env cfg) rs)" "probe_marks env cfg rs bm bm'"
      using Cons.IH [OF Cons.prems(1), of ?st'] Cons.prems(2) bad by auto
    moreover have "probe_end env cfg outs bm rs n es ?st' = probe_end env cfg outs bm (r # rs) n es st"
      using Inl bad by (simp add: probe_end_def probe_rows_def)
    moreover have "probe_marks env cfg (r # rs) bm bm'"
      by (rule probe_marks_cons [OF \<open>probe_marks env cfg rs bm bm'\<close>]) (simp_all add: Inl probed_def)
    ultimately show ?thesis using bad by auto
  next
    case (Inr k)
    then have good: "\<not> bad_probe env cfg r" by (simp add: bad_probe_def)
    note emit = emit_rows [OF env cfg, of outs "Some r" _ ?st]
    have rest: ?thesis
      if run: "runProbePhase env cfg outs (r # rs) bm st = runProbePhase env cfg outs rs bm1
          (?st\<lparr>js_looks := n1, js_joined := js_joined st + length (probe_rows env cfg bm r),
            js_out := js_out st @ sent outs (probe_rows env cfg bm r)\<rparr>)"
        and same: "same_records bm bm1"
        and mk: "\<And>k'. matched_in bm1 k' \<longleftrightarrow> matched_in bm k' \<or> k' = k \<and> map_of bm k' \<noteq> None" for bm1 n1
    proof -
      let ?st' = "?st\<lparr>js_looks := n1, js_joined := js_joined st + length (probe_rows env cfg bm r),
            js_out := js_out st @ sent outs (probe_rows env cfg bm r)\<rparr>"
      have "inhabited bm1" using same Cons.prems(1) by (simp add: same_records_def)
      then obtain n es bm' where ih: "runProbePhase env cfg outs rs bm1 ?st' = Returns (None, bm', probe_end env cfg outs bm1 rs n es ?st')"
        "length es = length (js_errs ?st') + length (filter (bad_probe env cfg) rs)" "probe_marks env cfg rs bm1 bm'"
        using Cons.IH [of bm1 ?st'] Cons.prems(2) good by auto
      have "probe_end env cfg outs bm1 rs n es ?st' = probe_end env cfg outs bm (r # rs) n es st"
        using good by (simp add: probe_end_def same_records_rows [OF same])
      moreover have "probe_marks env cfg (r # rs) bm bm'"
        by (rule probe_marks_cons [OF ih(3) same]) (simp add: mk Inr probed_def eq_commute)
      ultimately show ?thesis using run ih good by auto
    qed
    show ?thesis
    proof (cases "map_of bm k")
      case (Some m)
      obtain n where n: "emitJoinedRecords env cfg outs (Some r) m ?st = (None, ?st\<lparr>js_looks := n,
          js_joined := js_joined st + length (probe_rows env cfg bm r), js_out := js_out st @ sent outs (probe_rows env cfg bm r)\<rparr>)"
        using emit [of m] Some Inr by (auto simp: probe_rows_def recs_entry [OF Some])
      show ?thesis
      proof (rule rest)
        show "runProbePhase env cfg outs (r # rs) bm st = runProbePhase env cfg outs rs (AList.update k (mark_matched m) bm)
          (?st\<lparr>js_looks := n, js_joined := js_joined st + length (probe_rows env cfg bm r),
            js_out := js_out st @ sent outs (probe_rows env cfg bm r)\<rparr>)"
          using Inr Some n by (simp add: look_ok [OF env] Let_def)
        show "same_records bm (AList.update k (mark_matched m) bm)" by (rule mark_same [OF Some])
      qed (use matched_update [OF Some Cons.prems(1)] Some in auto)
    next
      case None
      show ?thesis
      proof (cases "jc_joinType cfg = ''left'' \<or> jc_joinType cfg = ''outer''")
        case True
        have rows: "rows_for env cfg (Some r) (\<lambda>sn. map be_record (get_list ([] :: build_streams) sn)) = probe_rows env cfg bm r"
          unfolding recs_none [OF None, symmetric] using Inr True by (auto simp: probe_rows_def)
        obtain n where n: "emitJoinedRecords env cfg outs (Some r) [] ?st = (None, ?st\<lparr>js_looks := n,
          js_joined := js_joined st + length (probe_rows env cfg bm r), js_out := js_out st @ sent outs (probe_rows env cfg bm r)\<rparr>)"
          using emit [of "[]"] unfolding rows by auto
        show ?thesis
          by (rule rest [of bm n]) (use Inr None True n in \<open>auto simp: look_ok [OF env] Let_def\<close>)
      next
        case False
        then show ?thesis using Inr None
          by (intro rest [of bm "js_looks st + 1"]; cases st) (auto simp: look_ok [OF env] Let_def probe_rows_def)
      qed
    qed
  qed
qed

subsection \<open>The unmatched keys\<close>

definition key_rows :: "join_env \<Rightarrow> moduleConfig \<Rightarrow> build_map \<Rightarrow> join_key \<Rightarrow> params list" where
  "key_rows env cfg bm k = rows_for env cfg None (recs bm k)"

definition post_rows :: "join_env \<Rightarrow> moduleConfig \<Rightarrow> build_map \<Rightarrow> join_key list \<Rightarrow> params list" where
  "post_rows env cfg bm ks = concat (map (key_rows env cfg bm) (filter (\<lambda>k. \<not> matched_in bm k) ks))"

lemma key_rows_streams:
  "rows_for env cfg None (\<lambda>sn. map be_record (get_list (case map_of bm k of None \<Rightarrow> [] | Some m \<Rightarrow> m) sn)) = key_rows env cfg bm k"
proof (cases "map_of bm k")
  case None
  show ?thesis unfolding key_rows_def recs_none [OF None] by (simp add: None)
next
  case (Some m)
  show ?thesis unfolding key_rows_def recs_entry [OF Some] by (simp add: Some)
qed

lemma key_matched_streams: "key_matched (case map_of bm k of None \<Rightarrow> [] | Some m \<Rightarrow> m) = matched_in bm k"
  by (simp add: matched_in_def key_matched_def split: option.splits)

lemma post_ok:
  assumes env: "uncancelled env" and cfg: "streams_distinct cfg"
  shows "\<exists>n. post_keys env cfg outs ks bm st = (None, st\<lparr>js_looks := n,
     js_joined := js_joined st + length (post_rows env cfg bm ks),
     js_out := js_out st @ sent outs (post_rows env cfg bm ks)\<rparr>)"
proof (induction ks arbitrary: st)
  case Nil
  show ?case by (intro exI [of _ "js_looks st"]) (simp add: post_rows_def)
next
  case (Cons k ks)
  let ?streams = "case map_of bm k of None \<Rightarrow> [] | Some m \<Rightarrow> m"
  let ?st = "st\<lparr>js_looks := js_looks st + 1\<rparr>"
  show ?case
  proof (cases "matched_in bm k")
    case True
    with Cons.IH [of ?st] show ?thesis
      by (auto simp: look_ok [OF env] Let_def key_matched_streams post_rows_def)
  next
    case False
    obtain n where n: "emitJoinedRecords env cfg outs None ?streams ?st = (None, ?st\<lparr>js_looks := n,
        js_joined := js_joined st + length (key_rows env cfg bm k), js_out := js_out st @ sent outs (key_rows env cfg bm k)\<rparr>)"
      using emit_rows [OF env cfg, of outs None ?streams ?st] unfolding key_rows_streams by auto
    from Cons.IH [of "?st\<lparr>js_looks := n,
        js_joined := js_joined st + length (key_rows env cfg bm k), js_out := js_out st @ sent outs (key_rows env cfg bm k)\<rparr>"]
    show ?thesis using n False
      by (cases st) (auto simp: look_ok [OF env] Let_def key_matched_streams post_rows_def add.assoc)
  qed
qed

subsection \<open>The join of the streams\<close>

text \<open>The records of each stream with a key, the keys there are, and the records the join makes.\<close>

definition key_group :: "join_env \<Rightarrow> moduleConfig \<Rightarrow> params list list \<Rightarrow> join_key \<Rightarrow> string \<Rightarrow> params list" where
  "key_group env cfg ins k sn =
     concat (map (\<lambda>i. if stream_name cfg i = sn then with_key env cfg i k (ins ! i) else []) [0..<length ins])"

definition has_key :: "join_env \<Rightarrow> moduleConfig \<Rightarrow> params list list \<Rightarrow> join_key \<Rightarrow> bool" where
  "has_key env cfg ins k \<longleftrightarrow> (\<exists>i < length ins. with_key env cfg i k (ins ! i) \<noteq> [])"

definition join_rows ::
    "join_env \<Rightarrow> moduleConfig \<Rightarrow> params list list \<Rightarrow> params list \<Rightarrow> join_key list \<Rightarrow> params list" where
  "join_rows env cfg ins probes ks =
     concat (map (\<lambda>r. case extractKey env (jc_probeStream cfg) r of
        Inl e \<Rightarrow> []
      | Inr k \<Rightarrow> if has_key env cfg ins k \<or> jc_joinType cfg = ''left'' \<or> jc_joinType cfg = ''outer''
                 then rows_for env cfg (Some r) (key_group env cfg ins k) else []) probes) @
     (if jc_joinType cfg = ''right'' \<or> jc_joinType cfg = ''outer''
      then concat (map (\<lambda>k. rows_for env cfg None (key_group env cfg ins k)) (filter (\<lambda>k. k \<notin> probed env cfg probes) ks))
      else [])"

definition ordered_keys :: "join_env \<Rightarrow> moduleConfig \<Rightarrow> params list list \<Rightarrow> join_key list \<Rightarrow> bool" where
  "ordered_keys env cfg ins ks \<longleftrightarrow> distinct ks \<and> set ks = {k. has_key env cfg ins k} \<and> sorted (map key_text ks)"

definition bad_records :: "join_env \<Rightarrow> moduleConfig \<Rightarrow> params list list \<Rightarrow> params list \<Rightarrow> nat" where
  "bad_records env cfg ins probes =
     bad_builds env cfg ins + length (filter (bad_probe env cfg) probes)"

lemma group_at:
  assumes "names_distinct cfg" and "length ins = length (jc_buildStreams cfg)" and "i < length ins"
  shows "key_group env cfg ins k (stream_name cfg i) = with_key env cfg i k (ins ! i)"
proof -
  have "map (\<lambda>j. if stream_name cfg j = stream_name cfg i then with_key env cfg j k (ins ! j) else []) [0..<length ins] =
      map (\<lambda>j. if j = i then with_key env cfg i k (ins ! i) else []) [0..<length ins]"
    using stream_name_inj [OF assms(1)] assms(2,3) by auto
  then have "key_group env cfg ins k (stream_name cfg i) =
      concat (map (\<lambda>j. if j = i then with_key env cfg i k (ins ! i) else []) [0..<length ins])"
    by (simp only: key_group_def)
  moreover have "concat (map (\<lambda>j. if j = i then x else []) [0..<n]) = (if i < n then x else [])" for n and x :: "params list"
    by (induction n) (auto simp: less_Suc_eq)
  ultimately show ?thesis using assms(3) by simp
qed

lemma map_is_group:
  assumes ok: "map_ok cfg bm" and nm: "names_distinct cfg" and len: "length ins = length (jc_buildStreams cfg)"
    and flow: "\<forall>i < length ins. \<forall>k. recs bm k (stream_name cfg i) = with_key env cfg i k (ins ! i)"
  shows "recs bm = key_group env cfg ins" and "map_of bm k \<noteq> None \<longleftrightarrow> has_key env cfg ins k"
    and "\<not> matched_in bm k" and "inhabited bm"
proof -
  have names: "sn \<in> jk_StreamName ` set (jc_buildStreams cfg) \<longleftrightarrow> (\<exists>i < length ins. sn = stream_name cfg i)" for sn
    by (fastforce simp: stream_name_def len in_set_conv_nth image_iff)
  have entry: "es \<noteq> [] \<and> (\<exists>i < length ins. sn = stream_name cfg i) \<and> (\<forall>e \<in> set es. \<not> be_matched e) \<and> get_list m sn = es"
    if "map_of bm k = Some m" "(sn, es) \<in> set m" for k m sn es
  proof -
    have g: "gomap_ok m" and e: "entry_ok cfg (sn, es)" using ok that by (auto simp: map_ok_def)
    from g that(2) have "map_of m sn = Some es" by (simp add: gomap_ok_def)
    with e show ?thesis by (simp add: entry_ok_def names get_list_def)
  qed
  have stray: "recs bm k sn = []" if "\<not> (\<exists>i < length ins. sn = stream_name cfg i)" for k sn
  proof (cases "map_of bm k")
    case (Some m)
    have "map_of m sn = None" using entry [OF Some] that by (metis map_of_SomeD not_None_eq)
    then show ?thesis using Some by (simp add: recs_def entries_def get_list_def)
  qed (simp add: recs_def entries_def)
  show "recs bm = key_group env cfg ins"
  proof (rule ext, rule ext)
    fix k sn
    show "recs bm k sn = key_group env cfg ins k sn"
    proof (cases "\<exists>i < length ins. sn = stream_name cfg i")
      case True
      then show ?thesis using flow group_at [OF nm len] by auto
    next
      case False
      then have "key_group env cfg ins k sn = []" by (auto simp: key_group_def)
      with stray [OF False] show ?thesis by simp
    qed
  qed
  show inh: "inhabited bm" unfolding inhabited_def
  proof (intro allI impI)
    fix k m assume m: "map_of bm k = Some m"
    then have "m \<noteq> []" using ok by (simp add: map_ok_def)
    then obtain sn es where "(sn, es) \<in> set m" by (cases m) auto
    with entry [OF m] show "\<exists>(sn, es) \<in> set m. es \<noteq> []" by blast
  qed
  show "\<not> matched_in bm k"
    using entry by (auto simp: matched_in_def key_matched_def list_ex_iff split: option.splits)
  show "map_of bm k \<noteq> None \<longleftrightarrow> has_key env cfg ins k"
  proof
    assume "map_of bm k \<noteq> None"
    then obtain m where m: "map_of bm k = Some m" by auto
    then have "m \<noteq> []" using ok by (simp add: map_ok_def)
    then obtain sn es where e: "(sn, es) \<in> set m" by (cases m) auto
    from entry [OF m e] obtain i where i: "i < length ins" "sn = stream_name cfg i" and "get_list m sn = es" "es \<noteq> []" by blast
    then have "recs bm k (stream_name cfg i) \<noteq> []" by (simp add: recs_entry [OF m])
    with flow i show "has_key env cfg ins k" by (auto simp: has_key_def)
  next
    assume "has_key env cfg ins k"
    then obtain i where "i < length ins" "recs bm k (stream_name cfg i) \<noteq> []" using flow by (auto simp: has_key_def)
    then show "map_of bm k \<noteq> None" by (auto simp: recs_def entries_def split: option.splits)
  qed
qed

lemma probe_rows_group:
  assumes "recs bm = key_group env cfg ins" and "\<And>k. map_of bm k \<noteq> None \<longleftrightarrow> has_key env cfg ins k"
  shows "probe_rows env cfg bm r = (case extractKey env (jc_probeStream cfg) r of
        Inl e \<Rightarrow> []
      | Inr k \<Rightarrow> if has_key env cfg ins k \<or> jc_joinType cfg = ''left'' \<or> jc_joinType cfg = ''outer''
                 then rows_for env cfg (Some r) (key_group env cfg ins k) else [])"
  unfolding probe_rows_def assms ..

lemma ordered_keys_sort:
  assumes "permutes rng" and "distinct (map fst bm)" and "\<And>k. map_of bm k \<noteq> None \<longleftrightarrow> has_key env cfg ins k"
  shows "ordered_keys env cfg ins (sort_key key_text (rng i (map fst bm)))"
proof -
  have m: "mset (rng i (map fst bm)) = mset (map fst bm)" using assms(1) by (simp add: permutes_def)
  have "distinct (rng i (map fst bm))" using m assms(2) by (metis mset_eq_imp_distinct_iff)
  moreover have "set (rng i (map fst bm)) = {k. map_of bm k \<noteq> None}"
    using mset_eq_setD [OF m] by (auto simp: map_of_eq_None_iff)
  then have "set (rng i (map fst bm)) = {k. has_key env cfg ins k}" unfolding assms(3) .
  ultimately show ?thesis by (simp add: ordered_keys_def)
qed

text \<open>A join of streams with the given records: its build phase has run, uncancelled and within the
  limit, and neither phase meets more records without a key than the error channel holds.\<close>

definition joins ::
    "join_env \<Rightarrow> moduleConfig \<Rightarrow> params list list \<Rightarrow> params list \<Rightarrow> build_label list \<Rightarrow> build_state \<Rightarrow> bool" where
  "joins env cfg ins probes ls s \<longleftrightarrow>
     build_fires env cfg ls (build_start cfg ins) = Some s \<and> JCancel \<notin> set ls \<and> build_finished s \<and>
     length ins = length (jc_buildStreams cfg) \<and> \<not> over_limit cfg (int (sum_list (map length ins))) \<and>
     uncancelled env \<and> permutes (je_keyRng env) \<and> bad_records env cfg ins probes \<le> je_errCap env"

lemma join_output:
  assumes "joins env cfg ins probes ls s" and sd: "streams_distinct cfg"
  shows "\<exists>ks st. ordered_keys env cfg ins ks \<and>
    Perform_join env cfg outs probes s = Returns (Inr
      [(''records_joined'', VInt KInt64 (int (length (join_rows env cfg ins probes ks)))),
       (''probe_stream_records'', VInt KInt64 (int (length probes))),
       (''build_stream_records'', VInt KInt64 (int (sum_list (map length ins)))),
       (''skipped_key_errors'', VInt KInt64 (int (bad_records env cfg ins probes)))], st) \<and>
    js_out st = sent outs (join_rows env cfg ins probes ks) \<and> length (js_errs st) = bad_records env cfg ins probes"
proof -
  have run: "build_fires env cfg ls (build_start cfg ins) = Some s" "JCancel \<notin> set ls" "build_finished s"
    and len: "length ins = length (jc_buildStreams cfg)"
    and lim: "\<not> over_limit cfg (int (sum_list (map length ins)))"
    and env: "uncancelled env" and rng: "permutes (je_keyRng env)" and cap: "bad_records env cfg ins probes \<le> je_errCap env"
    using assms(1) by (simp_all add: joins_def)
  have nm: "names_distinct cfg" using sd by (simp add: streams_distinct_def names_distinct_def)
  note b = build_result(2) [OF run nm len lim] and err = build_result(1) [OF run nm len]
  have ok: "map_ok cfg (bs_map s)" using b by simp
  have flow: "\<forall>i < length ins. \<forall>k. recs (bs_map s) k (stream_name cfg i) = with_key env cfg i k (ins ! i)" using b by simp
  note g = map_is_group [OF ok nm len flow]
  have "int (bs_skipped s) = int (\<Sum>i < length ins. length (filter (is_bad env cfg i) (ins ! i)))" using b by simp
  then have skip: "bs_skipped s + length (filter (bad_probe env cfg) probes) = bad_records env cfg ins probes"
    unfolding bad_records_def bad_builds_def by linarith
  have "length (js_errs (join_start s)) + length (filter (bad_probe env cfg) probes) = bad_records env cfg ins probes"
    using skip b by (simp add: join_start_def)
  with cap obtain n es bm where p: "runProbePhase env cfg outs probes (bs_map s) (join_start s) =
      Returns (None, bm, probe_end env cfg outs (bs_map s) probes n es (join_start s))"
      and es: "length es = bad_records env cfg ins probes" and marks: "probe_marks env cfg probes (bs_map s) bm"
    using probe_ok [OF env sd g(4), of "join_start s" probes outs] by auto
  let ?st = "probe_end env cfg outs (bs_map s) probes n es (join_start s)"
  have same: "same_records (bs_map s) bm" using marks by (simp add: probe_marks_def)
  have recs: "recs bm = key_group env cfg ins" using same g(1) by (simp add: same_records_def fun_eq_iff)
  have mt: "matched_in bm k \<longleftrightarrow> k \<in> probed env cfg probes" if "has_key env cfg ins k" for k
    using marks g(2,3) that by (simp add: probe_marks_def)
  let ?ks = "sort_key key_text (je_keyRng env 0 (map fst bm))"
  have ks: "ordered_keys env cfg ins ?ks"
    using ordered_keys_sort [OF rng, of "bs_map s", OF _ g(2)] ok same by (simp add: map_ok_def same_records_def)
  have post: "post_rows env cfg bm ?ks = concat (map (\<lambda>k. rows_for env cfg None (key_group env cfg ins k))
      (filter (\<lambda>k. k \<notin> probed env cfg probes) ?ks))"
  proof -
    have "filter (\<lambda>k. \<not> matched_in bm k) ?ks = filter (\<lambda>k. k \<notin> probed env cfg probes) ?ks"
      by (rule filter_cong) (use ks mt in \<open>auto simp: ordered_keys_def\<close>)
    moreover have "key_rows env cfg bm = (\<lambda>k. rows_for env cfg None (key_group env cfg ins k))"
      by (simp add: fun_eq_iff key_rows_def recs)
    ultimately show ?thesis by (simp add: post_rows_def)
  qed
  let ?post = "if jc_joinType cfg = ''right'' \<or> jc_joinType cfg = ''outer'' then post_rows env cfg bm ?ks else []"
  obtain n' where q: "runPostProbePhase env cfg outs bm ?st = (None, ?st\<lparr>js_looks := n',
      js_joined := js_joined ?st + length ?post, js_out := js_out ?st @ sent outs ?post\<rparr>)"
  proof (cases "jc_joinType cfg = ''right'' \<or> jc_joinType cfg = ''outer''")
    case True
    obtain n' where "post_keys env cfg outs ?ks bm (?st\<lparr>js_looks := js_looks ?st + 1\<rparr>) = (None, ?st\<lparr>js_looks := n',
      js_joined := js_joined ?st + length ?post, js_out := js_out ?st @ sent outs ?post\<rparr>)"
      using post_ok [OF env sd, of outs ?ks bm "?st\<lparr>js_looks := js_looks ?st + 1\<rparr>"] True by auto
    with True show ?thesis by (intro that [of n']) (auto simp: runPostProbePhase_def look_ok [OF env])
  next
    case False
    then show ?thesis by (intro that [of "js_looks ?st"]) (auto simp: runPostProbePhase_def)
  qed
  have rows: "concat (map (probe_rows env cfg (bs_map s)) probes) @ ?post = join_rows env cfg ins probes ?ks"
    unfolding join_rows_def post probe_rows_group [OF g(1,2)] by simp
  let ?fin = "?st\<lparr>js_looks := n', js_joined := js_joined ?st + length ?post, js_out := js_out ?st @ sent outs ?post\<rparr>"
  have "Perform_join env cfg outs probes s = Returns (Inr (join_summary s ?fin), ?fin)"
    using err lim p q by (simp add: Perform_join_def)
  moreover have "js_joined ?fin = length (join_rows env cfg ins probes ?ks)"
    "js_out ?fin = sent outs (join_rows env cfg ins probes ?ks)"
    unfolding rows [symmetric] by (simp_all add: probe_end_def join_start_def)
  moreover have "js_processed ?fin = length probes" "js_skipped ?fin = length (filter (bad_probe env cfg) probes)"
    "length (js_errs ?fin) = bad_records env cfg ins probes"
    using es by (simp_all add: probe_end_def join_start_def)
  ultimately show ?thesis using ks skip b
    by (intro exI [of _ ?ks] exI [of _ ?fin]) (simp add: join_summary_def)
qed

end
