(* ===== verification/Gxo_JoinConfig.thy ===== *)
theory Gxo_JoinConfig
  imports Gxo_JoinSpec
begin

text \<open>
  The parameters and the keys of a join: which configurations
  \<open>parseAndValidateParams\<close> returns, and which values are the same join key.
\<close>

subsection \<open>Parameters\<close>

definition configs_ok :: "nat gomap \<Rightarrow> joinKeyConfig gomap \<Rightarrow> bool" where
  "configs_ok inputs cfgs \<longleftrightarrow> gomap_ok cfgs \<and>
     (\<forall>(sn, c) \<in> set cfgs. jk_StreamName c = sn \<and> jk_inputChannel c \<in> snd ` set inputs \<and>
        (jk_Field c = [] \<or> jk_Template c = []))"

lemma update_fresh: "map_of m k = None \<Longrightarrow> AList.update k v m = m @ [(k, v)]"
  by (rule update_new) (simp add: keys_def map_of_eq_None_iff)

lemma on_element_ok:
  assumes "on_element ids inputs i item cfgs = Inr cfgs'" and "configs_ok inputs cfgs"
  shows "configs_ok inputs cfgs' \<and> length cfgs' = Suc (length cfgs)"
proof -
  note def = assms(1) [unfolded on_element_def]
  let ?item = "case item of VMap m \<Rightarrow> Some m | VNilMap \<Rightarrow> Some [] | _ \<Rightarrow> None"
  obtain m where 1: "?item = Some m" using def by (cases ?item) simp_all
  obtain sn where 2: "GetRequiredString m ''stream'' = Inr sn"
    using def by (cases "GetRequiredString m ''stream''") (simp_all add: 1)
  have new: "map_of cfgs sn = None" using def by (cases "map_of cfgs sn") (simp_all add: 1 2)
  obtain role where 3: "optional_text m ''role'' = Some role"
    using def by (cases "optional_text m ''role''") (simp_all add: 1 2 new)
  obtain pid where 4: "map_of ids sn = Some (VStr pid)"
    using def by (simp add: 1 2 3 new split: option.splits goval.splits)
  obtain ch where 5: "map_of inputs pid = Some ch"
    using def by (cases "map_of inputs pid") (simp_all add: 1 2 3 4 new)
  obtain f t where c': "cfgs' = AList.update sn \<lparr>jk_StreamName = sn, jk_Field = f, jk_Template = t,
      jk_IsProbe = (role = ''probe''), jk_inputChannel = ch\<rparr> cfgs" and ft: "f = [] \<or> t = []"
    using def by (cases "optional_text m ''field''"; cases "optional_text m ''template''")
      (simp_all add: 1 2 3 4 5 new, metis+)
  let ?c = "\<lparr>jk_StreamName = sn, jk_Field = f, jk_Template = t, jk_IsProbe = (role = ''probe''), jk_inputChannel = ch\<rparr>"
  have "ch \<in> snd ` set inputs" using map_of_SomeD [OF 5] by (rule rev_image_eqI) simp
  have "gomap_ok cfgs'" using c' assms(2) by (simp add: configs_ok_def)
  with \<open>ch \<in> snd ` set inputs\<close> ft c' assms(2) update_fresh [OF new, of ?c] show ?thesis by (auto simp: configs_ok_def)
qed

lemma on_elements_ok:
  "on_elements ids inputs i items cfgs = Inr cfgs' \<Longrightarrow> configs_ok inputs cfgs \<Longrightarrow>
     configs_ok inputs cfgs' \<and> length cfgs' = length cfgs + length items"
proof (induction items arbitrary: i cfgs)
  case (Cons item rest)
  then show ?case using on_element_ok by (fastforce split: sum.splits)
qed simp

lemma parse_output_ok:
  assumes "parse_output rngs params cfgs = Inr (strategy, nk)" and "permutes (jr_streams rngs)"
  shows "strategy = ''flat'' \<or> strategy = ''nested'' \<and> (\<forall>(sn, c) \<in> set cfgs. map_of nk sn \<noteq> None)"
  using assms
  by (auto simp: parse_output_def Let_def find_None_iff split: option.splits if_splits sum.splits)

text \<open>A valid configuration: one probe stream, the others build streams with names of their own, a
  key rule and an input channel for each, a nesting key for each where records are nested.\<close>

definition config_ok :: "nat gomap \<Rightarrow> moduleConfig \<Rightarrow> bool" where
  "config_ok inputs cfg \<longleftrightarrow>
     jc_joinType cfg \<in> {''inner'', ''left'', ''right'', ''outer''} \<and> streams_distinct cfg \<and>
     Suc (length (jc_buildStreams cfg)) = length inputs \<and> jc_buildStreams cfg \<noteq> [] \<and>
     jk_IsProbe (jc_probeStream cfg) \<and> list_all (\<lambda>c. \<not> jk_IsProbe c) (jc_buildStreams cfg) \<and>
     list_all (\<lambda>c. jk_inputChannel c \<in> snd ` set inputs \<and> (jk_Field c = [] \<or> jk_Template c = []) \<and>
         (jc_mergeStrategy cfg = ''nested'' \<longrightarrow> map_of (jc_nestingKeys cfg) (jk_StreamName c) \<noteq> None))
       (jc_probeStream cfg # jc_buildStreams cfg) \<and>
     jc_mergeStrategy cfg \<in> {''flat'', ''nested''}"

lemma one_probe:
  assumes ok: "gomap_ok cfgs" and names: "\<forall>(sn, c) \<in> set cfgs. jk_StreamName c = sn"
    and probes: "filter jk_IsProbe (map snd cfgs) = [p]" and perm: "mset cfgs' = mset cfgs"
  shows "distinct (jk_StreamName p # map jk_StreamName (filter (\<lambda>c. \<not> jk_IsProbe c) (map snd cfgs')))"
    and "Suc (length (filter (\<lambda>c. \<not> jk_IsProbe c) (map snd cfgs'))) = length cfgs"
    and "p \<in> snd ` set cfgs" and "jk_IsProbe p"
proof -
  let ?builds = "filter (\<lambda>c. \<not> jk_IsProbe c) (map snd cfgs')"
  have fst: "map jk_StreamName (map snd cfgs) = map fst cfgs" using names by (auto simp: case_prod_beta)
  have "mset (map snd cfgs') = mset (map snd cfgs)" using perm by (simp only: mset_map)
  then have "mset ?builds = filter_mset (\<lambda>c. \<not> jk_IsProbe c) (mset (map snd cfgs))" by (simp only: mset_filter)
  moreover have "filter_mset jk_IsProbe (mset (map snd cfgs)) = {#p#}"
    unfolding mset_filter [symmetric] probes by simp
  ultimately have m: "mset (map snd cfgs) = add_mset p (mset ?builds)"
    using multiset_partition [of "mset (map snd cfgs)" jk_IsProbe] by simp
  then have "mset (map jk_StreamName (p # ?builds)) = mset (map fst cfgs)"
    unfolding fst [symmetric] by (metis image_mset_add_mset mset.simps(2) mset_map)
  with ok show "distinct (jk_StreamName p # map jk_StreamName ?builds)"
    by (metis gomap_ok_def list.map(2) mset_eq_imp_distinct_iff)
  show "Suc (length ?builds) = length cfgs" using arg_cong [OF m, of size] by (metis length_map size_add_mset size_mset)
  have "p \<in> set (filter jk_IsProbe (map snd cfgs))" using probes by simp
  then show "p \<in> snd ` set cfgs" "jk_IsProbe p" by auto
qed

lemma parse_join_ok:
  assumes parse: "parseAndValidateParams env rngs params inputs = Inr cfg" and perm: "permutes (jr_streams rngs)"
  shows "config_ok inputs cfg"
proof -
  obtain onList ids cfgs strategy nk where
    len: "length onList \<ge> 2" "length onList = length inputs"
    and els: "on_elements ids inputs 0 onList [] = Inr cfgs"
    and one: "length (filter jk_IsProbe (map snd cfgs)) = 1"
    and out: "parse_output rngs params cfgs = Inr (strategy, nk)"
    and fields: "jc_probeStream cfg = hd (filter jk_IsProbe (map snd cfgs))" "jc_mergeStrategy cfg = strategy"
      "jc_nestingKeys cfg = nk"
      "jc_buildStreams cfg = filter (\<lambda>c. \<not> jk_IsProbe c) (map snd (jr_streams rngs 0 cfgs))"
    and jt: "jc_joinType cfg \<in> {''inner'', ''left'', ''right'', ''outer''}"
  proof -
    note def = parse [unfolded parseAndValidateParams_def Let_def]
    obtain idMap where 1: "GetOptionalMap (jr_any rngs) params ProducerIDMapKey = Inr idMap"
      using def by (cases "GetOptionalMap (jr_any rngs) params ProducerIDMapKey") simp_all
    obtain jt where 2: "GetRequiredString params ''join_type'' = Inr jt"
      using def by (cases "GetRequiredString params ''join_type''") (simp_all add: 1)
    have 3: "jt \<in> {''inner'', ''left'', ''right'', ''outer''}"
      using def by (cases "jt \<in> {''inner'', ''left'', ''right'', ''outer''}") (simp_all add: 1 2)
    then have jtb: "(jt \<notin> {''inner'', ''left'', ''right'', ''outer''}) = False" by simp
    obtain rawOn where 4: "map_of params ''on'' = Some rawOn"
      using def by (cases "map_of params ''on''") (simp_all only: 1 2 jtb sum.case if_False option.case sum.distinct)
    let ?on = "case rawOn of VSlice xs \<Rightarrow> xs | _ \<Rightarrow> []"
    let ?ids = "case idMap of None \<Rightarrow> [] | Some m \<Rightarrow> m"
    note def1 = def [unfolded 1 2 jtb 4 sum.case if_False option.case]
    have 5: "(length ?on < 2 \<or> length ?on \<noteq> length inputs) = False"
      using def1 by (cases "length ?on < 2 \<or> length ?on \<noteq> length inputs") (simp_all only: if_True sum.distinct not_False_eq_True)
    note def2 = def1 [unfolded 5 if_False]
    obtain cfgs where 6: "on_elements ?ids inputs 0 ?on [] = Inr cfgs"
      using def2 by (cases "on_elements ?ids inputs 0 ?on []") (simp_all only: sum.case sum.distinct)
    note def3 = def2 [unfolded 6 sum.case]
    have 7: "(length (filter jk_IsProbe (map snd cfgs)) \<noteq> 1) = False"
      using def3 by (cases "length (filter jk_IsProbe (map snd cfgs)) \<noteq> 1") (simp_all only: if_True sum.distinct not_False_eq_True)
    note def4 = def3 [unfolded 7 if_False]
    obtain out where out: "parse_output rngs params cfgs = Inr out"
      using def4 by (cases "parse_output rngs params cfgs") (simp_all only: sum.case sum.distinct)
    obtain strategy nk where 8: "parse_output rngs params cfgs = Inr (strategy, nk)" using out by (cases out) simp
    note def5 = def4 [unfolded 8 sum.case prod.case]
    obtain limit where 9: "parse_limits env rngs params = Inr limit"
      using def5 by (cases "parse_limits env rngs params") (simp_all only: sum.case sum.distinct)
    note def6 = def5 [unfolded 9 sum.case sum.inject]
    show ?thesis
      by (rule that [OF _ _ 6 _ 8]) (use 3 5 7 in \<open>auto simp flip: def6\<close>)
  qed
  have ok: "configs_ok inputs cfgs" and n: "length cfgs = length onList"
    using on_elements_ok [OF els] by (simp_all add: configs_ok_def)
  obtain p where p: "filter jk_IsProbe (map snd cfgs) = [p]" using one unfolding One_nat_def length_Suc_conv by auto
  have names: "\<forall>(sn, c) \<in> set cfgs. jk_StreamName c = sn" and g: "gomap_ok cfgs"
    using ok by (auto simp: configs_ok_def)
  note probe = one_probe [OF g names p permutes_mset [OF perm, of 0 cfgs]]
  have nested: "strategy = ''flat'' \<or> strategy = ''nested'' \<and> (\<forall>(sn, c) \<in> set cfgs. map_of nk sn \<noteq> None)"
    by (rule parse_output_ok [OF out perm])
  have each: "jk_inputChannel c \<in> snd ` set inputs \<and> (jk_Field c = [] \<or> jk_Template c = []) \<and>
      (strategy = ''nested'' \<longrightarrow> map_of nk (jk_StreamName c) \<noteq> None)" if "c \<in> snd ` set cfgs" for c
    using that ok nested by (fastforce simp: configs_ok_def)
  have pr: "jc_probeStream cfg = p" using fields(1) p by simp
  have builds: "set (jc_buildStreams cfg) \<subseteq> snd ` set cfgs" "list_all (\<lambda>c. \<not> jk_IsProbe c) (jc_buildStreams cfg)"
    using perm by (auto simp: fields(4) list_all_iff)
  have "Suc (length (jc_buildStreams cfg)) = length inputs" using probe(2) n len by (simp add: fields(4))
  moreover have "jc_buildStreams cfg \<noteq> []" using calculation len by auto
  moreover have "streams_distinct cfg" using probe(1) by (simp add: streams_distinct_def fields(4) pr)
  moreover have "list_all (\<lambda>c. jk_inputChannel c \<in> snd ` set inputs \<and> (jk_Field c = [] \<or> jk_Template c = []) \<and>
         (jc_mergeStrategy cfg = ''nested'' \<longrightarrow> map_of (jc_nestingKeys cfg) (jk_StreamName c) \<noteq> None))
       (jc_probeStream cfg # jc_buildStreams cfg)"
    unfolding list_all_iff pr fields(2,3)
  proof
    fix c assume "c \<in> set (p # jc_buildStreams cfg)"
    then have "c \<in> snd ` set cfgs" using builds(1) probe(3) by auto
    from each [OF this] show "jk_inputChannel c \<in> snd ` set inputs \<and> (jk_Field c = [] \<or> jk_Template c = []) \<and>
         (strategy = ''nested'' \<longrightarrow> map_of nk (jk_StreamName c) \<noteq> None)" .
  qed
  moreover have "strategy = ''flat'' \<or> strategy = ''nested''" using nested by blast
  ultimately show ?thesis
    unfolding config_ok_def using jt builds(2) probe(4) by (simp add: pr fields(2,3))
qed

subsection \<open>Keys\<close>

lemma digits_value_read: "digits_value = read_digits"
  by (simp add: fun_eq_iff digits_value_def read_digits_def digit_val_def)

lemma show_nat_head: "show_nat n = c # cs \<Longrightarrow> is_digit c"
  using show_nat_digits [of c n] by simp

lemma parse_int64_show:
  assumes "in_int64 i"
  shows "parse_int64 (show_int i) = Some i"
proof (cases "i < 0")
  case True
  then show ?thesis using assms
    by (simp add: parse_int64_def show_int_def digits_value_read list_all_iff show_nat_digits)
next
  case False
  obtain c cs where s: "show_nat (nat i) = c # cs" by (metis list.exhaust show_nat_not_Nil)
  with show_nat_head have "is_digit c" by blast
  then have "c \<noteq> CHR ''-''" "c \<noteq> CHR ''+''" by (auto simp: is_digit_def in_range_def ord_char_def)
  then have "parse_int64 (c # cs) = Some i" using False assms s show_nat_digits [of _ "nat i"] read_show_nat [of "nat i"]
    by (auto simp: parse_int64_def digits_value_read list_all_iff)
  then show ?thesis using False s by (simp add: show_int_def)
qed

lemma signed_in_int64_key:
  assumes "signed_kind k" and "in_int64 i"
  shows "normalizeKey env (VInt k i) = Inr (JInt i)" and "normalizeKey env (VStr (show_int i)) = Inr (JInt i)"
  using assms by (simp_all add: normalizeKey_def parse_int64_show)

lemma float_key:
  assumes "fe_round (je_float env) (of_int i) = FNum (of_int i)" and "in_int64 i"
  shows "normalizeKey env (VFloat KFloat64 (FNum (of_int i))) = Inr (JInt i)"
  using assms by (simp add: normalizeKey_def whole_number_def to_int64_def)

lemma unsigned_key:
  assumes "\<not> signed_kind k"
  shows "normalizeKey env (VInt k i) = Inr (JStr (je_showVal env (VInt k i)))"
  using assms by (simp add: normalizeKey_def)

text \<open>A key with neither a field nor a template (the field's name may be empty) is the rendered
  empty template, the same for all records.\<close>

lemma empty_rule_key:
  assumes "jk_Field cfg = []" and "jk_Template cfg = []" and "\<And>d. je_resolve env [] d = Inr (VStr [])"
  shows "extractKey env cfg r = Inr (JStr [])"
  using assms by (simp add: extractKey_def normalizeKey_def parse_int64_def)

subsection \<open>The inner join of two streams\<close>

lemma key_group_single:
  assumes "jc_buildStreams cfg = [b]"
  shows "key_group env cfg [bs] k (jk_StreamName b) = with_key env cfg 0 k bs"
  by (simp add: key_group_def stream_name_def assms)

lemma inner_join_rows:
  assumes "jc_joinType cfg = ''inner''" and b: "jc_buildStreams cfg = [b]"
  shows "join_rows env cfg [bs] probes ks = concat (map (\<lambda>p. map (\<lambda>r. constructJoinedRecord env cfg
      [(jk_StreamName (jc_probeStream cfg), Some p), (jk_StreamName b, Some r)])
      (filter (\<lambda>r. \<exists>k. extractKey env (jc_probeStream cfg) p = Inr k \<and> extractKey env b r = Inr k) bs)) probes)"
proof -
  have "(case extractKey env (jc_probeStream cfg) p of
        Inl e \<Rightarrow> []
      | Inr k \<Rightarrow> if has_key env cfg [bs] k \<or> jc_joinType cfg = ''left'' \<or> jc_joinType cfg = ''outer''
                 then rows_for env cfg (Some p) (key_group env cfg [bs] k) else []) =
      map (\<lambda>r. constructJoinedRecord env cfg [(jk_StreamName (jc_probeStream cfg), Some p), (jk_StreamName b, Some r)])
      (filter (\<lambda>r. \<exists>k. extractKey env (jc_probeStream cfg) p = Inr k \<and> extractKey env b r = Inr k) bs)" for p
  proof (cases "extractKey env (jc_probeStream cfg) p")
    case (Inr k)
    have g: "key_group env cfg [bs] k (jk_StreamName b) = filter (\<lambda>r. extractKey env b r = Inr k) bs"
      by (simp add: key_group_single [OF b] with_key_def key_of_def b)
    have "has_key env cfg [bs] k \<longleftrightarrow> filter (\<lambda>r. extractKey env b r = Inr k) bs \<noteq> []"
      by (simp add: has_key_def with_key_def key_of_def b)
    with Inr g show ?thesis
      by (simp add: assms(1) rows_for_def combos_of_def Let_def b comp_def)
  qed simp
  then show ?thesis by (simp add: join_rows_def assms(1))
qed

subsection \<open>A small join\<close>

definition ex_join_env :: join_env where
  "ex_join_env = \<lparr>je_float = \<lparr>fe_round = FNum, fe_round32 = FNum, fe_pow = (\<lambda>f n. f), fe_convert = (\<lambda>_. 0)\<rparr>,
     je_showFloat = (\<lambda>_. []), je_showVal = (\<lambda>_. ''record''), je_resolve = (\<lambda>t d. Inr (VStr t)), je_all = [],
     je_errCap = 10, je_ctx = (\<lambda>_. None), je_comboRng = in_order, je_keyRng = in_order\<rparr>"

definition ex_join_rngs :: join_rngs where
  "ex_join_rngs = \<lparr>jr_any = in_order, jr_streams = in_order, jr_nesting = in_order\<rparr>"

definition ex_on :: "string \<Rightarrow> string \<Rightarrow> string \<Rightarrow> goval" where
  "ex_on sn role field = VMap [(''stream'', VStr sn), (''role'', VStr role), (''field'', VStr field)]"

definition ex_join_params :: "string \<Rightarrow> params" where
  "ex_join_params jt = [(''join_type'', VStr jt),
     (''on'', VSlice [ex_on ''p'' ''probe'' ''k'', ex_on ''b'' ''build'' ''id'']),
     (ProducerIDMapKey, VMap [(''p'', VStr ''t0''), (''b'', VStr ''t1'')])]"

definition ex_join_cfg :: "string \<Rightarrow> moduleConfig" where
  "ex_join_cfg jt = \<lparr>jc_joinType = jt,
     jc_buildStreams = [\<lparr>jk_StreamName = ''b'', jk_Field = ''id'', jk_Template = [], jk_IsProbe = False, jk_inputChannel = 1\<rparr>],
     jc_probeStream = \<lparr>jk_StreamName = ''p'', jk_Field = ''k'', jk_Template = [], jk_IsProbe = True, jk_inputChannel = 0\<rparr>,
     jc_mergeStrategy = ''flat'', jc_nestingKeys = [], jc_maxBuildRecords = 0\<rparr>"

definition ex_builds :: "params list list" where
  "ex_builds = [[[(''id'', VStr ''1''), (''x'', VStr ''a'')], [(''id'', VStr ''2''), (''x'', VStr ''b'')]]]"

definition ex_probes :: "params list" where
  "ex_probes = [[(''k'', VInt KInt 1), (''y'', VStr ''c'')], [(''y'', VStr ''d'')]]"

definition ex_build_run :: "build_label list" where
  "ex_build_run = replicate 4 (JStep 0) @ [JCollect] @ replicate 4 (JStep 0) @ [JCollect, JStep 0]"

definition ex_built :: "string \<Rightarrow> build_state" where
  "ex_built jt = \<lparr>bs_in = [[]], bs_pc = [GLeft], bs_total = 2, bs_skipped = 0, bs_err = None, bs_cancelled = False,
     bs_merged = [], bs_map = [(JInt 1, [(''b'', [\<lparr>be_record = [(''id'', VStr ''1''), (''x'', VStr ''a'')], be_matched = False\<rparr>])]),
       (JInt 2, [(''b'', [\<lparr>be_record = [(''id'', VStr ''2''), (''x'', VStr ''b'')], be_matched = False\<rparr>])])], bs_errs = []\<rparr>"

lemma ex_join_parse:
  "parseAndValidateParams ex_join_env ex_join_rngs (ex_join_params ''inner'') [(''t0'', 0), (''t1'', 1)] = Inr (ex_join_cfg ''inner'')"
  by code_simp

lemma ex_join_built:
  "build_fires ex_join_env (ex_join_cfg ''inner'') ex_build_run (build_start (ex_join_cfg ''inner'') ex_builds) = Some (ex_built ''inner'')"
  by code_simp

lemma ex_joins: "joins ex_join_env (ex_join_cfg ''inner'') ex_builds ex_probes ex_build_run (ex_built ''inner'')"
proof -
  have "JCancel \<notin> set ex_build_run" by (auto simp: ex_build_run_def)
  moreover have "bad_records ex_join_env (ex_join_cfg ''inner'') ex_builds ex_probes = 1" by code_simp
  moreover have "uncancelled ex_join_env" "permutes (je_keyRng ex_join_env)" "je_errCap ex_join_env = 10"
    by (simp_all add: ex_join_env_def uncancelled_def)
  moreover have "build_finished (ex_built ''inner'')" by (simp add: build_finished_def ex_built_def)
  moreover have "length ex_builds = length (jc_buildStreams (ex_join_cfg ''inner''))"
    and "\<not> over_limit (ex_join_cfg ''inner'') (int (sum_list (map length ex_builds)))"
    by (simp_all add: ex_builds_def ex_join_cfg_def over_limit_def)
  ultimately show ?thesis by (simp add: joins_def ex_join_built)
qed

end
