(* ===== verification/Gxo_Construct.thy ===== *)
theory Gxo_Construct
  imports Gxo_Channels Gxo_Task
begin

text \<open>
  How an engine is put together (\<open>NewEngine\<close>, \<open>initMetrics\<close> and the setters of
  \<open>internal/engine/engine.go\<close>, the options of \<open>pkg/gxo/v1/api.go\<close>). A service is known by a
  number and \<open>None\<close> is nil. The channel managers made so far are kept in a list, an engine and a
  task runner hold positions in it, as the code's pointers do. Prometheus registries are a
  parameter: what registering a collector under a name does to a registry.
\<close>

type_synonym service = nat

record runner_parts =
  tn_stateManager :: "service option"
  tn_pluginRegistry :: "service option"
  tn_channelManager :: nat
  tn_eventBus :: "service option"
  tn_secretsProvider :: "service option"
  tn_tracerProvider :: "service option"
  tn_redactedKeywords :: "string list"
  tn_defaultTimeout :: duration

record engine_parts =
  eg_stateManager :: "service option"
  eg_secretsProvider :: "service option"
  eg_eventBus :: "service option"
  eg_pluginRegistry :: "service option"
  eg_metricsProvider :: "service option"
  eg_tracerProvider :: "service option"
  eg_channelManager :: "nat option"
  eg_retryKeywords :: "string list option"
  eg_taskRunner :: "runner_parts option"
  eg_workerPoolSize :: int
  eg_defaultChannelPolicy :: "ChannelPolicy option"
  eg_defaultTimeout :: duration
  eg_redactedKeywords :: "string list"
  eg_redactedKeywordsSlice :: "string list"
  eg_stallPolicy :: StallPolicy

record 'reg world = engine_parts +
  w_managers :: "unit ChannelManager list"
  w_regs :: "nat \<Rightarrow> 'reg"

type_synonym 'reg step = "'reg world \<Rightarrow> (goerr option \<times> 'reg world) outcome"

text \<open>The number of processors, the default services, the registry a metrics provider returns, and
  the registration of a collector.\<close>

record 'reg construct_env =
  ne_numCPU :: int
  ne_stateStore :: service
  ne_secrets :: service
  ne_noopBus :: service
  ne_staticRegistry :: service
  ne_metrics :: service
  ne_noopTracer :: service
  ne_registryOf :: "service \<Rightarrow> nat option"
  ne_register :: "string \<Rightarrow> 'reg \<Rightarrow> goerr option \<times> 'reg"

definition config_error :: "string \<Rightarrow> goerr" where
  "config_error m = ConfigError m None"

subsection \<open>Metrics\<close>

text \<open>\<open>MustRegister\<close> panics where \<open>Register\<close> returns an error; of the last two registrations the
  error is only logged.\<close>

fun must_register :: "'reg construct_env \<Rightarrow> nat \<Rightarrow> string list \<Rightarrow> 'reg world \<Rightarrow> 'reg world outcome" where
  "must_register env n [] w = Returns w"
| "must_register env n (name # names) w =
     (case ne_register env name (w_regs w n) of
        (Some err, reg) \<Rightarrow> Panics
      | (None, reg) \<Rightarrow> must_register env n names (w\<lparr>w_regs := (w_regs w)(n := reg)\<rparr>))"

definition try_register :: "'reg construct_env \<Rightarrow> nat \<Rightarrow> string \<Rightarrow> 'reg world \<Rightarrow> 'reg world" where
  "try_register env n name w = w\<lparr>w_regs := (w_regs w)(n := snd (ne_register env name (w_regs w n)))\<rparr>"

definition must_metrics :: "string list" where
  "must_metrics = [''gxo_playbook_runs_total'', ''gxo_playbook_run_duration_seconds'', ''gxo_task_run_duration_seconds'',
     ''gxo_task_runs_total'', ''gxo_engine_active_workers'']"

definition initMetrics :: "'reg construct_env \<Rightarrow> 'reg world \<Rightarrow> 'reg world outcome" where
  "initMetrics env w =
     (case eg_metricsProvider w of
        None \<Rightarrow> Returns w
      | Some provider \<Rightarrow>
         (case ne_registryOf env provider of
            None \<Rightarrow> Returns w
          | Some n \<Rightarrow>
             (case must_register env n must_metrics w of
                Returns w1 \<Rightarrow>
                  (let w2 = (if eg_secretsProvider w1 \<noteq> None then try_register env n ''gxo_secrets_accessed_total'' w1 else w1)
                   in Returns (try_register env n ''gxo_secrets_redacted_total'' w2))
              | Blocks \<Rightarrow> Blocks
              | Panics \<Rightarrow> Panics)))"

subsection \<open>Setters\<close>

definition accept :: "'reg world \<Rightarrow> (goerr option \<times> 'reg world) outcome" where
  "accept w = Returns (None, w)"

definition refuse :: "string \<Rightarrow> 'reg step" where
  "refuse m w = Returns (Some (config_error m), w)"

definition upd_runner :: "(runner_parts \<Rightarrow> runner_parts) \<Rightarrow> 'reg world \<Rightarrow> 'reg world" where
  "upd_runner f w = w\<lparr>eg_taskRunner := map_option f (eg_taskRunner w)\<rparr>"

definition SetStateStore :: "service option \<Rightarrow> 'reg step" where
  "SetStateStore store w =
     (if store = None then refuse ''state store cannot be nil'' w
      else accept (upd_runner (\<lambda>r. r\<lparr>tn_stateManager := store\<rparr>) (w\<lparr>eg_stateManager := store\<rparr>)))"

definition SetSecretsProvider :: "service option \<Rightarrow> 'reg step" where
  "SetSecretsProvider provider w =
     (if provider = None then refuse ''secrets provider cannot be nil'' w
      else accept (upd_runner (\<lambda>r. r\<lparr>tn_secretsProvider := provider\<rparr>) (w\<lparr>eg_secretsProvider := provider\<rparr>)))"

definition SetEventBus :: "service option \<Rightarrow> 'reg step" where
  "SetEventBus bus w =
     (if bus = None then refuse ''event bus cannot be nil'' w
      else accept (upd_runner (\<lambda>r. r\<lparr>tn_eventBus := bus\<rparr>) (w\<lparr>eg_eventBus := bus\<rparr>)))"

definition SetPluginRegistry :: "service option \<Rightarrow> 'reg step" where
  "SetPluginRegistry registry w =
     (if registry = None then refuse ''plugin registry cannot be nil'' w
      else accept (upd_runner (\<lambda>r. r\<lparr>tn_pluginRegistry := registry\<rparr>) (w\<lparr>eg_pluginRegistry := registry\<rparr>)))"

definition SetMetricsRegistryProvider :: "'reg construct_env \<Rightarrow> service option \<Rightarrow> 'reg step" where
  "SetMetricsRegistryProvider env provider w =
     (if provider = None then refuse ''metrics registry provider cannot be nil'' w
      else (case initMetrics env (w\<lparr>eg_metricsProvider := provider\<rparr>) of
          Returns w' \<Rightarrow> accept w' | Blocks \<Rightarrow> Blocks | Panics \<Rightarrow> Panics))"

definition SetTracerProvider :: "service option \<Rightarrow> 'reg step" where
  "SetTracerProvider provider w =
     (if provider = None then refuse ''tracer provider cannot be nil'' w
      else accept (upd_runner (\<lambda>r. r\<lparr>tn_tracerProvider := provider\<rparr>) (w\<lparr>eg_tracerProvider := provider\<rparr>)))"

definition SetDefaultTimeout :: "duration \<Rightarrow> 'reg step" where
  "SetDefaultTimeout timeout w =
     (if timeout < 0 then refuse ''default timeout cannot be negative'' w
      else accept (upd_runner (\<lambda>r. r\<lparr>tn_defaultTimeout := timeout\<rparr>) (w\<lparr>eg_defaultTimeout := timeout\<rparr>)))"

definition SetWorkerPoolSize :: "int \<Rightarrow> 'reg step" where
  "SetWorkerPoolSize n w =
     (if n \<le> 0 then refuse ''worker pool size must be positive'' w else accept (w\<lparr>eg_workerPoolSize := n\<rparr>))"

text \<open>A new channel manager; the policy is the engine's own copy, clamped through the pointer.\<close>

definition new_manager :: "'reg world \<Rightarrow> 'reg world" where
  "new_manager w =
     (case NewChannelManager (eg_defaultChannelPolicy w) of
        (cm, policy) \<Rightarrow> w\<lparr>w_managers := w_managers w @ [cm], eg_channelManager := Some (length (w_managers w)),
                         eg_defaultChannelPolicy := policy\<rparr>)"

definition SetDefaultChannelPolicy :: "int option \<Rightarrow> string \<Rightarrow> 'reg step" where
  "SetDefaultChannelPolicy bufferSize overflowStrategy w =
     (if overflowStrategy \<notin> {[], OverflowBlock, OverflowDropNew, OverflowDropOldest, OverflowError}
      then refuse (''invalid default channel policy overflow_strategy: '' @ q overflowStrategy) w
      else if bufferSize \<noteq> None \<and> the bufferSize < 0
      then refuse ''default channel policy buffer_size cannot be negative'' w
      else (let w1 = w\<lparr>eg_defaultChannelPolicy := Some \<lparr>cp_Name = [], cp_BufferSize = bufferSize,
                         cp_OverflowStrategy = overflowStrategy\<rparr>\<rparr>
            in accept (if eg_channelManager w1 \<noteq> None then new_manager w1 else w1)))"

definition SetStallPolicy :: "StallPolicy option \<Rightarrow> 'reg step" where
  "SetStallPolicy policy w =
     (case policy of
        None \<Rightarrow> refuse ''stall policy cannot be nil'' w
      | Some p \<Rightarrow>
          if sl_Interval p \<le> 0 then refuse ''stall policy interval must be positive'' w
          else if sl_Tolerance p \<le> 0 then refuse ''stall policy tolerance must be positive'' w
          else accept (w\<lparr>eg_stallPolicy := p\<rparr>))"

definition keyword_set :: "string list \<Rightarrow> string list" where
  "keyword_set ks =
     fold (\<lambda>k acc. let keyLower = to_lower (trim_space k) in if keyLower \<noteq> [] then List.insert keyLower acc else acc) ks []"

definition SetRedactedKeywords :: "string list \<Rightarrow> 'reg step" where
  "SetRedactedKeywords ks w =
     accept (upd_runner (\<lambda>r. r\<lparr>tn_redactedKeywords := keyword_set ks\<rparr>)
       (w\<lparr>eg_redactedKeywordsSlice := ks, eg_redactedKeywords := keyword_set ks,
         eg_retryKeywords := map_option (\<lambda>_. keyword_set ks) (eg_retryKeywords w)\<rparr>))"

subsection \<open>Options\<close>

definition WithStateStore :: "service option \<Rightarrow> 'reg step" where
  "WithStateStore store w =
     (if store = None then refuse ''state store cannot be nil'' w else SetStateStore store w)"

definition WithSecretsProvider :: "service option \<Rightarrow> 'reg step" where
  "WithSecretsProvider provider w =
     (if provider = None then refuse ''secrets provider cannot be nil'' w else SetSecretsProvider provider w)"

definition WithEventBus :: "service option \<Rightarrow> 'reg step" where
  "WithEventBus bus w = (if bus = None then refuse ''event bus cannot be nil'' w else SetEventBus bus w)"

definition WithPluginRegistry :: "service option \<Rightarrow> 'reg step" where
  "WithPluginRegistry registry w =
     (if registry = None then refuse ''plugin registry cannot be nil'' w else SetPluginRegistry registry w)"

definition WithMetricsRegistryProvider :: "'reg construct_env \<Rightarrow> service option \<Rightarrow> 'reg step" where
  "WithMetricsRegistryProvider env provider w =
     (if provider = None then refuse ''metrics registry provider cannot be nil'' w
      else SetMetricsRegistryProvider env provider w)"

definition WithTracerProvider :: "service option \<Rightarrow> 'reg step" where
  "WithTracerProvider provider w =
     (if provider = None then refuse ''tracer provider cannot be nil'' w else SetTracerProvider provider w)"

definition WithWorkerPoolSize :: "'reg construct_env \<Rightarrow> int \<Rightarrow> 'reg step" where
  "WithWorkerPoolSize env n w = SetWorkerPoolSize (if n \<le> 0 then ne_numCPU env else n) w"

definition WithDefaultChannelPolicy :: "int option \<Rightarrow> string \<Rightarrow> 'reg step" where
  "WithDefaultChannelPolicy bufferSize overflowStrategy w = SetDefaultChannelPolicy bufferSize overflowStrategy w"

definition WithDefaultTimeout :: "duration \<Rightarrow> 'reg step" where
  "WithDefaultTimeout timeout w =
     (if timeout < 0 then refuse ''default timeout cannot be negative'' w else SetDefaultTimeout timeout w)"

definition WithRedactedKeywords :: "string list \<Rightarrow> 'reg step" where
  "WithRedactedKeywords ks w = SetRedactedKeywords ks w"

definition WithStallPolicy :: "duration \<Rightarrow> int \<Rightarrow> 'reg step" where
  "WithStallPolicy interval tolerance w =
     (if interval \<le> 0 \<or> tolerance \<le> 0
      then refuse ''stall policy interval and tolerance must be positive'' w
      else SetStallPolicy (Some \<lparr>sl_Interval = interval, sl_Tolerance = tolerance\<rparr>) w)"

subsection \<open>NewEngine\<close>

definition blank_engine :: "'reg construct_env \<Rightarrow> (nat \<Rightarrow> 'reg) \<Rightarrow> 'reg world" where
  "blank_engine env regs =
     \<lparr>eg_stateManager = None, eg_secretsProvider = None, eg_eventBus = None, eg_pluginRegistry = None,
      eg_metricsProvider = None, eg_tracerProvider = None, eg_channelManager = None, eg_retryKeywords = None,
      eg_taskRunner = None, eg_workerPoolSize = ne_numCPU env, eg_defaultChannelPolicy = None, eg_defaultTimeout = 0,
      eg_redactedKeywords = [], eg_redactedKeywordsSlice = [],
      eg_stallPolicy = \<lparr>sl_Interval = 1000000000, sl_Tolerance = 5\<rparr>, w_managers = [], w_regs = regs\<rparr>"

fun apply_options :: "'reg step list \<Rightarrow> 'reg step" where
  "apply_options [] w = accept w"
| "apply_options (opt # opts) w =
     (case opt w of
        Returns (Some err, w') \<Rightarrow>
          Returns (Some (ConfigError (''failed to apply engine option: '' @ Error err) (Some err)), w')
      | Returns (None, w') \<Rightarrow> apply_options opts w'
      | Blocks \<Rightarrow> Blocks
      | Panics \<Rightarrow> Panics)"

definition default_to :: "service \<Rightarrow> service option \<Rightarrow> service option" where
  "default_to d s = (if s = None then Some d else s)"

definition fill_defaults :: "'reg construct_env \<Rightarrow> 'reg world \<Rightarrow> 'reg world" where
  "fill_defaults env w =
     w\<lparr>eg_stateManager := default_to (ne_stateStore env) (eg_stateManager w),
       eg_secretsProvider := default_to (ne_secrets env) (eg_secretsProvider w),
       eg_eventBus := default_to (ne_noopBus env) (eg_eventBus w),
       eg_pluginRegistry := default_to (ne_staticRegistry env) (eg_pluginRegistry w),
       eg_metricsProvider := default_to (ne_metrics env) (eg_metricsProvider w),
       eg_tracerProvider := default_to (ne_noopTracer env) (eg_tracerProvider w)\<rparr>"

definition default_keywords :: "'reg world \<Rightarrow> 'reg world" where
  "default_keywords w =
     (if eg_redactedKeywords w = [] \<and> eg_redactedKeywordsSlice w \<noteq> [] then
        (case SetRedactedKeywords (eg_redactedKeywordsSlice w) w of Returns (e, w') \<Rightarrow> w' | _ \<Rightarrow> w)
      else w)"

definition wire_runner :: "'reg world \<Rightarrow> 'reg world" where
  "wire_runner w =
     w\<lparr>eg_retryKeywords := Some (eg_redactedKeywords w),
       eg_taskRunner := Some \<lparr>tn_stateManager = eg_stateManager w, tn_pluginRegistry = eg_pluginRegistry w,
         tn_channelManager = the (eg_channelManager w), tn_eventBus = eg_eventBus w,
         tn_secretsProvider = eg_secretsProvider w, tn_tracerProvider = eg_tracerProvider w,
         tn_redactedKeywords = eg_redactedKeywords w, tn_defaultTimeout = eg_defaultTimeout w\<rparr>\<rparr>"

definition NewEngine ::
    "'reg construct_env \<Rightarrow> bool \<Rightarrow> 'reg step list \<Rightarrow> (nat \<Rightarrow> 'reg) \<Rightarrow> (goerr option \<times> 'reg world) outcome" where
  "NewEngine env hasLog opts regs =
     (if \<not> hasLog then refuse ''logger cannot be nil'' (blank_engine env regs)
      else case apply_options opts (blank_engine env regs) of
        Returns (Some err, w) \<Rightarrow> Returns (Some err, w)
      | Returns (None, w) \<Rightarrow>
          (case initMetrics env (wire_runner (new_manager (default_keywords (fill_defaults env w)))) of
             Returns w' \<Rightarrow> accept w' | Blocks \<Rightarrow> Blocks | Panics \<Rightarrow> Panics)
      | Blocks \<Rightarrow> Blocks
      | Panics \<Rightarrow> Panics)"

subsection \<open>What the options keep\<close>

text \<open>The options that do not touch the metrics provider, and all of them.\<close>

inductive plain_option :: "'reg construct_env \<Rightarrow> 'reg step \<Rightarrow> bool" for env where
  "plain_option env (WithStateStore s)"
| "plain_option env (WithSecretsProvider s)"
| "plain_option env (WithEventBus s)"
| "plain_option env (WithPluginRegistry s)"
| "plain_option env (WithTracerProvider s)"
| "plain_option env (WithWorkerPoolSize env i)"
| "plain_option env (WithDefaultChannelPolicy b st)"
| "plain_option env (WithDefaultTimeout t)"
| "plain_option env (WithRedactedKeywords ks)"
| "plain_option env (WithStallPolicy t i)"

definition api_option :: "'reg construct_env \<Rightarrow> 'reg step \<Rightarrow> bool" where
  "api_option env opt \<longleftrightarrow> plain_option env opt \<or> (\<exists>p. opt = WithMetricsRegistryProvider env p)"

lemmas option_defs = WithStateStore_def WithSecretsProvider_def WithEventBus_def WithPluginRegistry_def
  WithTracerProvider_def WithWorkerPoolSize_def WithDefaultChannelPolicy_def WithDefaultTimeout_def
  WithRedactedKeywords_def WithStallPolicy_def SetStateStore_def SetSecretsProvider_def SetEventBus_def
  SetPluginRegistry_def SetTracerProvider_def SetWorkerPoolSize_def SetDefaultChannelPolicy_def SetDefaultTimeout_def
  SetRedactedKeywords_def SetStallPolicy_def accept_def refuse_def upd_runner_def

definition policy_valid :: "ChannelPolicy option \<Rightarrow> bool" where
  "policy_valid p \<longleftrightarrow> (case p of None \<Rightarrow> True
     | Some p \<Rightarrow> cp_OverflowStrategy p \<in> {[], OverflowBlock, OverflowDropNew, OverflowDropOldest, OverflowError} \<and>
         (case cp_BufferSize p of None \<Rightarrow> True | Some n \<Rightarrow> 0 \<le> n))"

text \<open>The limits an engine keeps, and the agreement of its task runner and retry helper with it.\<close>

definition limits_ok :: "'reg world \<Rightarrow> bool" where
  "limits_ok w \<longleftrightarrow> 0 < eg_workerPoolSize w \<and> 0 \<le> eg_defaultTimeout w \<and>
     0 < sl_Interval (eg_stallPolicy w) \<and> 0 < sl_Tolerance (eg_stallPolicy w) \<and>
     policy_valid (eg_defaultChannelPolicy w) \<and> eg_redactedKeywords w = keyword_set (eg_redactedKeywordsSlice w)"

definition runner_follows :: "'reg world \<Rightarrow> runner_parts \<Rightarrow> bool" where
  "runner_follows w r \<longleftrightarrow> tn_stateManager r = eg_stateManager w \<and> tn_pluginRegistry r = eg_pluginRegistry w \<and>
     tn_eventBus r = eg_eventBus w \<and> tn_secretsProvider r = eg_secretsProvider w \<and>
     tn_tracerProvider r = eg_tracerProvider w \<and> tn_redactedKeywords r = eg_redactedKeywords w \<and>
     tn_defaultTimeout r = eg_defaultTimeout w"

definition in_step :: "'reg world \<Rightarrow> bool" where
  "in_step w \<longleftrightarrow> (\<forall>r. eg_taskRunner w = Some r \<longrightarrow> runner_follows w r) \<and>
     (\<forall>ks. eg_retryKeywords w = Some ks \<longrightarrow> ks = eg_redactedKeywords w)"

lemma new_manager_fields [simp]:
  "eg_workerPoolSize (new_manager w) = eg_workerPoolSize w" "eg_defaultTimeout (new_manager w) = eg_defaultTimeout w"
  "eg_stallPolicy (new_manager w) = eg_stallPolicy w" "eg_redactedKeywords (new_manager w) = eg_redactedKeywords w"
  "eg_redactedKeywordsSlice (new_manager w) = eg_redactedKeywordsSlice w" "eg_taskRunner (new_manager w) = eg_taskRunner w"
  "eg_retryKeywords (new_manager w) = eg_retryKeywords w" "eg_stateManager (new_manager w) = eg_stateManager w"
  "eg_secretsProvider (new_manager w) = eg_secretsProvider w" "eg_eventBus (new_manager w) = eg_eventBus w"
  "eg_pluginRegistry (new_manager w) = eg_pluginRegistry w" "eg_metricsProvider (new_manager w) = eg_metricsProvider w"
  "eg_tracerProvider (new_manager w) = eg_tracerProvider w" "w_regs (new_manager w) = w_regs w"
  "eg_channelManager (new_manager w) = Some (length (w_managers w))"
  "length (w_managers (new_manager w)) = Suc (length (w_managers w))"
  by (simp_all add: new_manager_def split: prod.split)

lemma new_manager_policy: "policy_valid (eg_defaultChannelPolicy w) \<Longrightarrow> policy_valid (eg_defaultChannelPolicy (new_manager w))"
  by (auto simp: new_manager_def NewChannelManager_def Let_def policy_valid_def split: option.splits)

lemma runner_follows_manager [simp]: "runner_follows (new_manager w) = runner_follows w"
  by (simp add: fun_eq_iff runner_follows_def)

definition keeps_engine :: "'reg world \<Rightarrow> 'reg world \<Rightarrow> bool" where
  "keeps_engine w w' \<longleftrightarrow> (limits_ok w \<longrightarrow> limits_ok w') \<and> (in_step w \<longrightarrow> in_step w') \<and> w_regs w' = w_regs w \<and>
    eg_metricsProvider w' = eg_metricsProvider w"

lemma keeps_engine_refl [simp]: "keeps_engine w w"
  by (simp add: keeps_engine_def)

lemma keeps_engine_trans: "keeps_engine w w' \<Longrightarrow> keeps_engine w' w'' \<Longrightarrow> keeps_engine w w''"
  by (simp add: keeps_engine_def)

lemma new_manager_keeps [simp]: "keeps_engine w (new_manager w)"
  by (simp add: keeps_engine_def limits_ok_def in_step_def new_manager_policy)

lemma set_policy_keeps:
  assumes r: "SetDefaultChannelPolicy b st w = Returns (e, w')"
  shows "keeps_engine w w'"
proof -
  let ?bad = "st \<notin> {[], OverflowBlock, OverflowDropNew, OverflowDropOldest, OverflowError}"
  let ?neg = "b \<noteq> None \<and> the b < 0"
  let ?w = "w\<lparr>eg_defaultChannelPolicy := Some \<lparr>cp_Name = [], cp_BufferSize = b, cp_OverflowStrategy = st\<rparr>\<rparr>"
  consider "?bad" | "?bad = False" "?neg" | "?bad = False" "?neg = False" by argo
  then show ?thesis
  proof cases
    case 1
    then have "w' = w" using r unfolding SetDefaultChannelPolicy_def refuse_def by (simp only: if_True) simp
    then show ?thesis by simp
  next
    case 2
    then have "w' = w" using r unfolding SetDefaultChannelPolicy_def refuse_def 2(1) if_False by simp
    then show ?thesis by simp
  next
    case 3
    have "w' = (if eg_channelManager ?w \<noteq> None then new_manager ?w else ?w)"
      using r unfolding SetDefaultChannelPolicy_def accept_def Let_def 3 if_False by simp
    moreover have "policy_valid (Some \<lparr>cp_Name = [], cp_BufferSize = b, cp_OverflowStrategy = st\<rparr>)"
      using 3 unfolding policy_valid_def by (cases b) simp_all
    then have "keeps_engine w ?w" by (simp add: keeps_engine_def limits_ok_def in_step_def runner_follows_def)
    ultimately show ?thesis using keeps_engine_trans [OF _ new_manager_keeps, of w ?w] by simp
  qed
qed

lemma keeps_updates:
  "keeps_engine w (upd_runner (\<lambda>r. r\<lparr>tn_stateManager := x\<rparr>) (w\<lparr>eg_stateManager := x\<rparr>))"
  "keeps_engine w (upd_runner (\<lambda>r. r\<lparr>tn_secretsProvider := x\<rparr>) (w\<lparr>eg_secretsProvider := x\<rparr>))"
  "keeps_engine w (upd_runner (\<lambda>r. r\<lparr>tn_eventBus := x\<rparr>) (w\<lparr>eg_eventBus := x\<rparr>))"
  "keeps_engine w (upd_runner (\<lambda>r. r\<lparr>tn_pluginRegistry := x\<rparr>) (w\<lparr>eg_pluginRegistry := x\<rparr>))"
  "keeps_engine w (upd_runner (\<lambda>r. r\<lparr>tn_tracerProvider := x\<rparr>) (w\<lparr>eg_tracerProvider := x\<rparr>))"
  "0 \<le> t \<Longrightarrow> keeps_engine w (upd_runner (\<lambda>r. r\<lparr>tn_defaultTimeout := t\<rparr>) (w\<lparr>eg_defaultTimeout := t\<rparr>))"
  "keeps_engine w (upd_runner (\<lambda>r. r\<lparr>tn_redactedKeywords := keyword_set ks\<rparr>)
       (w\<lparr>eg_redactedKeywordsSlice := ks, eg_redactedKeywords := keyword_set ks,
         eg_retryKeywords := map_option (\<lambda>_. keyword_set ks) (eg_retryKeywords w)\<rparr>))"
  "0 < i \<Longrightarrow> keeps_engine w (w\<lparr>eg_workerPoolSize := i\<rparr>)"
  "0 < sl_Interval p \<Longrightarrow> 0 < sl_Tolerance p \<Longrightarrow> keeps_engine w (w\<lparr>eg_stallPolicy := p\<rparr>)"
  by (auto simp: keeps_engine_def limits_ok_def in_step_def runner_follows_def upd_runner_def)

lemma SetRedactedKeywords_accepts:
  "SetRedactedKeywords ks w = Returns (None, upd_runner (\<lambda>r. r\<lparr>tn_redactedKeywords := keyword_set ks\<rparr>)
       (w\<lparr>eg_redactedKeywordsSlice := ks, eg_redactedKeywords := keyword_set ks,
         eg_retryKeywords := map_option (\<lambda>_. keyword_set ks) (eg_retryKeywords w)\<rparr>))"
  by (simp add: SetRedactedKeywords_def accept_def)

lemma plain_option_keeps:
  assumes "plain_option env opt" and r: "opt w = Returns (e, w')" and "0 < ne_numCPU env"
  shows "keeps_engine w w'"
  using assms(1)
proof cases
  case (1 s)
  with r keeps_updates(1) [of w s] show ?thesis by (simp add: WithStateStore_def SetStateStore_def refuse_def accept_def split: if_splits)
next
  case (2 s)
  with r keeps_updates(2) [of w s] show ?thesis
    by (simp add: WithSecretsProvider_def SetSecretsProvider_def refuse_def accept_def split: if_splits)
next
  case (3 s)
  with r keeps_updates(3) [of w s] show ?thesis by (simp add: WithEventBus_def SetEventBus_def refuse_def accept_def split: if_splits)
next
  case (4 s)
  with r keeps_updates(4) [of w s] show ?thesis
    by (simp add: WithPluginRegistry_def SetPluginRegistry_def refuse_def accept_def split: if_splits)
next
  case (5 s)
  with r keeps_updates(5) [of w s] show ?thesis
    by (simp add: WithTracerProvider_def SetTracerProvider_def refuse_def accept_def split: if_splits)
next
  case (6 i)
  with r assms(3) keeps_updates(8) [of "if i \<le> 0 then ne_numCPU env else i" w] show ?thesis
    by (simp add: WithWorkerPoolSize_def SetWorkerPoolSize_def refuse_def accept_def split: if_splits)
next
  case (7 b st)
  with r set_policy_keeps show ?thesis by (simp add: WithDefaultChannelPolicy_def)
next
  case (8 t)
  with r keeps_updates(6) [of t w] show ?thesis
    by (simp add: WithDefaultTimeout_def SetDefaultTimeout_def refuse_def accept_def split: if_splits)
next
  case (9 ks)
  with r keeps_updates(7) [of w ks] show ?thesis by (simp add: WithRedactedKeywords_def SetRedactedKeywords_accepts)
next
  case (10 t i)
  with r keeps_updates(9) [of "\<lparr>sl_Interval = t, sl_Tolerance = i\<rparr>" w] show ?thesis
    by (simp add: WithStallPolicy_def SetStallPolicy_def refuse_def accept_def split: if_splits)
qed

text \<open>Registering collectors changes the registries only.\<close>

lemma must_register_regs: "must_register env n names w = Returns w' \<Longrightarrow> w' = w\<lparr>w_regs := w_regs w'\<rparr>"
proof (induction names arbitrary: w)
  case (Cons name names)
  then obtain reg where "must_register env n names (w\<lparr>w_regs := (w_regs w)(n := reg)\<rparr>) = Returns w'"
    by (auto split: prod.splits option.splits)
  from Cons.IH [OF this] show ?case by simp
qed simp

lemma initMetrics_regs:
  assumes "initMetrics env w = Returns w'"
  shows "w' = w\<lparr>w_regs := w_regs w'\<rparr>"
proof -
  have id: "w = w\<lparr>w_regs := w_regs w\<rparr>" by simp
  from assms consider "w' = w"
    | n w1 where "must_register env n must_metrics w = Returns w1" "\<exists>f. w' = w1\<lparr>w_regs := f\<rparr>"
    unfolding initMetrics_def try_register_def Let_def
    by (auto split: option.splits outcome.splits if_splits)
  then show ?thesis
  proof cases
    case 1
    with id show ?thesis by simp
  next
    case 2
    then obtain f where "w' = w1\<lparr>w_regs := f\<rparr>" by blast
    then show ?thesis by (subst (asm) must_register_regs [OF 2(1)]) simp
  qed
qed

lemma regs_only: "limits_ok (w\<lparr>w_regs := f\<rparr>) = limits_ok w" "in_step (w\<lparr>w_regs := f\<rparr>) = in_step w"
  by (simp_all add: limits_ok_def in_step_def runner_follows_def)

lemma initMetrics_keeps:
  assumes "initMetrics env w = Returns w'"
  shows "limits_ok w' = limits_ok w" and "in_step w' = in_step w" and "eg_metricsProvider w' = eg_metricsProvider w"
  by (subst initMetrics_regs [OF assms], simp add: regs_only)+

lemma api_option_keeps:
  assumes "api_option env opt" and "opt w = Returns (e, w')" and "0 < ne_numCPU env"
  shows "(limits_ok w \<longrightarrow> limits_ok w') \<and> (in_step w \<longrightarrow> in_step w')"
proof (cases "plain_option env opt")
  case True
  from plain_option_keeps [OF this assms(2,3)] show ?thesis by (simp add: keeps_engine_def)
next
  case False
  then obtain p where p: "opt = WithMetricsRegistryProvider env p" using assms(1) by (auto simp: api_option_def)
  show ?thesis
  proof (cases "p = None")
    case True
    with p assms(2) show ?thesis by (simp add: WithMetricsRegistryProvider_def refuse_def)
  next
    case False
    with p assms(2) have "initMetrics env (w\<lparr>eg_metricsProvider := p\<rparr>) = Returns w'"
      by (auto simp: WithMetricsRegistryProvider_def SetMetricsRegistryProvider_def accept_def split: outcome.splits)
    from initMetrics_keeps [OF this] show ?thesis by (simp add: limits_ok_def in_step_def runner_follows_def)
  qed
qed

lemma apply_options_keeps:
  "apply_options opts w = Returns (e, w') \<Longrightarrow> \<forall>opt \<in> set opts. api_option env opt \<Longrightarrow> 0 < ne_numCPU env \<Longrightarrow>
     (limits_ok w \<longrightarrow> limits_ok w') \<and> (in_step w \<longrightarrow> in_step w')"
proof (induction opts arbitrary: w)
  case Nil
  then show ?case by (simp add: accept_def)
next
  case (Cons opt opts)
  then obtain e1 w1 where o: "opt w = Returns (e1, w1)" by (auto split: outcome.splits)
  have k: "(limits_ok w \<longrightarrow> limits_ok w1) \<and> (in_step w \<longrightarrow> in_step w1)"
    using api_option_keeps [of env opt w e1 w1] o Cons.prems by simp
  show ?case
  proof (cases e1)
    case None
    with Cons o k show ?thesis by auto
  next
    case (Some err)
    with Cons.prems(1) o k show ?thesis by auto
  qed
qed

text \<open>An engine that was made has all its services, and its task runner and retry helper use them.\<close>

definition all_services :: "'reg world \<Rightarrow> bool" where
  "all_services w \<longleftrightarrow> eg_stateManager w \<noteq> None \<and> eg_secretsProvider w \<noteq> None \<and> eg_eventBus w \<noteq> None \<and>
     eg_pluginRegistry w \<noteq> None \<and> eg_metricsProvider w \<noteq> None \<and> eg_tracerProvider w \<noteq> None \<and>
     (\<exists>r. eg_taskRunner w = Some r \<and> eg_channelManager w = Some (tn_channelManager r)) \<and> eg_retryKeywords w \<noteq> None"

lemma default_keywords_id: "limits_ok w \<Longrightarrow> limits_ok (default_keywords w) \<and>
    eg_stateManager (default_keywords w) = eg_stateManager w \<and> eg_secretsProvider (default_keywords w) = eg_secretsProvider w \<and>
    eg_eventBus (default_keywords w) = eg_eventBus w \<and> eg_pluginRegistry (default_keywords w) = eg_pluginRegistry w \<and>
    eg_metricsProvider (default_keywords w) = eg_metricsProvider w \<and> eg_tracerProvider (default_keywords w) = eg_tracerProvider w"
  by (auto simp: default_keywords_def SetRedactedKeywords_accepts limits_ok_def upd_runner_def)

lemma default_keywords_regs [simp]: "w_regs (default_keywords w) = w_regs w"
  by (simp add: default_keywords_def SetRedactedKeywords_accepts upd_runner_def)

lemma wire_runner_ok:
  assumes "limits_ok w"
  shows "limits_ok (wire_runner (new_manager w)) \<and> in_step (wire_runner (new_manager w))"
  using assms new_manager_policy [of w] by (simp add: limits_ok_def in_step_def runner_follows_def wire_runner_def)

lemma blank_engine_ok: "0 < ne_numCPU env \<Longrightarrow> limits_ok (blank_engine env regs)"
  by (simp add: blank_engine_def limits_ok_def policy_valid_def keyword_set_def)

lemma NewEngine_made:
  assumes made: "NewEngine env hasLog opts regs = Returns (None, w)"
    and api: "\<forall>opt \<in> set opts. api_option env opt" and cpu: "0 < ne_numCPU env"
  shows "limits_ok w \<and> in_step w \<and> all_services w"
proof -
  from made obtain w0 where a: "apply_options opts (blank_engine env regs) = Returns (None, w0)"
    and m: "initMetrics env (wire_runner (new_manager (default_keywords (fill_defaults env w0)))) = Returns w"
    by (auto simp: NewEngine_def refuse_def accept_def split: if_splits outcome.splits prod.splits option.splits)
  have "limits_ok w0" using apply_options_keeps [OF a api cpu] blank_engine_ok [OF cpu] by simp
  then have f: "limits_ok (fill_defaults env w0)" by (simp add: fill_defaults_def limits_ok_def)
  let ?w = "wire_runner (new_manager (default_keywords (fill_defaults env w0)))"
  have "limits_ok ?w \<and> in_step ?w" using wire_runner_ok default_keywords_id [OF f] by blast
  moreover have "all_services ?w" using default_keywords_id [OF f]
    by (simp add: all_services_def wire_runner_def) (simp add: fill_defaults_def default_to_def)
  moreover have "all_services w = all_services ?w" by (subst initMetrics_regs [OF m]) (simp add: all_services_def)
  ultimately show ?thesis using initMetrics_keeps [OF m] by simp
qed

text \<open>Changing the channel policy of an engine gives the engine another channel manager than its
  task runner has.\<close>

lemma policy_change_splits:
  assumes "all_services w" and "SetDefaultChannelPolicy b st w = Returns (None, w')"
    and "\<forall>i. eg_channelManager w = Some i \<longrightarrow> i < length (w_managers w)"
  shows "\<exists>r. eg_taskRunner w' = Some r \<and> eg_channelManager w' \<noteq> Some (tn_channelManager r)"
proof -
  obtain r where r: "eg_taskRunner w = Some r" "eg_channelManager w = Some (tn_channelManager r)"
    using assms(1) by (auto simp: all_services_def)
  with assms(3) have "tn_channelManager r < length (w_managers w)" by simp
  with r assms(2) show ?thesis by (auto simp: SetDefaultChannelPolicy_def refuse_def accept_def Let_def split: if_splits)
qed

subsection \<open>Registering the metrics twice\<close>

text \<open>What the code relies on of a Prometheus registry: a collector that was registered stays so, and
  registering another under its name fails.\<close>

definition keeps_collectors :: "('reg \<Rightarrow> string \<Rightarrow> bool) \<Rightarrow> (string \<Rightarrow> 'reg \<Rightarrow> goerr option \<times> 'reg) \<Rightarrow> bool" where
  "keeps_collectors has register \<longleftrightarrow>
     (\<forall>name reg. fst (register name reg) = None \<longrightarrow> has (snd (register name reg)) name) \<and>
     (\<forall>name reg other. has reg other \<longrightarrow> has (snd (register name reg)) other) \<and>
     (\<forall>name reg. has reg name \<longrightarrow> fst (register name reg) \<noteq> None)"

lemma must_register_has:
  assumes law: "keeps_collectors has (ne_register env)"
  shows "must_register env n names w = Returns w' \<Longrightarrow> x \<in> set names \<or> has (w_regs w n) x \<Longrightarrow> has (w_regs w' n) x"
proof (induction names arbitrary: w)
  case (Cons name names)
  then obtain reg where reg: "ne_register env name (w_regs w n) = (None, reg)"
    and rest: "must_register env n names (w\<lparr>w_regs := (w_regs w)(n := reg)\<rparr>) = Returns w'"
    by (auto split: prod.splits option.splits)
  have "has reg name" "has (w_regs w n) y \<Longrightarrow> has reg y" for y
    using law reg unfolding keeps_collectors_def by (metis fst_conv snd_conv)+
  with Cons.IH [OF rest] Cons.prems(2) show ?case by auto
qed simp

lemma must_register_twice:
  assumes "keeps_collectors has (ne_register env)" and "has (w_regs w n) (hd names)" and "names \<noteq> []"
  shows "must_register env n names w = Panics"
proof (cases names)
  case (Cons name rest)
  then have "fst (ne_register env name (w_regs w n)) \<noteq> None" using assms(1,2) by (simp add: keeps_collectors_def)
  with Cons show ?thesis by (cases "ne_register env name (w_regs w n)") auto
qed (use assms in simp)

definition metrics_registered :: "('reg \<Rightarrow> string \<Rightarrow> bool) \<Rightarrow> 'reg construct_env \<Rightarrow> service \<Rightarrow> 'reg world \<Rightarrow> bool" where
  "metrics_registered has env p w \<longleftrightarrow> eg_metricsProvider w = Some p \<and>
     (\<exists>n. ne_registryOf env p = Some n \<and> has (w_regs w n) (hd must_metrics))"

lemma initMetrics_registers:
  assumes law: "keeps_collectors has (ne_register env)" and p: "eg_metricsProvider w = Some p" "ne_registryOf env p = Some n"
    and m: "initMetrics env w = Returns w'"
  shows "metrics_registered has env p w'"
proof -
  from m p obtain w1 where w1: "must_register env n must_metrics w = Returns w1"
    and w': "w' = try_register env n ''gxo_secrets_redacted_total'' (if eg_secretsProvider w1 \<noteq> None
        then try_register env n ''gxo_secrets_accessed_total'' w1 else w1)"
    by (auto simp: initMetrics_def Let_def split: outcome.splits)
  have "has (w_regs w1 n) (hd must_metrics)" by (rule must_register_has [OF law w1]) (simp add: must_metrics_def)
  moreover have "has (w_regs v n) x \<Longrightarrow> has (w_regs (try_register env n nm v) n) x" for v nm x
    using law by (simp add: try_register_def keeps_collectors_def)
  ultimately have "has (w_regs w' n) (hd must_metrics)" unfolding w' by auto
  moreover have "eg_metricsProvider w' = Some p" using initMetrics_keeps(3) [OF m] p by simp
  ultimately show ?thesis using p by (auto simp: metrics_registered_def)
qed

lemma initMetrics_twice:
  assumes "keeps_collectors has (ne_register env)" and "metrics_registered has env p w"
  shows "initMetrics env w = Panics"
  using assms must_register_twice [OF assms(1), of w _ must_metrics]
  by (auto simp: initMetrics_def metrics_registered_def must_metrics_def)

lemma plain_options_registered:
  "apply_options opts w = Returns (None, w') \<Longrightarrow> \<forall>opt \<in> set opts. plain_option env opt \<Longrightarrow> 0 < ne_numCPU env \<Longrightarrow>
     metrics_registered has env p w \<Longrightarrow> metrics_registered has env p w'"
proof (induction opts arbitrary: w)
  case Nil
  then show ?case by (simp add: accept_def)
next
  case (Cons opt opts)
  then obtain w1 where o: "opt w = Returns (None, w1)" and r: "apply_options opts w1 = Returns (None, w')"
    by (auto split: outcome.splits option.splits prod.splits)
  have "keeps_engine w w1" using plain_option_keeps [of env opt w None w1] o Cons.prems by simp
  then have "metrics_registered has env p w1" using Cons.prems(4) by (simp add: metrics_registered_def keeps_engine_def)
  with Cons.IH [OF r] Cons.prems show ?case by simp
qed

lemma apply_options_append:
  "apply_options (xs @ ys) w = (case apply_options xs w of Returns (None, w') \<Rightarrow> apply_options ys w'
     | Returns (Some e, w') \<Rightarrow> Returns (Some e, w') | Blocks \<Rightarrow> Blocks | Panics \<Rightarrow> Panics)"
  by (induction xs arbitrary: w) (auto simp: accept_def split: outcome.splits option.splits)

lemma metrics_option_no_engine:
  assumes law: "keeps_collectors has (ne_register env)" and reg: "ne_registryOf env p = Some n"
    and post: "\<forall>opt \<in> set post. plain_option env opt" and cpu: "0 < ne_numCPU env"
  shows "NewEngine env hasLog (pre @ WithMetricsRegistryProvider env (Some p) # post) regs \<noteq> Returns (None, w)"
proof
  let ?opts = "pre @ WithMetricsRegistryProvider env (Some p) # post"
  assume made: "NewEngine env hasLog ?opts regs = Returns (None, w)"
  then obtain w0 where a: "apply_options ?opts (blank_engine env regs) = Returns (None, w0)"
    and m: "initMetrics env (wire_runner (new_manager (default_keywords (fill_defaults env w0)))) = Returns w"
    by (auto simp: NewEngine_def refuse_def accept_def split: if_splits outcome.splits prod.splits option.splits)
  from a obtain v v1 where o: "WithMetricsRegistryProvider env (Some p) v = Returns (None, v1)"
    and rest: "apply_options post v1 = Returns (None, w0)"
    by (auto simp: apply_options_append split: outcome.splits option.splits prod.splits)
  from o have "initMetrics env (v\<lparr>eg_metricsProvider := Some p\<rparr>) = Returns v1"
    by (auto simp: WithMetricsRegistryProvider_def SetMetricsRegistryProvider_def accept_def split: outcome.splits)
  from initMetrics_registers [OF law _ reg this] have "metrics_registered has env p v1" by simp
  then have "metrics_registered has env p w0" using plain_options_registered [OF rest post cpu] by simp
  then have "metrics_registered has env p (wire_runner (new_manager (default_keywords (fill_defaults env w0))))"
    by (simp add: metrics_registered_def wire_runner_def)
      (simp add: default_keywords_def SetRedactedKeywords_accepts upd_runner_def fill_defaults_def default_to_def)
  from initMetrics_twice [OF law this] m show False by simp
qed

end
