(* ===== verification/Gxo_Logger.thy ===== *)
theory Gxo_Logger
  imports Gxo_Values
begin

text \<open>
  The logger (\<open>internal/logger/logger.go\<close>): levels and their names, the arguments of the
  formatted methods, the attributes \<open>Errorf\<close> adds for an error, and the handler that adds trace
  ids. Of \<open>log/slog\<close> it uses levels as integers, their texts, and how a list of arguments becomes
  attributes. A line is what reaches the text or JSON handler: level, message and attributes.
\<close>

subsection \<open>Levels\<close>

type_synonym slog_level = int

definition LevelDebug :: slog_level where "LevelDebug = - 4"
definition LevelInfo :: slog_level where "LevelInfo = 0"
definition LevelWarn :: slog_level where "LevelWarn = 4"
definition LevelError :: slog_level where "LevelError = 8"

lemmas level_defs = LevelDebug_def LevelInfo_def LevelWarn_def LevelError_def

definition upper_char :: "char \<Rightarrow> char" where
  "upper_char c = (if is_lower c then char_of (ord_char c - 32) else c)"

definition to_upper :: "string \<Rightarrow> string" where
  "to_upper s = map upper_char s"

definition defaultLevel :: slog_level where "defaultLevel = LevelInfo"

definition parseLogLevel :: "string \<Rightarrow> slog_level" where
  "parseLogLevel levelStr =
     (let s = to_upper levelStr in
      if s = ''DEBUG'' then LevelDebug
      else if s = ''INFO'' then LevelInfo
      else if s = ''WARN'' then LevelWarn
      else if s = ''ERROR'' then LevelError
      else defaultLevel)"

definition levelStringMap :: "(slog_level \<times> string) list" where
  "levelStringMap = [(LevelDebug, ''DEBUG''), (LevelInfo, ''INFO''), (LevelWarn, ''WARN''), (LevelError, ''ERROR'')]"

text \<open>\<open>slog.Level.String\<close>: the name of the level below with the distance to it.\<close>

definition level_text :: "slog_level \<Rightarrow> string" where
  "level_text l =
     (let named = (\<lambda>base val. if val = 0 then base else base @ (if val < 0 then [] else ''+'') @ show_int val) in
      if l < LevelInfo then named ''DEBUG'' (l - LevelDebug)
      else if l < LevelWarn then named ''INFO'' (l - LevelInfo)
      else if l < LevelError then named ''WARN'' (l - LevelWarn)
      else named ''ERROR'' (l - LevelError))"

subsection \<open>Attributes\<close>

text \<open>An argument of a logging call is an error, an attribute, a string or any other value; a value of
  an attribute is text or a nested argument.\<close>

datatype log_arg = ArgErr goerr | ArgAttr string log_arg | ArgStr string | ArgAny goval | ArgLevel slog_level

type_synonym attrs = "(string \<times> log_arg) list"

definition badKey :: string where "badKey = ''!BADKEY''"

text \<open>\<open>slog\<close>'s reading of an argument list.\<close>

fun args_to_attrs :: "log_arg list \<Rightarrow> attrs" where
  "args_to_attrs [] = []"
| "args_to_attrs [ArgStr s] = [(badKey, ArgStr s)]"
| "args_to_attrs (ArgStr s # a # rest) = (s, a) # args_to_attrs rest"
| "args_to_attrs (ArgAttr k v # rest) = (k, v) # args_to_attrs rest"
| "args_to_attrs (a # rest) = (badKey, a) # args_to_attrs rest"

definition replaceLevelAttribute :: "string \<times> log_arg \<Rightarrow> string \<times> log_arg" where
  "replaceLevelAttribute a =
     (if fst a = ''level'' then
        (case snd a of
           ArgLevel level \<Rightarrow>
             (fst a, ArgStr (case map_of levelStringMap level of Some s \<Rightarrow> s | None \<Rightarrow> level_text level))
         | _ \<Rightarrow> a)
      else a)"

subsection \<open>The logger\<close>

text \<open>A logger: its minimal level, whether it writes JSON, and the attributes added by \<open>With\<close>.\<close>

record defaultLogger =
  lg_level :: slog_level
  lg_json :: bool
  lg_attrs :: attrs

record log_line =
  ln_level :: slog_level
  ln_msg :: string
  ln_attrs :: attrs

definition NewLogger :: "string \<Rightarrow> string \<Rightarrow> defaultLogger" where
  "NewLogger levelStr formatStr =
     \<lparr>lg_level = parseLogLevel levelStr, lg_json = (to_lower formatStr = ''json''), lg_attrs = []\<rparr>"

definition NewDefaultLogger :: "string \<Rightarrow> defaultLogger" where
  "NewDefaultLogger levelStr = NewLogger levelStr ''text''"

definition IsEnabled :: "defaultLogger \<Rightarrow> slog_level \<Rightarrow> bool" where
  "IsEnabled l level \<longleftrightarrow> lg_level l \<le> level"

definition With :: "log_arg list \<Rightarrow> defaultLogger \<Rightarrow> defaultLogger" where
  "With args l = (if args = [] then l else l\<lparr>lg_attrs := lg_attrs l @ args_to_attrs args\<rparr>)"

text \<open>The trace and span ids of the context, when its span is valid.\<close>

definition otel_Handle :: "(string \<times> string) option \<Rightarrow> log_line \<Rightarrow> log_line" where
  "otel_Handle spanCtx line =
     (case spanCtx of
        None \<Rightarrow> line
      | Some (traceID, spanID) \<Rightarrow>
          line\<lparr>ln_attrs := ln_attrs line @ [(''trace_id'', ArgStr traceID), (''span_id'', ArgStr spanID)]\<rparr>)"

definition LogCtx :: "(string \<times> string) option \<Rightarrow> slog_level \<Rightarrow> string \<Rightarrow> log_arg list \<Rightarrow> defaultLogger \<Rightarrow> log_line option" where
  "LogCtx spanCtx level msg args l =
     (if IsEnabled l level
      then Some (otel_Handle spanCtx \<lparr>ln_level = level, ln_msg = msg, ln_attrs = lg_attrs l @ args_to_attrs args\<rparr>)
      else None)"

definition Log :: "slog_level \<Rightarrow> string \<Rightarrow> log_arg list \<Rightarrow> defaultLogger \<Rightarrow> log_line option" where
  "Log level msg args l = LogCtx None level msg args l"

text \<open>The formatted methods; \<open>msg\<close> is what \<open>Sprintf\<close> makes of the format and the arguments.\<close>

definition Debugf :: "string \<Rightarrow> defaultLogger \<Rightarrow> log_line option" where
  "Debugf msg l = (if IsEnabled l LevelDebug then Log LevelDebug msg [] l else None)"

definition Infof :: "string \<Rightarrow> defaultLogger \<Rightarrow> log_line option" where
  "Infof msg l = (if IsEnabled l LevelInfo then Log LevelInfo msg [] l else None)"

definition Warnf :: "string \<Rightarrow> defaultLogger \<Rightarrow> log_line option" where
  "Warnf msg l = (if IsEnabled l LevelWarn then Log LevelWarn msg [] l else None)"

definition error_attrs :: "goerr \<Rightarrow> log_arg list" where
  "error_attrs err =
     (case errors_As is_RecordProcessingError err of
        Some (RecordProcessingError task item cause) \<Rightarrow>
          [ArgAttr ''error_type'' (ArgStr ''RecordProcessingError'')] @
          (if task \<noteq> [] then [ArgAttr ''task_name'' (ArgStr task)] else []) @
          (case item of None \<Rightarrow> [] | Some i \<Rightarrow> [ArgAttr ''item_id'' (ArgStr i)]) @
          [ArgAttr ''error'' (ArgStr (case cause of Some c \<Rightarrow> Error c | None \<Rightarrow> Error (RecordProcessingError task item cause)))]
      | _ \<Rightarrow> [ArgAttr ''error'' (ArgStr (Error err))])"

definition logHelper :: "slog_level \<Rightarrow> string \<Rightarrow> log_arg list \<Rightarrow> defaultLogger \<Rightarrow> log_line option" where
  "logHelper level msg args l =
     (let finalArgs =
        (if args = [] then []
         else case last args of ArgErr err \<Rightarrow> butlast args @ error_attrs err | _ \<Rightarrow> args)
      in Log level msg finalArgs l)"

definition Errorf :: "string \<Rightarrow> log_arg list \<Rightarrow> defaultLogger \<Rightarrow> log_line option" where
  "Errorf msg args l = (if IsEnabled l LevelError then logHelper LevelError msg args l else None)"

subsection \<open>What a logger writes\<close>

lemma Log_enabled: "Log level msg args l \<noteq> None \<longleftrightarrow> IsEnabled l level"
  by (simp add: Log_def LogCtx_def)

lemma parse_levels:
  "parseLogLevel s \<in> {LevelDebug, LevelInfo, LevelWarn, LevelError}"
  by (simp add: parseLogLevel_def Let_def defaultLevel_def)

text \<open>A logger writes the errors at every level it can be made with.\<close>

lemma errors_always_written: "Errorf msg args (NewLogger lvl fmt) \<noteq> None"
proof -
  have "IsEnabled (NewLogger lvl fmt) LevelError"
    using parse_levels [of lvl] by (auto simp: IsEnabled_def NewLogger_def level_defs)
  then show ?thesis by (simp only: Errorf_def logHelper_def Let_def Log_enabled if_True not_False_eq_True)
qed

text \<open>The level attribute of a line is written by its upper-case name, which the level parser reads
  back.\<close>

lemma level_name_roundtrip:
  assumes "l \<in> {LevelDebug, LevelInfo, LevelWarn, LevelError}"
  shows "\<exists>s. replaceLevelAttribute (''level'', ArgLevel l) = (''level'', ArgStr s) \<and> parseLogLevel s = l"
proof -
  have u: "to_upper ''DEBUG'' = ''DEBUG''" "to_upper ''INFO'' = ''INFO''" "to_upper ''WARN'' = ''WARN''" "to_upper ''ERROR'' = ''ERROR''"
    by (code_simp, code_simp, code_simp, code_simp)
  show ?thesis using assms
    by (auto simp: replaceLevelAttribute_def levelStringMap_def parseLogLevel_def Let_def u level_defs)
qed

text \<open>An error logged alone is attached under the key \<open>error\<close>; after an odd run of strings it is
  taken for the value of the last of them, and the line has no attribute of that key.\<close>

lemma error_alone: "\<not> is_RecordProcessingError err \<Longrightarrow> errors_As is_RecordProcessingError err = None \<Longrightarrow>
    lg_attrs l = [] \<Longrightarrow> IsEnabled l LevelError \<Longrightarrow>
    Errorf msg [ArgErr err] l = Some \<lparr>ln_level = LevelError, ln_msg = msg, ln_attrs = [(''error'', ArgStr (Error err))]\<rparr>"
  by (simp add: Errorf_def logHelper_def Log_def LogCtx_def otel_Handle_def error_attrs_def)

lemma error_swallowed:
  assumes "errors_As is_RecordProcessingError err = None" and "IsEnabled l LevelError" and "lg_attrs l = []"
  shows "Errorf msg [ArgStr s, ArgErr err] l =
    Some \<lparr>ln_level = LevelError, ln_msg = msg, ln_attrs = [(s, ArgAttr ''error'' (ArgStr (Error err)))]\<rparr>"
  using assms by (simp add: Errorf_def logHelper_def Log_def LogCtx_def otel_Handle_def error_attrs_def)

end
