(* ===== verification/Gxo_Events.thy ===== *)
theory Gxo_Events
  imports Gxo_Task "HOL-Library.Sublist"
begin

text \<open>
  The event bus and its listener (\<open>pkg/gxo/v1/events/bus.go\<close>, \<open>internal/events/channel_bus.go\<close>,
  \<open>noop_bus.go\<close>, \<open>metrics_listener.go\<close>) and the module registry (\<open>internal/module/registry.go\<close>).
  Emitting never blocks: an event that finds the buffer full is dropped with a warning. The
  listener counts the secrets that were accessed.
\<close>

subsection \<open>Events\<close>

datatype EventType = PlaybookStart | PlaybookEnd | TaskStatusChanged | TaskStart | TaskEnd | ModuleExecutionStart
  | ModuleExecutionEnd | RecordErrorOccurred | FatalErrorOccurred | SecretAccessed

record Event =
  evt_Type :: EventType
  evt_Timestamp :: int
  evt_PlaybookName :: string
  evt_TaskName :: string
  evt_TaskID :: string
  evt_Payload :: params

subsection \<open>The bus\<close>

record ChannelEventBus =
  cb_buffer :: "Event list"
  cb_capacity :: nat
  cb_closed :: bool
  cb_dropped :: "Event list"  \<comment> \<open>the events of the warnings logged\<close>

definition NewChannelEventBus :: "int \<Rightarrow> bool \<Rightarrow> ChannelEventBus outcome" where
  "NewChannelEventBus bufferSize hasLog =
     (let capacity = (if bufferSize \<le> 0 then 100 else bufferSize) in
      if \<not> hasLog then Panics
      else Returns \<lparr>cb_buffer = [], cb_capacity = nat capacity, cb_closed = False, cb_dropped = []\<rparr>)"

definition Emit :: "Event \<Rightarrow> ChannelEventBus \<Rightarrow> ChannelEventBus outcome" where
  "Emit event c =
     (if cb_closed c then Panics
      else if length (cb_buffer c) < cb_capacity c then Returns (c\<lparr>cb_buffer := cb_buffer c @ [event]\<rparr>)
      else Returns (c\<lparr>cb_dropped := cb_dropped c @ [event]\<rparr>))"

definition CloseBus :: "ChannelEventBus \<Rightarrow> ChannelEventBus outcome" where
  "CloseBus c = (if cb_closed c then Panics else Returns (c\<lparr>cb_closed := True\<rparr>))"

definition NoOpEmit :: "Event \<Rightarrow> unit \<Rightarrow> unit outcome" where
  "NoOpEmit event bus = Returns bus"

subsection \<open>The listener\<close>

text \<open>A nil counter is \<open>None\<close>; the constructor panics on it.\<close>

record MetricsEventListener =
  ml_counter :: "nat option"
  ml_stopped :: bool

definition NewMetricsEventListener :: "bool \<Rightarrow> nat option \<Rightarrow> bool \<Rightarrow> MetricsEventListener outcome" where
  "NewMetricsEventListener hasBus counter hasLog =
     (if \<not> hasBus \<or> counter = None \<or> \<not> hasLog then Panics
      else Returns \<lparr>ml_counter = counter, ml_stopped = False\<rparr>)"

definition handleEvent :: "Event \<Rightarrow> MetricsEventListener \<Rightarrow> MetricsEventListener" where
  "handleEvent event l =
     (if evt_Type event = SecretAccessed then l\<lparr>ml_counter := map_option Suc (ml_counter l)\<rparr> else l)"

text \<open>One turn of the loop of \<open>Start\<close>, with the event taken from the channel: it needs an event, a
  closed channel, or an ended context.\<close>

definition listen :: "bool \<Rightarrow> ChannelEventBus \<Rightarrow> MetricsEventListener \<Rightarrow> (ChannelEventBus \<times> MetricsEventListener) option" where
  "listen ctxDone c l =
     (if ml_stopped l then None
      else if ctxDone then Some (c, l\<lparr>ml_stopped := True\<rparr>)
      else case cb_buffer c of
        event # rest \<Rightarrow> Some (c\<lparr>cb_buffer := rest\<rparr>, handleEvent event l)
      | [] \<Rightarrow> if cb_closed c then Some (c, l\<lparr>ml_stopped := True\<rparr>) else None)"

subsection \<open>Delivery\<close>

text \<open>A history of the bus: what was emitted, and what the listener was given.\<close>

datatype bus_label = BEmit Event | BListen | BClose

record bus_run =
  br_bus :: ChannelEventBus
  br_listener :: MetricsEventListener
  br_emitted :: "Event list"
  br_delivered :: "Event list"

fun bus_fire :: "bus_label \<Rightarrow> bus_run \<Rightarrow> bus_run option" where
  "bus_fire (BEmit event) r =
     (case Emit event (br_bus r) of
        Returns c \<Rightarrow> Some (r\<lparr>br_bus := c, br_emitted := br_emitted r @ [event]\<rparr>) | _ \<Rightarrow> None)"
| "bus_fire BListen r =
     (case listen False (br_bus r) (br_listener r) of
        None \<Rightarrow> None
      | Some (c, l) \<Rightarrow> Some (r\<lparr>br_bus := c, br_listener := l,
          br_delivered := br_delivered r @ take (length (cb_buffer (br_bus r)) - length (cb_buffer c)) (cb_buffer (br_bus r))\<rparr>))"
| "bus_fire BClose r =
     (case CloseBus (br_bus r) of Returns c \<Rightarrow> Some (r\<lparr>br_bus := c\<rparr>) | _ \<Rightarrow> None)"

fun bus_fires :: "bus_label list \<Rightarrow> bus_run \<Rightarrow> bus_run option" where
  "bus_fires [] r = Some r"
| "bus_fires (l # ls) r = (case bus_fire l r of None \<Rightarrow> None | Some r' \<Rightarrow> bus_fires ls r')"

definition accesses :: "Event list \<Rightarrow> nat" where
  "accesses es = length (filter (\<lambda>e. evt_Type e = SecretAccessed) es)"

lemma accesses_simps [simp]:
  "accesses [] = 0"
  "accesses (e # es) = (if evt_Type e = SecretAccessed then 1 else 0) + accesses es"
  "accesses (xs @ ys) = accesses xs + accesses ys"
  by (simp_all add: accesses_def)

definition bus_inv :: "nat \<Rightarrow> nat \<Rightarrow> bus_run \<Rightarrow> bool" where
  "bus_inv cap n r \<longleftrightarrow> cb_capacity (br_bus r) = cap \<and> length (cb_buffer (br_bus r)) \<le> cap \<and>
     subseq (br_delivered r @ cb_buffer (br_bus r)) (br_emitted r) \<and>
     mset (br_delivered r) + mset (cb_buffer (br_bus r)) + mset (cb_dropped (br_bus r)) = mset (br_emitted r) \<and>
     ml_counter (br_listener r) = Some (n + accesses (br_delivered r))"

lemma bus_inv_step:
  assumes "bus_fire l r = Some r'" and inv: "bus_inv cap n r"
  shows "bus_inv cap n r'"
proof (cases l)
  case (BEmit event)
  have a: "subseq xs ys \<Longrightarrow> subseq (xs @ [e]) (ys @ [e])" for xs ys and e :: Event
    by (rule list_emb_append_mono) simp_all
  have b: "subseq xs ys \<Longrightarrow> subseq xs (ys @ [e])" for xs ys and e :: Event
    by (rule subseq_order.trans [of _ ys]) (simp_all add: prefix_imp_subseq)
  from BEmit assms a [of "br_delivered r @ cb_buffer (br_bus r)"] b show ?thesis
    by (auto simp: Emit_def bus_inv_def split: if_splits)
next
  case BListen
  show ?thesis
  proof (cases "cb_buffer (br_bus r)")
    case Nil
    with BListen assms show ?thesis by (auto simp: listen_def bus_inv_def split: if_splits)
  next
    case (Cons event rest)
    with BListen assms show ?thesis
      by (auto simp: listen_def bus_inv_def handleEvent_def split: if_splits)
  qed
next
  case BClose
  with assms show ?thesis by (auto simp: CloseBus_def bus_inv_def split: if_splits)
qed

lemma bus_inv_fires: "bus_fires ls r = Some r' \<Longrightarrow> bus_inv cap n r \<Longrightarrow> bus_inv cap n r'"
  by (induction ls arbitrary: r) (auto split: option.splits intro: bus_inv_step)

definition bus_start :: "ChannelEventBus \<Rightarrow> MetricsEventListener \<Rightarrow> bus_run" where
  "bus_start c l = \<lparr>br_bus = c, br_listener = l, br_emitted = [], br_delivered = []\<rparr>"

text \<open>What the listener has been given is a subsequence of what was emitted, in order; with nothing
  dropped and nothing left in the buffer the counter is exact, otherwise it is too low.\<close>

lemma bus_delivers:
  assumes "NewChannelEventBus size0 True = Returns c" and "NewMetricsEventListener True (Some n) True = Returns l"
    and run: "bus_fires ls (bus_start c l) = Some r"
  shows "subseq (br_delivered r) (br_emitted r) \<and> length (cb_buffer (br_bus r)) \<le> cb_capacity c \<and>
    (\<exists>k. ml_counter (br_listener r) = Some (n + k) \<and>
      k + accesses (cb_buffer (br_bus r)) + accesses (cb_dropped (br_bus r)) = accesses (br_emitted r))"
proof -
  have "bus_inv (cb_capacity c) n (bus_start c l)"
    using assms(1,2) by (auto simp: NewChannelEventBus_def NewMetricsEventListener_def bus_inv_def bus_start_def Let_def split: if_splits)
  from bus_inv_fires [OF run this] have inv: "bus_inv (cb_capacity c) n r" .
  have acc: "accesses es = size (filter_mset (\<lambda>e. evt_Type e = SecretAccessed) (mset es))" for es
    unfolding accesses_def mset_filter [symmetric] by (rule size_mset [symmetric])
  have "accesses (br_delivered r) + accesses (cb_buffer (br_bus r)) + accesses (cb_dropped (br_bus r)) = accesses (br_emitted r)"
    using inv unfolding bus_inv_def acc by (metis filter_union_mset size_union)
  moreover have "subseq (br_delivered r) (br_emitted r)"
    using inv subseq_order.trans [OF prefix_imp_subseq] unfolding bus_inv_def by (metis prefixI)
  ultimately show ?thesis using inv by (auto simp: bus_inv_def)
qed

text \<open>An event that the listener counts.\<close>

definition ex_access :: Event where
  "ex_access = \<lparr>evt_Type = SecretAccessed, evt_Timestamp = 0, evt_PlaybookName = [], evt_TaskName = [], evt_TaskID = [], evt_Payload = []\<rparr>"

subsection \<open>The contract of a bus\<close>

text \<open>What the engine relies on: emitting on an open bus returns and leaves it open, so a run can emit
  any number of events in any order without waiting. \<open>emit_all\<close> is such a run.\<close>

fun emit_all :: "(Event \<Rightarrow> 'b \<Rightarrow> 'b outcome) \<Rightarrow> Event list \<Rightarrow> 'b \<Rightarrow> 'b outcome" where
  "emit_all emit [] b = Returns b"
| "emit_all emit (e # es) b = (case emit e b of Returns b' \<Rightarrow> emit_all emit es b' | Blocks \<Rightarrow> Blocks | Panics \<Rightarrow> Panics)"

locale event_bus =
  fixes emit :: "Event \<Rightarrow> 'b \<Rightarrow> 'b outcome" and is_open :: "'b \<Rightarrow> bool"
  assumes emit_open: "is_open b \<Longrightarrow> \<exists>b'. emit e b = Returns b' \<and> is_open b'"
begin

lemma emit_all_returns: "is_open b \<Longrightarrow> \<exists>b'. emit_all emit es b = Returns b' \<and> is_open b'"
proof (induction es arbitrary: b)
  case (Cons e es)
  then obtain b' where "emit e b = Returns b'" "is_open b'" using emit_open by blast
  with Cons.IH [of b'] show ?case by simp
qed simp

end

interpretation channel_bus: event_bus Emit "\<lambda>c. \<not> cb_closed c"
  by unfold_locales (auto simp: Emit_def)

interpretation noop_bus: event_bus NoOpEmit "\<lambda>_. True"
  by unfold_locales (simp add: NoOpEmit_def)

text \<open>Emitting on a bus that was closed panics.\<close>

lemma emit_after_close: "CloseBus c = Returns c' \<Longrightarrow> Emit event c' = Panics"
  by (auto simp: CloseBus_def Emit_def split: if_splits)

subsection \<open>The module registry\<close>

type_synonym 'f StaticRegistry = "'f gomap"

definition NewStaticRegistry :: "'f StaticRegistry" where
  "NewStaticRegistry = []"

definition Register :: "string \<Rightarrow> 'f option \<Rightarrow> 'f StaticRegistry \<Rightarrow> goerr option \<times> 'f StaticRegistry" where
  "Register name factory r =
     (if name = [] then (Some (ConfigError ''module registration error: name cannot be empty'' None), r)
      else case factory of
        None \<Rightarrow> (Some (ConfigError (''module registration error for '' @ q name @ '': factory cannot be nil'') None), r)
      | Some f \<Rightarrow>
          if map_of r name \<noteq> None
          then (Some (ConfigError (''module registration error: duplicate module name '' @ q name) None), r)
          else (None, AList.update name f r))"

definition registry_Get :: "string \<Rightarrow> 'f StaticRegistry \<Rightarrow> goerr + 'f" where
  "registry_Get name r = (case map_of r name of None \<Rightarrow> Inl (ModuleNotFoundError name) | Some f \<Rightarrow> Inr f)"

definition registry_List :: "(string \<times> 'f) ranger \<Rightarrow> 'f StaticRegistry \<Rightarrow> string list" where
  "registry_List rng r = map fst (rng 0 r)"

text \<open>The package-level \<open>Register\<close> of modules' \<open>init\<close> functions.\<close>

definition global_Register :: "string \<Rightarrow> 'f option \<Rightarrow> 'f StaticRegistry \<Rightarrow> 'f StaticRegistry outcome" where
  "global_Register name factory r =
     (case Register name factory r of (None, r') \<Rightarrow> Returns r' | (Some err, r') \<Rightarrow> Panics)"

lemma Register_accepts: "fst (Register name factory r) = None \<longleftrightarrow> name \<noteq> [] \<and> factory \<noteq> None \<and> map_of r name = None"
  by (auto simp: Register_def split: option.splits)

lemma Register_Get:
  assumes "Register name (Some f) r = (None, r')"
  shows "registry_Get name r' = Inr f" and "other \<noteq> name \<Longrightarrow> registry_Get other r' = registry_Get other r"
  using assms by (auto simp: Register_def registry_Get_def split: if_splits)

lemma Register_keeps: "Register name factory r = (e, r') \<Longrightarrow> map_of r other = Some f \<Longrightarrow> map_of r' other = Some f"
  by (auto simp: Register_def split: if_splits option.splits)

lemma registry_List_names: "permutes rng \<Longrightarrow> set (registry_List rng r) = {name. \<exists>f. registry_Get name r = Inr f}"
proof -
  assume "permutes rng"
  then have "set (registry_List rng r) = fst ` set r" by (simp add: registry_List_def)
  also have "\<dots> = {name. map_of r name \<noteq> None}" using dom_map_of_conv_image_fst [of r] by (simp add: dom_def)
  also have "\<dots> = {name. \<exists>f. registry_Get name r = Inr f}" by (auto simp: registry_Get_def split: option.splits)
  finally show ?thesis .
qed

subsection \<open>The contract of a registry\<close>

text \<open>What the task runner and the modules' \<open>init\<close> functions rely on: a registration that is accepted
  is found from then on and nothing else changes, and it is accepted exactly for a new name that
  is not empty. \<open>register_all\<close> is a sequence of package-level registrations.\<close>

fun register_all ::
    "(string \<Rightarrow> 'f option \<Rightarrow> 'r \<Rightarrow> goerr option \<times> 'r) \<Rightarrow> (string \<times> 'f) list \<Rightarrow> 'r \<Rightarrow> 'r outcome" where
  "register_all add [] r = Returns r"
| "register_all add ((name, f) # fs) r =
     (case add name (Some f) r of (None, r') \<Rightarrow> register_all add fs r' | (Some err, r') \<Rightarrow> Panics)"

locale module_registry =
  fixes get :: "string \<Rightarrow> 'r \<Rightarrow> goerr + 'f" and add :: "string \<Rightarrow> 'f option \<Rightarrow> 'r \<Rightarrow> goerr option \<times> 'r"
  assumes add_get: "add name (Some f) r = (None, r') \<Longrightarrow> get name r' = Inr f"
    and add_other: "add name x r = (e, r') \<Longrightarrow> other \<noteq> name \<Longrightarrow> get other r' = get other r"
    and add_accepts: "fst (add name (Some f) r) = None \<longleftrightarrow> name \<noteq> [] \<and> (\<exists>e. get name r = Inl e)"
begin

lemma register_all_keeps:
  "register_all add fs r = Returns r' \<Longrightarrow> name \<notin> fst ` set fs \<Longrightarrow> get name r' = get name r"
proof (induction fs arbitrary: r)
  case (Cons x fs)
  obtain n f where x: "x = (n, f)" by fastforce
  with Cons.prems obtain r1 where "add n (Some f) r = (None, r1)" "register_all add fs r1 = Returns r'"
    by (auto split: prod.splits option.splits)
  with Cons.IH [of r1] Cons.prems x add_other [of n "Some f" r None r1 name] show ?case by auto
qed simp

lemma register_all_new:
  "register_all add fs r = Returns r' \<Longrightarrow> name \<in> fst ` set fs \<Longrightarrow> name \<noteq> [] \<and> (\<exists>e. get name r = Inl e)"
proof (induction fs arbitrary: r)
  case (Cons x fs)
  obtain n g where x: "x = (n, g)" by fastforce
  with Cons.prems obtain r1 where a: "add n (Some g) r = (None, r1)" and rest: "register_all add fs r1 = Returns r'"
    by (auto split: prod.splits option.splits)
  have n: "n \<noteq> [] \<and> (\<exists>e. get n r = Inl e)" using add_accepts [of n g r] a by simp
  show ?case
  proof (cases "name = n")
    case False
    with Cons.IH [OF rest] Cons.prems(2) x add_other [OF a] show ?thesis by auto
  qed (use n in simp)
qed simp

lemma register_all_found:
  "register_all add fs r = Returns r' \<Longrightarrow> (name, f) \<in> set fs \<Longrightarrow> get name r' = Inr f"
proof (induction fs arbitrary: r)
  case (Cons x fs)
  obtain n g where x: "x = (n, g)" by fastforce
  with Cons.prems obtain r1 where a: "add n (Some g) r = (None, r1)" and rest: "register_all add fs r1 = Returns r'"
    by (auto split: prod.splits option.splits)
  show ?case
  proof (cases "(name, f) \<in> set fs")
    case True
    with Cons.IH rest show ?thesis by blast
  next
    case False
    then have nf: "name = n" "f = g" using Cons.prems(2) x by auto
    have "n \<notin> fst ` set fs" using register_all_new [OF rest, of n] add_get [OF a] by auto
    with register_all_keeps [OF rest] add_get [OF a] nf show ?thesis by simp
  qed
qed simp

end

interpretation static_registry: module_registry registry_Get Register
proof unfold_locales
  show "Register name (Some f) r = (None, r') \<Longrightarrow> registry_Get name r' = Inr f" for name f r r'
    by (rule Register_Get)
  show "Register name x r = (e, r') \<Longrightarrow> other \<noteq> name \<Longrightarrow> registry_Get other r' = registry_Get other r" for name x r e r' other
    by (auto simp: Register_def registry_Get_def split: if_splits option.splits)
  show "fst (Register name (Some f) r) = None \<longleftrightarrow> name \<noteq> [] \<and> (\<exists>e. registry_Get name r = Inl e)" for name f r
    by (auto simp: Register_accepts registry_Get_def split: option.splits)
qed

end
