(* ===== verification/Gxo_Main.thy ===== *)
theory Gxo_Main
  imports Gxo_Construct Gxo_Report Gxo_Logger Gxo_Events
begin

text \<open>
  The command line (\<open>cmd/gxo/main.go\<close>): its three commands, the checks of the flags, the engine it
  builds, the exit codes, the summary it logs and the calls it defers. Reading files, the report
  and error of \<open>RunPlaybook\<close>, and the signals that arrive are arguments.
\<close>

definition ExitUsageError :: int where "ExitUsageError = 2"
definition DefaultChannelBufferSize :: int where "DefaultChannelBufferSize = 100"

datatype command = CmdValidate "string list" | CmdVersion | CmdExecute "string list"

text \<open>\<open>main\<close> on the arguments after the program's name.\<close>

definition main_command :: "string list \<Rightarrow> command" where
  "main_command args =
     (if args \<noteq> [] \<and> hd args = ''validate'' then CmdValidate (tl args)
      else if length args = 1 \<and> (hd args = ''--version'' \<or> hd args = ''-version'') then CmdVersion
      else CmdExecute args)"

subsection \<open>validate\<close>

definition validate_message :: "goerr \<Rightarrow> string" where
  "validate_message err =
     (case errors_As (\<lambda>e. case e of ValidationError m c \<Rightarrow> True | _ \<Rightarrow> False) err of
        Some v \<Rightarrow> ''Playbook validation failed:'' @ [newline] @ Error v
      | None \<Rightarrow>
         (case errors_As (\<lambda>e. case e of ConfigError m c \<Rightarrow> True | _ \<Rightarrow> False) err of
            Some c \<Rightarrow> ''Playbook configuration error:'' @ [newline] @ Error c
          | None \<Rightarrow> ''Failed to load or validate playbook: '' @ Error err))"

definition runValidateCommand ::
    "(string \<Rightarrow> goerr + string) \<Rightarrow> (string \<Rightarrow> string \<Rightarrow> goerr + Playbook) \<Rightarrow> string \<Rightarrow> int \<times> string" where
  "runValidateCommand readFile load playbookPath =
     (if playbookPath = [] then (ExitUsageError, ''Error: -playbook flag is required for validation'')
      else case readFile playbookPath of
        Inl err \<Rightarrow> (ExitFailure, ''Failed to read playbook file '' @ q playbookPath @ '': '' @ Error err)
      | Inr bytes \<Rightarrow>
         (case load bytes playbookPath of
            Inl err \<Rightarrow> (ExitFailure, validate_message err)
          | Inr pb \<Rightarrow> (ExitSuccess, ''Playbook validation successful: '' @ playbookPath)))"

subsection \<open>The flags of a run\<close>

record exec_flags =
  xf_playbook :: string
  xf_logFormat :: string
  xf_dryRun :: bool
  xf_workers :: int
  xf_buffer :: int
  xf_version :: bool

definition check_exec_flags :: "int \<Rightarrow> exec_flags \<Rightarrow> int + exec_flags" where
  "check_exec_flags numCPU f =
     (if xf_version f then Inl ExitSuccess
      else if xf_playbook f = [] then Inl ExitUsageError
      else if xf_logFormat f \<noteq> ''text'' \<and> xf_logFormat f \<noteq> ''json'' then Inl ExitUsageError
      else Inr (f\<lparr>xf_workers := (if xf_workers f \<le> 0 then numCPU else xf_workers f),
                  xf_buffer := (if xf_buffer f < 0 then DefaultChannelBufferSize else xf_buffer f)\<rparr>))"

subsection \<open>A run\<close>

text \<open>The services \<open>runExecuteCommand\<close> makes, the file system, and what \<open>RunPlaybook\<close> returns for a
  dry run or a run of the given text; the signal that arrived before it returned, and whether one
  arrives afterwards.\<close>

record 'reg cli_env =
  cl_construct :: "'reg construct_env"
  cl_stateStore :: service
  cl_eventBus :: service
  cl_secrets :: service
  cl_registry :: service
  cl_tracer :: service
  cl_metrics :: service
  cl_regs :: "nat \<Rightarrow> 'reg"
  cl_readFile :: "string \<Rightarrow> goerr + string"
  cl_run :: "'reg world \<Rightarrow> bool \<Rightarrow> string \<Rightarrow> ExecutionReport option \<times> goerr option"
  cl_signal :: "os_signal option"
  cl_late :: bool

definition cli_keywords :: "string list" where
  "cli_keywords = [''password'', ''token'', ''secret'', ''apikey'', ''privatekey'', ''authorization'', ''bearer'']"

definition engine_options :: "'reg cli_env \<Rightarrow> exec_flags \<Rightarrow> 'reg step list" where
  "engine_options env f =
     [WithStateStore (Some (cl_stateStore env)), WithEventBus (Some (cl_eventBus env)),
      WithSecretsProvider (Some (cl_secrets env)), WithPluginRegistry (Some (cl_registry env)),
      WithTracerProvider (Some (cl_tracer env)),
      WithMetricsRegistryProvider (cl_construct env) (Some (cl_metrics env)),
      WithWorkerPoolSize (cl_construct env) (xf_workers f), WithDefaultChannelPolicy (Some (xf_buffer f)) [],
      WithRedactedKeywords cli_keywords]"

text \<open>
  The deferred calls run in the reverse order of their \<open>defer\<close> statements. The goroutine that
  handles signals ends when it receives from the signal channel, which also a closed channel
  allows, or when the run's context has ended.
\<close>

datatype deferred = DeferCloseBus | DeferCancelRun | DeferStopSignals | DeferCloseSignals | DeferWaitHandler
  | DeferCancelShutdown

record cli_state =
  cs_busClosed :: bool
  cs_runCancelled :: bool
  cs_notifying :: bool
  cs_signalsClosed :: bool
  cs_signalled :: bool

definition handler_ends :: "cli_state \<Rightarrow> bool" where
  "handler_ends st \<longleftrightarrow> cs_signalled st \<or> cs_signalsClosed st \<or> cs_runCancelled st"

fun run_deferred :: "bool \<Rightarrow> deferred list \<Rightarrow> cli_state \<Rightarrow> cli_state outcome" where
  "run_deferred late [] st = Returns st"
| "run_deferred late (DeferCloseBus # ds) st = run_deferred late ds (st\<lparr>cs_busClosed := True\<rparr>)"
| "run_deferred late (DeferCancelRun # ds) st = run_deferred late ds (st\<lparr>cs_runCancelled := True\<rparr>)"
| "run_deferred late (DeferStopSignals # ds) st = run_deferred late ds (st\<lparr>cs_notifying := False\<rparr>)"
| "run_deferred late (DeferCloseSignals # ds) st = run_deferred late ds (st\<lparr>cs_signalsClosed := True\<rparr>)"
| "run_deferred late (DeferWaitHandler # ds) st =
     (if handler_ends st then run_deferred late ds st
      else if late \<and> cs_notifying st then run_deferred late ds (st\<lparr>cs_signalled := True, cs_runCancelled := True\<rparr>)
      else Blocks)"
| "run_deferred late (DeferCancelShutdown # ds) st = run_deferred late ds st"

definition run_defers :: "deferred list" where
  "run_defers = [DeferCloseBus, DeferCancelRun, DeferStopSignals, DeferCloseSignals, DeferWaitHandler, DeferCancelShutdown]"

text \<open>The state when \<open>RunPlaybook\<close> has returned.\<close>

definition after_run :: "os_signal option \<Rightarrow> cli_state" where
  "after_run sig = \<lparr>cs_busClosed = False, cs_runCancelled = (sig \<noteq> None), cs_notifying = True, cs_signalsClosed = False,
     cs_signalled = (sig \<noteq> None)\<rparr>"

definition finish_run :: "'reg cli_env \<Rightarrow> ExecutionReport option \<Rightarrow> goerr option \<Rightarrow> int outcome" where
  "finish_run env report execErr =
     (let exitCode = determineExitCode report execErr (cl_signal env) in
      case run_deferred (cl_late env) (rev run_defers) (after_run (cl_signal env)) of
        Returns st \<Rightarrow> Returns exitCode | Blocks \<Rightarrow> Blocks | Panics \<Rightarrow> Panics)"

definition runExecuteCommand :: "'reg cli_env \<Rightarrow> exec_flags \<Rightarrow> int outcome" where
  "runExecuteCommand env flags =
     (case check_exec_flags (ne_numCPU (cl_construct env)) flags of
        Inl exitCode \<Rightarrow> Returns exitCode
      | Inr f \<Rightarrow>
         (case NewEngine (cl_construct env) True (engine_options env f) (cl_regs env) of
            Returns (Some err, w) \<Rightarrow> Returns ExitFailure
          | Returns (None, w) \<Rightarrow>
             (case cl_readFile env (xf_playbook f) of
                Inl err \<Rightarrow> Returns ExitFailure
              | Inr bytes \<Rightarrow> (case cl_run env w (xf_dryRun f) bytes of (report, execErr) \<Rightarrow> finish_run env report execErr))
          | Blocks \<Rightarrow> Blocks
          | Panics \<Rightarrow> Panics))"

subsection \<open>The summary\<close>

text \<open>\<open>Duration.Truncate\<close> to milliseconds; the summary's lines with their levels.\<close>

definition truncate_ms :: "int \<Rightarrow> int" where
  "truncate_ms d = sgn d * (\<bar>d\<bar> - \<bar>d\<bar> mod 1000000)"

definition logExecutionErrorReason :: "goerr \<Rightarrow> (slog_level \<times> string) list" where
  "logExecutionErrorReason execErr =
     (if errors_Is execErr Canceled then [(LevelWarn, ''Execution Reason: Cancelled.'')]
      else if errors_Is execErr DeadlineExceeded then [(LevelError, ''Execution Reason: Timeout.'')]
      else [(LevelError, ''Execution Error: '' @ Error execErr)])"

definition logFailedTasks :: "(string \<times> TaskResult) ranger \<Rightarrow> ExecutionReport \<Rightarrow> (slog_level \<times> string) list" where
  "logFailedTasks order report =
     (if rp_FailedTasks report > 0 then
        (LevelWarn, ''Failed Task Details:'') #
        map (\<lambda>(taskID, result). (LevelError, ''  - Task '' @ q taskID @ '': '' @ tr_Error result))
          (filter (\<lambda>(taskID, result). tr_Status result = ''Failed'') (order 0 (rp_TaskResults report)))
      else [])"

definition printReportSummary ::
    "(string \<times> TaskResult) ranger \<Rightarrow> ExecutionReport option \<Rightarrow> goerr option \<Rightarrow> (slog_level \<times> string) list" where
  "printReportSummary order report execErr =
     (case report of
        None \<Rightarrow>
          (LevelWarn, ''Execution finished but no report was generated (likely due to early failure).'') #
          (case execErr of None \<Rightarrow> [] | Some err \<Rightarrow> logExecutionErrorReason err)
      | Some r \<Rightarrow>
         (let line = ''Playbook '' @ q (rp_PlaybookName r) @ '' finished. Status: '' @ rp_OverallStatus r @ ''. Duration: '' @
                DurationString (truncate_ms (rp_Duration r)) @ ''. Tasks: Total='' @ show_nat (rp_TotalTasks r) @
                '', Completed='' @ show_nat (rp_CompletedTasks r) @ '', Failed='' @ show_nat (rp_FailedTasks r) @
                '', Skipped='' @ show_nat (rp_SkippedTasks r)
          in if rp_OverallStatus r = ''Failed'' \<or> execErr \<noteq> None then
               (LevelError, line) #
               (if rp_Error r \<noteq> [] then [(LevelError, ''Overall Error: '' @ rp_Error r)]
                else case execErr of None \<Rightarrow> [] | Some err \<Rightarrow> logExecutionErrorReason err) @
               logFailedTasks order r
             else [(LevelInfo, line)]))"

subsection \<open>validate accepts what the loader accepts\<close>

lemma validate_exit:
  assumes "playbookPath \<noteq> []"
  shows "fst (runValidateCommand readFile load playbookPath) = ExitSuccess \<longleftrightarrow>
    (\<exists>bytes pb. readFile playbookPath = Inr bytes \<and> load bytes playbookPath = Inr pb)"
  using assms by (auto simp: runValidateCommand_def ExitSuccess_def ExitFailure_def split: sum.splits)

subsection \<open>A run never gets past its engine\<close>

lemma must_register_no_block: "must_register env n names w \<noteq> Blocks"
  by (induction names arbitrary: w) (auto split: prod.splits option.splits)

lemma initMetrics_no_block: "initMetrics env w \<noteq> Blocks"
  using must_register_no_block by (auto simp: initMetrics_def Let_def split: option.splits outcome.splits)

text \<open>The options of a run are accepted, or registering the metrics panics.\<close>

lemma accepted_options:
  assumes "0 < ne_numCPU cenv" and "0 \<le> b"
  shows "\<exists>w'. WithStateStore (Some s) w = Returns (None, w')" "\<exists>w'. WithEventBus (Some s) w = Returns (None, w')"
    "\<exists>w'. WithSecretsProvider (Some s) w = Returns (None, w')" "\<exists>w'. WithPluginRegistry (Some s) w = Returns (None, w')"
    "\<exists>w'. WithTracerProvider (Some s) w = Returns (None, w')" "\<exists>w'. WithWorkerPoolSize cenv i w = Returns (None, w')"
    "\<exists>w'. WithDefaultChannelPolicy (Some b) [] w = Returns (None, w')" "\<exists>w'. WithRedactedKeywords ks w = Returns (None, w')"
    "WithMetricsRegistryProvider cenv (Some s) w = Panics \<or> (\<exists>w'. WithMetricsRegistryProvider cenv (Some s) w = Returns (None, w'))"
  using assms initMetrics_no_block
  by (auto simp: WithStateStore_def SetStateStore_def WithEventBus_def SetEventBus_def WithSecretsProvider_def
      SetSecretsProvider_def WithPluginRegistry_def SetPluginRegistry_def WithTracerProvider_def SetTracerProvider_def
      WithWorkerPoolSize_def SetWorkerPoolSize_def WithDefaultChannelPolicy_def SetDefaultChannelPolicy_def
      WithRedactedKeywords_def SetRedactedKeywords_def WithMetricsRegistryProvider_def SetMetricsRegistryProvider_def
      accept_def Let_def split: outcome.splits)

definition option_fine :: "'reg step \<Rightarrow> bool" where
  "option_fine opt \<longleftrightarrow> (\<forall>w. opt w = Panics \<or> (\<exists>w'. opt w = Returns (None, w')))"

lemma apply_fine: "\<forall>opt \<in> set opts. option_fine opt \<Longrightarrow> apply_options opts w = Panics \<or> (\<exists>w'. apply_options opts w = Returns (None, w'))"
proof (induction opts arbitrary: w)
  case (Cons opt opts)
  then consider "opt w = Panics" | w1 where "opt w = Returns (None, w1)" unfolding option_fine_def by (meson list.set_intros(1))
  then show ?case using Cons by cases auto
qed (simp add: accept_def)

lemma engine_options_fine:
  assumes "0 < ne_numCPU (cl_construct env)" and "0 \<le> xf_buffer f"
  shows "\<forall>opt \<in> set (engine_options env f). option_fine opt"
  using accepted_options [OF assms] by (simp add: engine_options_def option_fine_def)

lemma cli_engine_panics:
  assumes law: "keeps_collectors has (ne_register (cl_construct env))"
    and reg: "ne_registryOf (cl_construct env) (cl_metrics env) = Some n"
    and cpu: "0 < ne_numCPU (cl_construct env)" and buf: "0 \<le> xf_buffer f"
  shows "NewEngine (cl_construct env) True (engine_options env f) (cl_regs env) = Panics"
proof -
  let ?pre = "[WithStateStore (Some (cl_stateStore env)), WithEventBus (Some (cl_eventBus env)),
      WithSecretsProvider (Some (cl_secrets env)), WithPluginRegistry (Some (cl_registry env)),
      WithTracerProvider (Some (cl_tracer env))]"
  let ?post = "[WithWorkerPoolSize (cl_construct env) (xf_workers f), WithDefaultChannelPolicy (Some (xf_buffer f)) [],
      WithRedactedKeywords cli_keywords]"
  have split: "engine_options env f = ?pre @ WithMetricsRegistryProvider (cl_construct env) (Some (cl_metrics env)) # ?post"
    by (simp add: engine_options_def)
  have plain: "\<forall>opt \<in> set ?post. plain_option (cl_construct env) opt" by (simp add: plain_option.intros)
  have none: "NewEngine (cl_construct env) True (engine_options env f) (cl_regs env) \<noteq> Returns (None, w)" for w
    unfolding split by (rule metrics_option_no_engine [OF law reg plain cpu])
  let ?w = "blank_engine (cl_construct env) (cl_regs env)"
  have "apply_options (engine_options env f) ?w = Panics \<or> (\<exists>w'. apply_options (engine_options env f) ?w = Returns (None, w'))"
    by (rule apply_fine [OF engine_options_fine [OF cpu buf]])
  then show ?thesis
  proof
    assume "\<exists>w'. apply_options (engine_options env f) ?w = Returns (None, w')"
    then obtain w' where a: "apply_options (engine_options env f) ?w = Returns (None, w')" by blast
    let ?v = "wire_runner (new_manager (default_keywords (fill_defaults (cl_construct env) w')))"
    have eq: "NewEngine (cl_construct env) True (engine_options env f) (cl_regs env) =
        (case initMetrics (cl_construct env) ?v of Returns v' \<Rightarrow> accept v' | Blocks \<Rightarrow> Blocks | Panics \<Rightarrow> Panics)"
      by (simp add: NewEngine_def a)
    show ?thesis
    proof (cases "initMetrics (cl_construct env) ?v")
      case (Returns v')
      with eq none [of v'] show ?thesis by (simp add: accept_def)
    next
      case Blocks
      with initMetrics_no_block show ?thesis by blast
    next
      case Panics
      with eq show ?thesis by simp
    qed
  qed (simp add: NewEngine_def)
qed

lemma check_flags_buffer: "check_exec_flags n f = Inr f' \<Longrightarrow> 0 \<le> xf_buffer f'"
  by (auto simp: check_exec_flags_def DefaultChannelBufferSize_def split: if_splits)

text \<open>And a run that had an engine would wait for its own signal handler before it cancels the context
  and closes the channel the handler waits on.\<close>

lemma finish_run_blocks: "finish_run env report execErr =
    (if cl_signal env \<noteq> None \<or> cl_late env then Returns (determineExitCode report execErr (cl_signal env)) else Blocks)"
  by (simp add: finish_run_def run_defers_def after_run_def handler_ends_def Let_def)

text \<open>So the command returns an exit code only for flags it does not run with.\<close>

lemma run_command_outcome:
  assumes "keeps_collectors has (ne_register (cl_construct env))"
    and "ne_registryOf (cl_construct env) (cl_metrics env) = Some n" and "0 < ne_numCPU (cl_construct env)"
  shows "runExecuteCommand env flags =
    (case check_exec_flags (ne_numCPU (cl_construct env)) flags of Inl exitCode \<Rightarrow> Returns exitCode | Inr f \<Rightarrow> Panics)"
  using cli_engine_panics [OF assms check_flags_buffer] by (auto simp: runExecuteCommand_def split: sum.split)

subsection \<open>The modules of the command\<close>

text \<open>The modules whose packages the command imports, each registered by its \<open>init\<close> function; a
  factory is known by its module's name. The other modules of the repository are not found.\<close>

definition cli_modules :: "string list" where
  "cli_modules = [''exec'', ''passthrough'']"

definition cli_registry :: "string StaticRegistry outcome" where
  "cli_registry = register_all Register (map (\<lambda>name. (name, name)) cli_modules) NewStaticRegistry"

lemma cli_registry_modules:
  "\<exists>r. cli_registry = Returns r \<and> (\<forall>name. registry_Get name r =
     (if name \<in> set cli_modules then Inr name else Inl (ModuleNotFoundError name)))"
proof -
  have "\<exists>r. cli_registry = Returns r" by (simp add: cli_registry_def cli_modules_def Register_def NewStaticRegistry_def)
  then obtain r where r: "register_all Register (map (\<lambda>name. (name, name)) cli_modules) NewStaticRegistry = Returns r"
    by (auto simp: cli_registry_def)
  have "registry_Get name r = (if name \<in> set cli_modules then Inr name else Inl (ModuleNotFoundError name))" for name
  proof (cases "name \<in> set cli_modules")
    case True
    then show ?thesis using static_registry.register_all_found [OF r, of name name] by auto
  next
    case False
    then have "registry_Get name r = registry_Get name (NewStaticRegistry :: string StaticRegistry)"
      using static_registry.register_all_keeps [OF r, of name] by force
    with False show ?thesis by (simp add: registry_Get_def NewStaticRegistry_def)
  qed
  with r show ?thesis by (auto simp: cli_registry_def)
qed

subsection \<open>An example\<close>

text \<open>A registry as the list of the names registered in it.\<close>

definition ex_register :: "string \<Rightarrow> string list \<Rightarrow> goerr option \<times> string list" where
  "ex_register name reg =
     (if name \<in> set reg then (Some (PlainError ''duplicate metrics collector registration attempted''), reg) else (None, name # reg))"

lemma ex_register_keeps: "keeps_collectors (\<lambda>reg name. name \<in> set reg) ex_register"
  by (simp add: keeps_collectors_def ex_register_def)

definition ex_construct_env :: "string list construct_env" where
  "ex_construct_env = \<lparr>ne_numCPU = 4, ne_stateStore = 0, ne_secrets = 1, ne_noopBus = 2, ne_staticRegistry = 3,
     ne_metrics = 4, ne_noopTracer = 5, ne_registryOf = (\<lambda>s. Some s), ne_register = ex_register\<rparr>"

definition ex_cli_env :: "string list cli_env" where
  "ex_cli_env = \<lparr>cl_construct = ex_construct_env, cl_stateStore = 10, cl_eventBus = 11, cl_secrets = 12, cl_registry = 13,
     cl_tracer = 14, cl_metrics = 15, cl_regs = (\<lambda>_. []), cl_readFile = (\<lambda>path. Inr []),
     cl_run = (\<lambda>w dry text. (None, None)), cl_signal = None, cl_late = False\<rparr>"

definition ex_flags :: exec_flags where
  "ex_flags = \<lparr>xf_playbook = ''p.yaml'', xf_logFormat = ''text'', xf_dryRun = False, xf_workers = 0, xf_buffer = - 1, xf_version = False\<rparr>"

definition ex_options :: "string list step list" where
  "ex_options = [WithWorkerPoolSize ex_construct_env (- 3), WithRedactedKeywords ['' Token '', '' ''],
     WithDefaultChannelPolicy (Some 7) OverflowDropNew]"

text \<open>Without the metrics option an engine is made.\<close>

lemma ex_engine:
  "\<exists>w. NewEngine ex_construct_env True ex_options (\<lambda>_. []) = Returns (None, w) \<and>
     eg_workerPoolSize w = 4 \<and> eg_redactedKeywords w = [''token'']"
proof -
  let ?r = "NewEngine ex_construct_env True ex_options (\<lambda>_. [])"
  have "case ?r of Returns (e, w) \<Rightarrow> e = None \<and> eg_workerPoolSize w = 4 \<and> eg_redactedKeywords w = [''token'']
      | Blocks \<Rightarrow> False | Panics \<Rightarrow> False" by code_simp
  then show ?thesis by (auto split: outcome.splits prod.splits)
qed

end
