(* ===== verification/Gxo_Finish.thy ===== *)
theory Gxo_Finish
  imports Gxo_Report Gxo_Events
begin

text \<open>
  The end of every call of \<open>RunPlaybook\<close> (\<open>internal/engine/engine.go\<close>): the deferred function that
  makes the report, the status the run is counted under, the events that open and close a run, and
  the maps a call reports from, which are emptied only once the playbook has loaded.
\<close>

subsection \<open>Events of a run\<close>

definition start_event :: "int \<Rightarrow> string \<Rightarrow> Event" where
  "start_event startTime name =
     \<lparr>evt_Type = PlaybookStart, evt_Timestamp = startTime, evt_PlaybookName = name, evt_TaskName = [], evt_TaskID = [],
      evt_Payload = [(''playbook_name'', VStr name)]\<rparr>"

text \<open>\<open>Duration.Milliseconds\<close> rounds towards zero.\<close>

definition Milliseconds :: "int \<Rightarrow> int" where
  "Milliseconds d = sgn d * (\<bar>d\<bar> div 1000000)"

definition emitFinalEvents :: "ExecutionReport \<Rightarrow> Event" where
  "emitFinalEvents report =
     \<lparr>evt_Type = PlaybookEnd, evt_Timestamp = rp_EndTime report, evt_PlaybookName = rp_PlaybookName report,
      evt_TaskName = [], evt_TaskID = [],
      evt_Payload =
        [(''playbook_name'', VStr (rp_PlaybookName report)), (''duration_ms'', VInt KInt64 (Milliseconds (rp_Duration report))),
         (''status'', VStr (rp_OverallStatus report)), (''total_tasks'', VInt KInt (int (rp_TotalTasks report))),
         (''completed'', VInt KInt (int (rp_CompletedTasks report))), (''failed'', VInt KInt (int (rp_FailedTasks report))),
         (''skipped'', VInt KInt (int (rp_SkippedTasks report))), (''error_message'', VStr (rp_Error report))]\<rparr>"

subsection \<open>The deferred function\<close>

text \<open>A report is only given by a caller that returns one itself; no return of \<open>RunPlaybook\<close> does.\<close>

definition deferred_report ::
    "(string \<times> TaskStatus) ranger \<Rightarrow> string ranger \<Rightarrow> string list \<Rightarrow> run_maps \<Rightarrow> string \<Rightarrow> int \<Rightarrow> int \<Rightarrow>
     ExecutionReport option \<Rightarrow> goerr option \<Rightarrow> ExecutionReport" where
  "deferred_report order rng kws rm pbName startTime endTime finalReport finalErr =
     (case finalReport of
        None \<Rightarrow> generateReport order rng kws rm pbName startTime endTime finalErr
      | Some r \<Rightarrow>
         (let r1 = r\<lparr>rp_StartTime := startTime, rp_EndTime := endTime, rp_Duration := endTime - startTime\<rparr> in
          case finalErr of
            None \<Rightarrow> r1
          | Some err \<Rightarrow>
              if rp_Error r1 = []
              then r1\<lparr>rp_Error := Error (RedactSecretsInError rng kws err), rp_OverallStatus := ''Failed''\<rparr>
              else r1))"

record run_end =
  re_report :: ExecutionReport
  re_error :: "goerr option"
  re_counted :: string          \<comment> \<open>the status label of the run counter\<close>
  re_events :: "Event list"     \<comment> \<open>the events of the run itself, in order\<close>

definition conclude ::
    "(string \<times> TaskStatus) ranger \<Rightarrow> string ranger \<Rightarrow> string list \<Rightarrow> int \<Rightarrow> int \<Rightarrow> run_maps \<Rightarrow> string \<Rightarrow>
     goerr option \<Rightarrow> Event list \<Rightarrow> run_end" where
  "conclude order rng kws startTime endTime rm pbName finalErr events =
     (let report = deferred_report order rng kws rm pbName startTime endTime None finalErr in
      \<lparr>re_report = report, re_error = finalErr, re_counted = metrics_status finalErr report,
       re_events = events @ [emitFinalEvents report]\<rparr>)"

text \<open>A call: what loading returned, the maps an earlier run of the same engine left, and the maps and
  the error of everything between loading and the end.\<close>

definition RunPlaybook_end ::
    "(string \<times> TaskStatus) ranger \<Rightarrow> string ranger \<Rightarrow> string list \<Rightarrow> int \<Rightarrow> int \<Rightarrow> run_maps \<Rightarrow>
     goerr + Playbook \<Rightarrow> (Playbook \<Rightarrow> run_maps \<times> goerr option) \<Rightarrow> run_end" where
  "RunPlaybook_end order rng kws startTime endTime rm0 loaded body =
     (case loaded of
        Inl err \<Rightarrow> conclude order rng kws startTime endTime rm0 [] (Some err) []
      | Inr pb \<Rightarrow>
         (case body pb of
            (rm, err) \<Rightarrow>
              conclude order rng kws startTime endTime rm (pb_Name pb) err [start_event startTime (pb_Name pb)]))"

subsection \<open>What a call reports\<close>

text \<open>Every call ends with one end event, whose status is the one the run is counted under; it has a
  start event exactly when the playbook loaded.\<close>

lemma call_reports:
  fixes body :: "Playbook \<Rightarrow> run_maps \<times> goerr option" and rng :: "string ranger"
    and loaded rm0 endTime startTime kws
  assumes "permutes order"
  defines "r \<equiv> RunPlaybook_end order rng kws startTime endTime rm0 loaded body"
  shows "\<exists>ev. re_events r = ev @ [emitFinalEvents (re_report r)] \<and> (ev = [] \<longleftrightarrow> (\<exists>err. loaded = Inl err)) \<and>
    re_counted r = rp_OverallStatus (re_report r) \<and>
    (re_counted r = ''Completed'' \<longleftrightarrow> re_error r = None \<and> rp_FailedTasks (re_report r) = 0)"
proof -
  have c: "metrics_status err rep = rp_OverallStatus rep \<and>
      (rp_OverallStatus rep = ''Completed'' \<longleftrightarrow> err = None \<and> rp_FailedTasks rep = 0)"
    if "rep = generateReport order rng kws rm name startTime endTime err" for rep rm name err
    using generateReport_fields(3,5) [OF assms(1)] that by (auto simp: metrics_status_def)
  show ?thesis
    using c by (cases loaded) (auto simp: r_def RunPlaybook_end_def conclude_def deferred_report_def Let_def split: prod.splits)
qed

text \<open>A call whose playbook does not load reports the tasks of the engine's previous run.\<close>

lemma failed_load_reports_previous_tasks:
  fixes body :: "Playbook \<Rightarrow> run_maps \<times> goerr option" and rng :: "string ranger"
    and err rm0 endTime startTime kws
  assumes "permutes order" and "gomap_ok (rm_statuses rm0)"
  defines "r \<equiv> RunPlaybook_end order rng kws startTime endTime rm0 (Inl err) body"
  shows "rp_TotalTasks (re_report r) = length (rm_statuses rm0) \<and> rp_PlaybookName (re_report r) = [] \<and>
    map_of (rp_TaskResults (re_report r)) x = map_option (task_result_of rm0 x) (map_of (rm_statuses rm0) x)"
proof -
  have n: "rp_PlaybookName (report_task rm e rep) = rp_PlaybookName rep" for rm e rep
    by (cases e; cases "snd e") (simp_all add: report_task_def Let_def)
  have "rp_PlaybookName (fold (report_task rm) es rep) = rp_PlaybookName rep" for rm es rep
    by (induction es arbitrary: rep) (simp_all add: n)
  then have "rp_PlaybookName (generateReport order rng kws rm name s e er) = name" for rm name s e er
    by (simp add: generateReport_def Let_def) (simp add: empty_report_def)
  then show ?thesis
    using generateReport_fields(1) [OF assms(1)] generateReport_results [OF assms(1,2)]
    by (simp add: r_def RunPlaybook_end_def conclude_def deferred_report_def Let_def)
qed

text \<open>With the maps of a finished run, the call's status is Completed exactly for a run without error.\<close>

lemma finished_call:
  assumes "run_ok cfg ready" and "acyclic (dag_arcs (rc_dag cfg))" and "run_reaches cfg ready e" and "en_sched e = SDone err"
    and "permutes order" and "body pb = (maps_of_run cfg timings e, err)"
  shows "re_counted (RunPlaybook_end order rng kws startTime endTime rm0 (Inr pb) body) = (if err = None then ''Completed'' else ''Failed'')"
  using finished_run_report [OF assms(1-5)] assms(6)
  by (simp add: RunPlaybook_end_def conclude_def deferred_report_def Let_def metrics_status_def)

text \<open>A call's own events never hold it up, on a bus that is open.\<close>

lemma run_events_emitted:
  assumes "\<not> cb_closed c"
  shows "\<exists>c'. emit_all Emit (re_events (RunPlaybook_end order rng kws startTime endTime rm0 loaded body)) c = Returns c' \<and> \<not> cb_closed c'"
  using assms by (rule channel_bus.emit_all_returns)

text \<open>What a run of one task leaves behind.\<close>

definition ex_left_maps :: run_maps where
  "ex_left_maps = \<lparr>rm_statuses = [(''a'', StatusCompleted)], rm_errors = Map.empty, rm_timings = (\<lambda>_. (None, None))\<rparr>"

end
