(* ===== verification/Gxo_Modules.thy ===== *)
theory Gxo_Modules
  imports Gxo_Params Gxo_Task
begin

text \<open>
  The modules besides the join: \<open>generate:from_list\<close>, \<open>test:producer\<close>, \<open>passthrough\<close> and
  \<open>exec\<close> with the command runner (\<open>modules/\<close>, \<open>internal/command/command.go\<close>). The records
  passthrough reads are maps that are not nil. Running a process is an argument. Draining
  unexpected inputs has no effect on the result and is left out.
\<close>

subsection \<open>Producers\<close>

text \<open>What a producer sees each time it looks at its context (\<open>None\<close>: the send goes through), and the
  capacity of the error channel.\<close>

record producer_env =
  pe_ctx :: "nat \<Rightarrow> goerr option"
  pe_errCap :: nat

record producer_state =
  ps_looks :: nat
  ps_out :: "(nat \<times> goval) list"
  ps_errs :: "goerr list"
  ps_count :: int

definition producer_start :: producer_state where
  "producer_start = \<lparr>ps_looks = 0, ps_out = [], ps_errs = [], ps_count = 0\<rparr>"

definition ps_look :: "producer_env \<Rightarrow> producer_state \<Rightarrow> goerr option \<times> producer_state" where
  "ps_look env st = (pe_ctx env (ps_looks st), st\<lparr>ps_looks := ps_looks st + 1\<rparr>)"

fun fan_out :: "producer_env \<Rightarrow> goval \<Rightarrow> nat list \<Rightarrow> producer_state \<Rightarrow> goerr option \<times> producer_state" where
  "fan_out env r [] st = (None, st)"
| "fan_out env r (out # outs) st =
     (case ps_look env st of
        (Some err, st1) \<Rightarrow> (Some err, st1)
      | (None, st1) \<Rightarrow> fan_out env r outs (st1\<lparr>ps_out := ps_out st1 @ [(out, r)]\<rparr>))"

text \<open>The loop of both producers, with the conversion of an item to a record.\<close>

fun produce ::
    "producer_env \<Rightarrow> (nat \<Rightarrow> goval \<Rightarrow> goerr + goval) \<Rightarrow> nat list \<Rightarrow> nat \<Rightarrow> goval list \<Rightarrow> producer_state \<Rightarrow>
     (goerr option \<times> producer_state) outcome" where
  "produce env conv outs i [] st = Returns (None, st)"
| "produce env conv outs i (item # items) st =
     (case conv i item of
        Inl err \<Rightarrow>
          (case ps_look env st of
             (Some cerr, st1) \<Rightarrow> Returns (Some cerr, st1)
           | (None, st1) \<Rightarrow>
               if length (ps_errs st1) < pe_errCap env
               then produce env conv outs (Suc i) items (st1\<lparr>ps_errs := ps_errs st1 @ [err]\<rparr>)
               else Blocks)
      | Inr r \<Rightarrow>
          (case fan_out env r outs st of
             (Some cerr, st1) \<Rightarrow> Returns (Some cerr, st1)
           | (None, st1) \<Rightarrow> produce env conv outs (Suc i) items (st1\<lparr>ps_count := ps_count st1 + 1\<rparr>)))"

definition run_producer ::
    "producer_env \<Rightarrow> (nat \<Rightarrow> goval \<Rightarrow> goerr + goval) \<Rightarrow> string \<Rightarrow> string \<Rightarrow> params \<Rightarrow> nat list \<Rightarrow>
     ((goerr + params) \<times> producer_state) outcome" where
  "run_producer env conv key countKey params outs =
     (case GetRequiredSlice params key of
        Inl err \<Rightarrow> Returns (Inl err, producer_start)
      | Inr items \<Rightarrow>
         (case produce env conv outs 0 items producer_start of
            Returns (Some err, st) \<Rightarrow> Returns (Inl err, st)
          | Returns (None, st) \<Rightarrow> Returns (Inr [(countKey, VInt KInt64 (ps_count st))], st)
          | Blocks \<Rightarrow> Blocks
          | Panics \<Rightarrow> Panics))"

text \<open>The map with string keys of a \<open>map[interface{}]interface{}\<close>, in the order of the range.\<close>

fun convertMap :: "(goval \<times> goval) list \<Rightarrow> params \<Rightarrow> goerr + params" where
  "convertMap [] acc = Inr acc"
| "convertMap ((VStr k, v) # kvs) acc = convertMap kvs (AList.update k v acc)"
| "convertMap ((k, v) # kvs) acc = Inl (PlainError (''key is not a string: '' @ type_name k))"

definition from_list_record :: "(goval \<times> goval) ranger \<Rightarrow> nat \<Rightarrow> goval \<Rightarrow> goerr + goval" where
  "from_list_record rng i item =
     (case item of
        VMap m \<Rightarrow> Inr item
      | VNilMap \<Rightarrow> Inr item
      | VAnyMap kvs \<Rightarrow>
         (case convertMap (rng i kvs) [] of
            Inl e \<Rightarrow> Inl (RecordProcessingError ''generate:from_list'' (Some (''item at index '' @ show_nat i))
                (Some (WrapError (''item at index '' @ show_nat i @ '' has non-string keys: '') e [])))
          | Inr m \<Rightarrow> Inr (VMap m))
      | _ \<Rightarrow> Inr (VMap [(''item'', item)]))"

definition Perform_from_list ::
    "producer_env \<Rightarrow> (goval \<times> goval) ranger \<Rightarrow> params \<Rightarrow> nat list \<Rightarrow> ((goerr + params) \<times> producer_state) outcome" where
  "Perform_from_list env rng params outs =
     run_producer env (from_list_record rng) ''items'' ''records_generated'' params outs"

definition test_record :: "nat \<Rightarrow> goval \<Rightarrow> goerr + goval" where
  "test_record i item =
     (case item of
        VMap m \<Rightarrow> Inr item
      | VNilMap \<Rightarrow> Inr item
      | _ \<Rightarrow> Inl (RecordProcessingError ''test:producer'' (Some (''item at index '' @ show_nat i))
             (Some (PlainError (''item is not a map[string]interface{}, but a '' @ type_name item)))))"

definition Perform_test_producer ::
    "producer_env \<Rightarrow> params \<Rightarrow> nat list \<Rightarrow> ((goerr + params) \<times> producer_state) outcome" where
  "Perform_test_producer env params outs = run_producer env test_record ''records'' ''records_sent'' params outs"

subsection \<open>What a producer sends\<close>

definition good_records :: "(nat \<Rightarrow> goval \<Rightarrow> goerr + goval) \<Rightarrow> nat \<Rightarrow> goval list \<Rightarrow> goval list" where
  "good_records conv i items =
     List.map_filter (\<lambda>(j, item). case conv j item of Inl e \<Rightarrow> None | Inr r \<Rightarrow> Some r) (List.enumerate i items)"

definition bad_items :: "(nat \<Rightarrow> goval \<Rightarrow> goerr + goval) \<Rightarrow> nat \<Rightarrow> goval list \<Rightarrow> goerr list" where
  "bad_items conv i items =
     List.map_filter (\<lambda>(j, item). case conv j item of Inl e \<Rightarrow> Some e | Inr r \<Rightarrow> None) (List.enumerate i items)"

definition to_all :: "nat list \<Rightarrow> goval list \<Rightarrow> (nat \<times> goval) list" where
  "to_all outs rs = concat (map (\<lambda>r. map (\<lambda>out. (out, r)) outs) rs)"

lemma record_simps [simp]:
  "good_records conv i [] = []" "bad_items conv i [] = []" "to_all outs [] = []"
  "good_records conv i (x # xs) = (case conv i x of Inl e \<Rightarrow> [] | Inr r \<Rightarrow> [r]) @ good_records conv (Suc i) xs"
  "bad_items conv i (x # xs) = (case conv i x of Inl e \<Rightarrow> [e] | Inr r \<Rightarrow> []) @ bad_items conv (Suc i) xs"
  "to_all outs (r # rs) = map (\<lambda>out. (out, r)) outs @ to_all outs rs"
  by (simp_all add: good_records_def bad_items_def to_all_def map_filter_simps split: sum.split)

lemma fan_out_ok:
  "(\<And>n. pe_ctx env n = None) \<Longrightarrow> fan_out env r outs st =
     (None, st\<lparr>ps_looks := ps_looks st + length outs, ps_out := ps_out st @ map (\<lambda>out. (out, r)) outs\<rparr>)"
  by (induction outs arbitrary: st) (simp_all add: ps_look_def)

lemma produce_ok:
  assumes ctx: "\<And>n. pe_ctx env n = None"
  shows "length (ps_errs st) + length (bad_items conv i items) \<le> pe_errCap env \<Longrightarrow>
    \<exists>n. produce env conv outs i items st = Returns (None, st\<lparr>ps_looks := n,
      ps_out := ps_out st @ to_all outs (good_records conv i items), ps_errs := ps_errs st @ bad_items conv i items,
      ps_count := ps_count st + int (length (good_records conv i items))\<rparr>)"
proof (induction items arbitrary: i st)
  case Nil
  show ?case by (intro exI [of _ "ps_looks st"]) simp
next
  case (Cons item items)
  show ?case
  proof (cases "conv i item")
    case (Inl err)
    with Cons.prems Cons.IH [of "st\<lparr>ps_looks := ps_looks st + 1, ps_errs := ps_errs st @ [err]\<rparr>" "Suc i"]
    show ?thesis by (auto simp: ps_look_def ctx)
  next
    case (Inr r)
    let ?st = "st\<lparr>ps_looks := ps_looks st + length outs, ps_out := ps_out st @ map (\<lambda>out. (out, r)) outs,
      ps_count := ps_count st + 1\<rparr>"
    from Inr Cons.prems Cons.IH [of ?st "Suc i"] show ?thesis
      by (auto simp: fan_out_ok [OF ctx] algebra_simps)
  qed
qed

lemma run_producer_ok:
  assumes ctx: "\<And>n. pe_ctx env n = None" and items: "GetRequiredSlice params key = Inr items"
    and cap: "length (bad_items conv 0 items) \<le> pe_errCap env"
  shows "\<exists>st. run_producer env conv key countKey params outs =
      Returns (Inr [(countKey, VInt KInt64 (int (length (good_records conv 0 items))))], st) \<and>
    ps_out st = to_all outs (good_records conv 0 items) \<and> ps_errs st = bad_items conv 0 items"
proof -
  obtain n where "produce env conv outs 0 items producer_start = Returns (None, producer_start\<lparr>ps_looks := n,
      ps_out := ps_out producer_start @ to_all outs (good_records conv 0 items),
      ps_errs := ps_errs producer_start @ bad_items conv 0 items,
      ps_count := ps_count producer_start + int (length (good_records conv 0 items))\<rparr>)"
    using produce_ok [OF ctx, of producer_start conv 0 items outs] cap by (auto simp: producer_start_def)
  then show ?thesis by (simp add: run_producer_def items) (simp add: producer_start_def)
qed

text \<open>Every item that is not a map with a non-string key becomes a record.\<close>

lemma from_list_record_ok:
  "(\<exists>e. from_list_record rng i item = Inl e) \<longrightarrow> (\<exists>kvs. item = VAnyMap kvs)"
  by (auto simp: from_list_record_def split: goval.splits)

subsection \<open>passthrough\<close>

text \<open>
  One goroutine per input receives a record, writes the id of its input into it and offers it to
  the loop that sends to the outputs; the channel between them has no buffer, so handing a record
  over is one step of both. \<open>PTaken\<close> is a goroutine that offers a record, \<open>PDone\<close> one that has left.
\<close>

definition source_key :: string where
  "source_key = ''_passthrough_source_id''"

datatype pass_pc = PIdle | PTaken params | PDone

record pass_state =
  pt_in :: "params list list"
  pt_pc :: "pass_pc list"
  pt_out :: "params list"       \<comment> \<open>the records sent to every output\<close>
  pt_processed :: int
  pt_ctxErr :: "goerr option"
  pt_err :: "goerr option"

datatype pass_label = PRecv nat | PHand nat | PStop nat | PQuit nat | PCancel goerr

fun pass_fire :: "string list \<Rightarrow> pass_label \<Rightarrow> pass_state \<Rightarrow> pass_state option" where
  "pass_fire ids (PRecv i) s =
     (if i < length (pt_pc s) \<and> pt_pc s ! i = PIdle then
        Some (case pt_in s ! i of
           [] \<Rightarrow> s\<lparr>pt_pc := (pt_pc s)[i := PDone]\<rparr>
         | r # rest \<Rightarrow> s\<lparr>pt_in := (pt_in s)[i := rest],
                       pt_pc := (pt_pc s)[i := PTaken (AList.update source_key (VStr (ids ! i)) r)]\<rparr>)
      else None)"
| "pass_fire ids (PHand i) s =
     (if i < length (pt_pc s) \<and> pt_err s = None then
        (case pt_pc s ! i of
           PTaken r \<Rightarrow> Some (s\<lparr>pt_pc := (pt_pc s)[i := PIdle], pt_out := pt_out s @ [r], pt_processed := pt_processed s + 1\<rparr>)
         | _ \<Rightarrow> None)
      else None)"
| "pass_fire ids (PStop i) s =
     (if i < length (pt_pc s) \<and> pt_err s = None \<and> pt_ctxErr s \<noteq> None then
        (case pt_pc s ! i of
           PTaken r \<Rightarrow> Some (s\<lparr>pt_pc := (pt_pc s)[i := PIdle], pt_processed := pt_processed s + 1, pt_err := pt_ctxErr s\<rparr>)
         | _ \<Rightarrow> None)
      else None)"
| "pass_fire ids (PQuit i) s =
     (if i < length (pt_pc s) \<and> pt_ctxErr s \<noteq> None \<and> pt_pc s ! i \<noteq> PDone
      then Some (s\<lparr>pt_pc := (pt_pc s)[i := PDone]\<rparr>) else None)"
| "pass_fire ids (PCancel err) s = Some (if pt_ctxErr s = None then s\<lparr>pt_ctxErr := Some err\<rparr> else s)"

fun pass_fires :: "string list \<Rightarrow> pass_label list \<Rightarrow> pass_state \<Rightarrow> pass_state option" where
  "pass_fires ids [] s = Some s"
| "pass_fires ids (l # ls) s = (case pass_fire ids l s of None \<Rightarrow> None | Some s' \<Rightarrow> pass_fires ids ls s')"

definition pass_start :: "params list list \<Rightarrow> pass_state" where
  "pass_start ins = \<lparr>pt_in = ins, pt_pc = replicate (length ins) PIdle, pt_out = [], pt_processed = 0,
     pt_ctxErr = None, pt_err = None\<rparr>"

definition pass_finished :: "pass_state \<Rightarrow> bool" where
  "pass_finished s \<longleftrightarrow> pt_err s \<noteq> None \<or> list_all (\<lambda>pc. pc = PDone) (pt_pc s)"

definition Perform_passthrough :: "string list \<Rightarrow> pass_state \<Rightarrow> goerr + params" where
  "Perform_passthrough ids s =
     (if ids = [] then Inr [(''records_processed'', VInt KInt 0), (''message'', VStr ''no input streams provided'')]
      else case pt_err s of
        Some err \<Rightarrow> Inl err
      | None \<Rightarrow>
         (case pt_ctxErr s of
            Some err \<Rightarrow> Inl err
          | None \<Rightarrow> Inr [(''records_processed'', VInt KInt64 (pt_processed s))]))"

text \<open>The records of one source, tagged; in the output, between the goroutines, still to come.\<close>

definition tagged :: "string \<Rightarrow> params \<Rightarrow> params" where
  "tagged sid r = AList.update source_key (VStr sid) r"

definition from_source :: "string \<Rightarrow> params list \<Rightarrow> params list" where
  "from_source sid rs = filter (\<lambda>r. map_of r source_key = Some (VStr sid)) rs"

definition pending_of :: "pass_pc \<Rightarrow> params list" where
  "pending_of pc = (case pc of PTaken r \<Rightarrow> [r] | _ \<Rightarrow> [])"

definition pass_inv :: "string list \<Rightarrow> params list list \<Rightarrow> pass_state \<Rightarrow> bool" where
  "pass_inv ids ins s \<longleftrightarrow> length (pt_pc s) = length ins \<and> length (pt_in s) = length ins \<and>
     pt_ctxErr s = None \<and> pt_err s = None \<and> pt_processed s = int (length (pt_out s)) \<and>
     (\<forall>r \<in> set (pt_out s). \<exists>i < length ins. map_of r source_key = Some (VStr (ids ! i))) \<and>
     (\<forall>i < length ins. (pt_pc s ! i = PDone \<longrightarrow> pt_in s ! i = []) \<and>
        (\<forall>r. pt_pc s ! i = PTaken r \<longrightarrow> map_of r source_key = Some (VStr (ids ! i))) \<and>
        from_source (ids ! i) (pt_out s) @ pending_of (pt_pc s ! i) @ map (tagged (ids ! i)) (pt_in s ! i) =
          map (tagged (ids ! i)) (ins ! i))"

lemma from_source_snoc [simp]:
  "from_source sid (rs @ [r]) = from_source sid rs @ (if map_of r source_key = Some (VStr sid) then [r] else [])"
  by (simp add: from_source_def)

lemma tagged_source [simp]: "map_of (tagged sid r) source_key = Some (VStr sid)"
  by (simp add: tagged_def)

lemma pass_inv_step:
  assumes step: "pass_fire ids l s = Some s'" and inv: "pass_inv ids ins s" and ids: "distinct ids" "length ids = length ins"
    and "\<forall>e. l \<noteq> PCancel e"
  shows "pass_inv ids ins s'"
proof (cases l)
  case (PRecv i)
  with step inv have i: "i < length ins" "pt_pc s ! i = PIdle" by (auto simp: pass_inv_def split: if_splits)
  show ?thesis
  proof (cases "pt_in s ! i")
    case Nil
    with PRecv step i inv have "s' = s\<lparr>pt_pc := (pt_pc s)[i := PDone]\<rparr>" by (auto simp: pass_inv_def)
    with Nil i inv show ?thesis by (auto simp: pass_inv_def nth_list_update pending_of_def)
  next
    case (Cons r rest)
    with PRecv step i inv have "s' = s\<lparr>pt_in := (pt_in s)[i := rest], pt_pc := (pt_pc s)[i := PTaken (tagged (ids ! i) r)]\<rparr>"
      by (auto simp: pass_inv_def tagged_def)
    with Cons i inv show ?thesis by (auto simp: pass_inv_def nth_list_update pending_of_def)
  qed
next
  case (PHand i)
  with step obtain r where r: "pt_pc s ! i = PTaken r" "i < length (pt_pc s)"
    and s': "s' = s\<lparr>pt_pc := (pt_pc s)[i := PIdle], pt_out := pt_out s @ [r], pt_processed := pt_processed s + 1\<rparr>"
    by (auto split: if_splits pass_pc.splits)
  have i: "i < length ins" and src: "map_of r source_key = Some (VStr (ids ! i))" using r inv by (auto simp: pass_inv_def)
  have "from_source (ids ! j) (pt_out s') @ pending_of (pt_pc s' ! j) @ map (tagged (ids ! j)) (pt_in s' ! j) =
      map (tagged (ids ! j)) (ins ! j)" if j: "j < length ins" for j
  proof (cases "j = i")
    case True
    with i r src s' inv show ?thesis by (auto simp: pass_inv_def pending_of_def)
  next
    case False
    then have "ids ! i \<noteq> ids ! j" using j i ids by (simp add: nth_eq_iff_index_eq)
    with False src s' inv j show ?thesis by (simp add: pass_inv_def)
  qed
  moreover have "(pt_pc s' ! j = PDone \<longrightarrow> pt_in s' ! j = []) \<and>
      (\<forall>r. pt_pc s' ! j = PTaken r \<longrightarrow> map_of r source_key = Some (VStr (ids ! j)))" if "j < length ins" for j
    using that s' inv r by (simp add: pass_inv_def nth_list_update)
  ultimately show ?thesis using i src s' inv by (auto simp: pass_inv_def)
qed (use assms in \<open>auto simp: pass_inv_def split: if_splits\<close>)

lemma pass_inv_fires:
  "pass_fires ids ls s = Some s' \<Longrightarrow> pass_inv ids ins s \<Longrightarrow> distinct ids \<Longrightarrow> length ids = length ins \<Longrightarrow> \<forall>e. PCancel e \<notin> set ls \<Longrightarrow>
     pass_inv ids ins s'"
proof (induction ls arbitrary: s)
  case (Cons l ls)
  then obtain s1 where s1: "pass_fire ids l s = Some s1" "pass_fires ids ls s1 = Some s'" by (auto split: option.splits)
  have "\<forall>e. l \<noteq> PCancel e" using Cons.prems(5) by auto
  with s1 Cons show ?case using pass_inv_step [OF s1(1) Cons.prems(2-4)] by simp
qed simp

lemma pass_inv_start: "pass_inv ids ins (pass_start ins)"
  by (auto simp: pass_inv_def pass_start_def from_source_def pending_of_def)

text \<open>A finished passthrough has sent, for each source, all its records in their order, each with the
  id of its source in it, and nothing else, and counts them.\<close>

lemma passthrough_result:
  assumes run: "pass_fires ids ls (pass_start ins) = Some s" and nc: "\<forall>e. PCancel e \<notin> set ls" and fin: "pass_finished s"
    and ids: "distinct ids" "length ids = length ins" "ids \<noteq> []"
  shows "Perform_passthrough ids s = Inr [(''records_processed'', VInt KInt64 (int (length (pt_out s))))]"
    and "i < length ids \<Longrightarrow> from_source (ids ! i) (pt_out s) = map (tagged (ids ! i)) (ins ! i)"
    and "r \<in> set (pt_out s) \<Longrightarrow> \<exists>i < length ids. r \<in> tagged (ids ! i) ` set (ins ! i)"
proof -
  have inv: "pass_inv ids ins s" by (rule pass_inv_fires [OF run pass_inv_start ids(1,2) nc])
  show "Perform_passthrough ids s = Inr [(''records_processed'', VInt KInt64 (int (length (pt_out s))))]"
    using inv ids(3) by (simp add: Perform_passthrough_def pass_inv_def)
  have all: "from_source (ids ! i) (pt_out s) = map (tagged (ids ! i)) (ins ! i)" if "i < length ids" for i
  proof -
    have "pt_pc s ! i = PDone" using inv fin that ids(2) by (auto simp: pass_inv_def pass_finished_def list_all_length)
    with inv that ids(2) show ?thesis by (auto simp: pass_inv_def pending_of_def)
  qed
  then show "i < length ids \<Longrightarrow> from_source (ids ! i) (pt_out s) = map (tagged (ids ! i)) (ins ! i)" .
  assume r: "r \<in> set (pt_out s)"
  then obtain i where i: "i < length ids" "map_of r source_key = Some (VStr (ids ! i))"
    using inv ids(2) by (auto simp: pass_inv_def)
  with r have "r \<in> set (from_source (ids ! i) (pt_out s))" by (simp add: from_source_def)
  with all [OF i(1)] i(1) show "\<exists>i < length ids. r \<in> tagged (ids ! i) ` set (ins ! i)" by auto
qed

subsection \<open>The command runner\<close>

record CommandResult =
  cr_Stdout :: string
  cr_Stderr :: string
  cr_ExitCode :: int
  cr_Error :: "goerr option"

text \<open>How \<open>Cmd.Run\<close> ends: without an error, with an exit error (and the status where the platform
  has one), with another error.\<close>

datatype proc_end = ProcOk | ProcExit "int option" goerr | ProcFailed goerr

definition Run :: "goerr option \<Rightarrow> string \<Rightarrow> string \<Rightarrow> proc_end \<Rightarrow> CommandResult \<times> goerr option" where
  "Run ctxErr stdout stderr ended =
     (let result = \<lparr>cr_Stdout = stdout, cr_Stderr = stderr, cr_ExitCode = - 1, cr_Error = None\<rparr> in
      case ended of
        ProcOk \<Rightarrow> (result\<lparr>cr_ExitCode := 0\<rparr>, None)
      | ProcExit status err \<Rightarrow>
          if ctxErr \<noteq> None then (result\<lparr>cr_Error := ctxErr\<rparr>, ctxErr)
          else (result\<lparr>cr_ExitCode := (case status of Some n \<Rightarrow> n | None \<Rightarrow> - 1), cr_Error := Some err\<rparr>, None)
      | ProcFailed err \<Rightarrow>
          if ctxErr \<noteq> None then (result\<lparr>cr_Error := ctxErr\<rparr>, ctxErr)
          else (result\<lparr>cr_Error := Some err, cr_ExitCode := - 1\<rparr>, Some err))"

subsection \<open>exec\<close>

definition exec_summary :: "CommandResult \<Rightarrow> goval" where
  "exec_summary result = VMap [(''stdout'', VStr (cr_Stdout result)), (''stderr'', VStr (cr_Stderr result)),
     (''exit_code'', VInt KInt (cr_ExitCode result))]"

definition strings_or_nil :: "string list option \<Rightarrow> string list" where
  "strings_or_nil s = (case s of None \<Rightarrow> [] | Some ss \<Rightarrow> ss)"

definition Perform_exec ::
    "bool \<Rightarrow> (string \<Rightarrow> string list \<Rightarrow> string \<Rightarrow> string list \<Rightarrow> CommandResult \<times> goerr option) \<Rightarrow> params \<Rightarrow>
     goval \<times> goerr option" where
  "Perform_exec isDryRun run params =
     (case GetRequiredString params ''command'' of
        Inl err \<Rightarrow> (VNil, Some err)
      | Inr cmd \<Rightarrow>
     (case GetOptionalStringSlice params ''args'' of
        Inl err \<Rightarrow> (VNil, Some err)
      | Inr args \<Rightarrow>
     (case GetOptionalString params ''working_dir'' of
        Inl err \<Rightarrow> (VNil, Some err)
      | Inr workingDir \<Rightarrow>
     (case GetOptionalStringSlice params ''environment'' of
        Inl err \<Rightarrow> (VNil, Some err)
      | Inr environment \<Rightarrow>
        if isDryRun then
          (VMap [(''dry_run'', VBool True), (''command'', VStr cmd), (''args'', VStrs (strings_or_nil args)),
             (''stdout'', VStr []), (''stderr'', VStr []), (''exit_code'', VInt KInt 0)], None)
        else
          (case run cmd (strings_or_nil args) (case workingDir of None \<Rightarrow> [] | Some d \<Rightarrow> d) (strings_or_nil environment) of
             (result, Some runErr) \<Rightarrow>
               (VOpaque ''*command.CommandResult'', Some (WrapError ''failed to execute command: '' runErr []))
           | (result, None) \<Rightarrow>
               if cr_ExitCode result \<noteq> 0
               then (exec_summary result, Some (TaskExecutionError ''exec''
                  (Some (PlainError (''command exited with non-zero status: '' @ show_int (cr_ExitCode result))))))
               else (exec_summary result, None))))))"

text \<open>exec succeeds exactly on a dry run or when the process ends without an error; a cancelled
  context makes the error one of the context.\<close>

lemma exec_succeeds:
  assumes "GetRequiredString params ''command'' = Inr cmd" and "GetOptionalStringSlice params ''args'' = Inr args"
    and "GetOptionalString params ''working_dir'' = Inr wd" and "GetOptionalStringSlice params ''environment'' = Inr envv"
    and "\<And>c a w e. run c a w e = Run ctxErr out errs ended"
  shows "snd (Perform_exec dry run params) = None \<longleftrightarrow>
    dry \<or> ended = ProcOk \<or> (\<exists>e. ended = ProcExit (Some 0) e \<and> ctxErr = None)"
  using assms by (auto simp: Perform_exec_def Run_def Let_def split: proc_end.splits option.splits)

lemma exec_cancelled:
  assumes "Perform_exec dry run params = (v, Some err)" and "\<And>c a w e. run c a w e = Run (Some ctxErr) out errs ended"
    and "ended \<noteq> ProcOk" and "\<not> dry" and "GetRequiredString params ''command'' = Inr cmd"
    and "GetOptionalStringSlice params ''args'' = Inr args" and "GetOptionalString params ''working_dir'' = Inr wd"
    and "GetOptionalStringSlice params ''environment'' = Inr envv" and "ctxErr \<in> {Canceled, DeadlineExceeded}"
  shows "is_context_error err"
  using assms by (cases ended) (auto simp: Perform_exec_def Run_def Let_def is_context_error_def)

end
