(* ===== verification/Gxo_Tracing.thy ===== *)
theory Gxo_Tracing
  imports Gxo_Join Gxo_Redact
begin

text \<open>
  Tracing (\<open>internal/tracing\<close>): how the provider is configured from the environment, its shutdown,
  and the redaction of what spans record. The OpenTelemetry SDK is a parameter: what making an
  exporter and shutting things down return. The environment is a function from names to values,
  empty when unset.
\<close>

subsection \<open>Reading the environment\<close>

type_synonym os_env = "string \<Rightarrow> string"

definition otelServiceName :: "os_env \<Rightarrow> string" where
  "otelServiceName env = (let name = env ''OTEL_SERVICE_NAME'' in if name = [] then ''gxo'' else name)"

text \<open>\<open>strings.SplitN(s, "=", 2)\<close> when it gives two parts.\<close>

definition split_pair :: "string \<Rightarrow> (string \<times> string) option" where
  "split_pair s =
     (if CHR ''='' \<in> set s then Some (takeWhile (\<lambda>c. c \<noteq> CHR ''='') s, tl (dropWhile (\<lambda>c. c \<noteq> CHR ''='') s)) else None)"

definition parse_header :: "string \<Rightarrow> string gomap \<Rightarrow> string gomap" where
  "parse_header pair headers =
     (case split_pair (trim_space pair) of
        None \<Rightarrow> headers
      | Some (k, v) \<Rightarrow>
          (let key = trim_space k; value = trim_space v in if key \<noteq> [] then AList.update key value headers else headers))"

definition parseHeaders :: "string \<Rightarrow> string gomap" where
  "parseHeaders headerStr = (if headerStr = [] then [] else fold parse_header (split_on (CHR '','') headerStr) [])"

text \<open>Milliseconds, or a duration; the multiplication is one of 64-bit integers. Of an invalid text
  only a warning is printed.\<close>

definition parseTimeout :: "string \<Rightarrow> duration \<Rightarrow> duration" where
  "parseTimeout timeoutStr defaultTimeout =
     (if timeoutStr = [] then defaultTimeout
      else case parse_int64 timeoutStr of
        Some ms \<Rightarrow> if ms < 0 then defaultTimeout else wrap64 (ms * 1000000)
      | None \<Rightarrow>
         (case ParseDuration timeoutStr of
            Inr d \<Rightarrow> if d < 0 then defaultTimeout else d
          | Inl e \<Rightarrow> defaultTimeout))"

definition isInsecure :: "string list \<Rightarrow> bool" where
  "isInsecure flags \<longleftrightarrow> list_ex (\<lambda>flag. to_lower (trim_space flag) = ''true'') flags"

record exporter_config =
  ec_http :: bool
  ec_endpoint :: string
  ec_urlPath :: string
  ec_headers :: "string gomap"
  ec_timeout :: duration
  ec_insecure :: bool
  ec_gzip :: bool

text \<open>The configuration \<open>createExporter\<close> passes on; \<open>None\<close> is no exporter.\<close>

definition exporter_options :: "os_env \<Rightarrow> goerr + exporter_config option" where
  "exporter_options env =
     (let protocol0 = to_lower (env ''OTEL_EXPORTER_OTLP_PROTOCOL'');
          protocol = (if protocol0 = [] then ''grpc'' else protocol0);
          grpc = (protocol = ''grpc'');
          http = (protocol = ''http'' \<or> protocol = ''http/protobuf'');
          endpoint0 = env ''OTEL_EXPORTER_OTLP_ENDPOINT'';
          endpoint = (if endpoint0 \<noteq> [] then endpoint0 else if grpc then ''localhost:4317'' else ''localhost:4318'');
          path0 = env ''OTEL_EXPORTER_OTLP_TRACES_ENDPOINT'';
          config = \<lparr>ec_http = http, ec_endpoint = endpoint,
            ec_urlPath = (if grpc then [] else if path0 = [] then ''/v1/traces'' else path0),
            ec_headers = parseHeaders (env ''OTEL_EXPORTER_OTLP_HEADERS''),
            ec_timeout = parseTimeout (env ''OTEL_EXPORTER_OTLP_TIMEOUT'') 10000000000,
            ec_insecure = isInsecure [env ''OTEL_EXPORTER_OTLP_INSECURE'', env ''OTEL_EXPORTER_OTLP_TRACES_INSECURE''],
            ec_gzip = (to_lower (env ''OTEL_EXPORTER_OTLP_COMPRESSION'') = ''gzip'')\<rparr>
      in if endpoint0 = [] \<and> \<not> grpc \<and> \<not> http then Inr None
         else if grpc \<or> http then Inr (Some config)
         else Inl (PlainError (''unsupported OTLP protocol: '' @ protocol)))"

subsection \<open>The provider\<close>

text \<open>An exporter and an SDK provider are known by a number; a provider without an SDK provider is the
  no-op one.\<close>

record OtelTracerProvider =
  op_exporter :: "nat option"
  op_sdkProvider :: "nat option"

definition NewNoOpProvider :: OtelTracerProvider where
  "NewNoOpProvider = \<lparr>op_exporter = None, op_sdkProvider = None\<rparr>"

definition createExporter :: "(exporter_config \<Rightarrow> goerr + nat) \<Rightarrow> os_env \<Rightarrow> goerr + nat option" where
  "createExporter new env =
     (case exporter_options env of
        Inl err \<Rightarrow> Inl err
      | Inr None \<Rightarrow> Inr None
      | Inr (Some config) \<Rightarrow> (case new config of Inl err \<Rightarrow> Inl err | Inr e \<Rightarrow> Inr (Some e)))"

definition NewProviderFromEnv ::
    "(exporter_config \<Rightarrow> goerr + nat) \<Rightarrow> (nat \<Rightarrow> nat) \<Rightarrow> os_env \<Rightarrow> OtelTracerProvider" where
  "NewProviderFromEnv new sdk env =
     (if to_lower (env ''OTEL_SDK_DISABLED'') = ''true'' then NewNoOpProvider
      else case createExporter new env of
        Inl err \<Rightarrow> NewNoOpProvider
      | Inr None \<Rightarrow> NewNoOpProvider
      | Inr (Some e) \<Rightarrow> \<lparr>op_exporter = Some e, op_sdkProvider = Some (sdk e)\<rparr>)"

definition IsEffectivelyNoOp :: "OtelTracerProvider \<Rightarrow> bool" where
  "IsEffectivelyNoOp p \<longleftrightarrow> op_sdkProvider p = None"

text \<open>\<open>Shutdown\<close>, given what shutting down the SDK provider and the exporter return: its error and
  whether each was shut down.\<close>

definition Shutdown :: "goerr option \<Rightarrow> goerr option \<Rightarrow> OtelTracerProvider \<Rightarrow> goerr option" where
  "Shutdown sdkErr expErr p =
     (let firstError = (if op_sdkProvider p \<noteq> None then sdkErr else None)
      in if op_exporter p \<noteq> None \<and> firstError = None then expErr else firstError)"

subsection \<open>Redaction\<close>

definition RedactStringMap :: "string gomap option \<Rightarrow> string list \<Rightarrow> string gomap option" where
  "RedactStringMap input keywords =
     (if keywords = [] then input
      else map_option (map (\<lambda>(k, v). (k, if to_lower k \<in> set keywords then redacted_mark else v))) input)"

text \<open>Attributes of a span: a key and a value, of which only the text matters here.\<close>

datatype attr_value = AttrText string | AttrOther string

definition RedactAttributes :: "(string \<times> attr_value) list \<Rightarrow> string list \<Rightarrow> (string \<times> attr_value) list" where
  "RedactAttributes attrs keywords =
     (if keywords = [] \<or> attrs = [] then attrs
      else map (\<lambda>(k, v). if to_lower k \<in> set keywords then (k, AttrText redacted_mark) else (k, v)) attrs)"

text \<open>The copy of \<open>RedactSecretsInString\<close> in this package has the same statements as the other.\<close>

definition tracing_RedactSecretsInString :: "string ranger \<Rightarrow> string list \<Rightarrow> string \<Rightarrow> string" where
  "tracing_RedactSecretsInString rng keywords input =
     (if keywords = [] \<or> input = [] then input
      else let lines = split_on newline input;
               outs = map (\<lambda>(i, line). redact_line (rng i keywords) line) (List.enumerate 0 lines)
           in if \<exists>o' \<in> set outs. snd o' then join_str [newline] (map fst outs) else input)"

text \<open>What is recorded on a span: the text of the error event and of the status.\<close>

definition RecordErrorWithContext :: "string ranger \<Rightarrow> bool \<Rightarrow> goerr option \<Rightarrow> string list \<Rightarrow> string option" where
  "RecordErrorWithContext rng recording err keywords =
     (case err of
        None \<Rightarrow> None
      | Some e \<Rightarrow> if \<not> recording then None else Some (tracing_RedactSecretsInString rng keywords (Error e)))"

subsection \<open>What the configuration gives\<close>

lemma tracing_redacts_the_same: "tracing_RedactSecretsInString = RedactSecretsInString"
  by (simp add: fun_eq_iff tracing_RedactSecretsInString_def RedactSecretsInString_def)

lemma provider_noop:
  "IsEffectivelyNoOp (NewProviderFromEnv new sdk env) \<longleftrightarrow>
     to_lower (env ''OTEL_SDK_DISABLED'') = ''true'' \<or> (\<forall>e. createExporter new env \<noteq> Inr (Some e))"
  by (auto simp: NewProviderFromEnv_def IsEffectivelyNoOp_def NewNoOpProvider_def split: sum.splits option.splits)

text \<open>Without any variable set, spans are exported with gRPC over TLS to the local collector.\<close>

lemma default_exporter:
  "exporter_options (\<lambda>_. []) = Inr (Some \<lparr>ec_http = False, ec_endpoint = ''localhost:4317'', ec_urlPath = [],
     ec_headers = [], ec_timeout = 10000000000, ec_insecure = False, ec_gzip = False\<rparr>)"
  by (simp add: exporter_options_def Let_def parseHeaders_def parseTimeout_def isInsecure_def trim_space_def trim_left_def to_lower_def)

lemma parseTimeout_nonneg:
  assumes "0 \<le> d" and "\<And>ms. parse_int64 s = Some ms \<Longrightarrow> ms * 1000000 < 2 ^ 63"
  shows "0 \<le> parseTimeout s d"
proof (cases "parse_int64 s")
  case (Some ms)
  then show ?thesis using assms wrap64_id [of "ms * 1000000"] by (auto simp: parseTimeout_def in_int64_def)
next
  case None
  then show ?thesis using assms(1) by (auto simp: parseTimeout_def split: sum.splits)
qed

text \<open>A large number of milliseconds wraps around to a negative timeout.\<close>

lemma parseTimeout_overflow: "parseTimeout ''9223372036855'' 10000000000 = - 9223372036854551616"
proof -
  have "parse_int64 ''9223372036855'' = Some 9223372036855"
    by (simp add: parse_int64_def digits_value_def digit_val_def ord_char_def is_digit_def in_range_def in_int64_def)
  then show ?thesis by (simp add: parseTimeout_def wrap64_def)
qed

text \<open>Headers written as \<open>key=value\<close> with commas between them are read back.\<close>

definition header_ok :: "string \<times> string \<Rightarrow> bool" where
  "header_ok kv \<longleftrightarrow> fst kv \<noteq> [] \<and> CHR ''='' \<notin> set (fst kv) \<and> CHR '','' \<notin> set (fst kv) \<and> CHR '','' \<notin> set (snd kv) \<and>
     (\<forall>c \<in> set (fst kv) \<union> set (snd kv). \<not> is_space c)"

definition show_header :: "string \<times> string \<Rightarrow> string" where
  "show_header kv = fst kv @ ''='' @ snd kv"

lemma trim_left_id: "\<forall>c \<in> set s. \<not> is_space c \<Longrightarrow> trim_left s = s"
  by (cases s) (simp_all add: trim_left_def)

lemma trim_space_id: "\<forall>c \<in> set s. \<not> is_space c \<Longrightarrow> trim_space s = s"
  by (simp add: trim_space_def trim_left_id)

lemma parse_show_header:
  assumes "header_ok kv"
  shows "parse_header (show_header kv) headers = AList.update (fst kv) (snd kv) headers"
proof -
  have t: "trim_space (show_header kv) = show_header kv" "trim_space (fst kv) = fst kv" "trim_space (snd kv) = snd kv"
    using assms by (auto simp: header_ok_def show_header_def is_space_def in_range_def ord_char_def intro!: trim_space_id)
  have "takeWhile (\<lambda>c. c \<noteq> CHR ''='') (show_header kv) = fst kv"
    "dropWhile (\<lambda>c. c \<noteq> CHR ''='') (show_header kv) = CHR ''='' # snd kv"
    using assms by (auto simp: header_ok_def show_header_def takeWhile_append dropWhile_append)
  then have "split_pair (show_header kv) = Some (fst kv, snd kv)" by (simp add: split_pair_def show_header_def)
  with t assms show ?thesis by (cases kv) (simp add: parse_header_def header_ok_def)
qed

lemma parseHeaders_roundtrip:
  assumes "\<forall>kv \<in> set kvs. header_ok kv" and "distinct (map fst kvs)" and "kvs \<noteq> []"
  shows "parseHeaders (join_str '','' (map show_header kvs)) = kvs"
proof -
  have "CHR '','' \<notin> set (show_header kv)" if "kv \<in> set kvs" for kv
    using assms(1) that by (auto simp: header_ok_def show_header_def)
  then have s: "split_on (CHR '','') (join_str '','' (map show_header kvs)) = map show_header kvs"
    using assms(3) by (intro split_join) auto
  have "fold parse_header (map show_header xs) headers = headers @ xs"
    if "\<forall>kv \<in> set xs. header_ok kv" "distinct (map fst (headers @ xs))" for xs headers
    using that
  proof (induction xs arbitrary: headers)
    case (Cons kv xs)
    have "fst kv \<notin> set (map fst headers)" using Cons.prems(2) by auto
    then have "AList.update (fst kv) (snd kv) headers = headers @ [kv]" by (induction headers) auto
    with Cons.IH [of "headers @ [kv]"] Cons.prems show ?case by (simp add: parse_show_header)
  qed simp
  from this [of kvs "[]"] assms have "fold parse_header (map show_header kvs) [] = kvs" by simp
  moreover have "join_str '','' (map show_header kvs) \<noteq> []"
    using assms(3) by (cases kvs; cases "tl kvs") (auto simp: show_header_def)
  ultimately show ?thesis by (simp add: parseHeaders_def s)
qed

text \<open>No value under a keyword is left in the redacted attributes.\<close>

lemma RedactAttributes_hides:
  "(k, v) \<in> set (RedactAttributes attrs keywords) \<Longrightarrow> to_lower k \<in> set keywords \<Longrightarrow> v = AttrText redacted_mark"
  by (auto simp: RedactAttributes_def split: if_splits)

lemma RedactStringMap_hides:
  "RedactStringMap (Some m) keywords = Some m' \<Longrightarrow> (k, v) \<in> set m' \<Longrightarrow> to_lower k \<in> set keywords \<Longrightarrow> v = redacted_mark"
  by (auto simp: RedactStringMap_def split: if_splits)

end
