(* ===== verification/Gxo_Render.thy ===== *)
theory Gxo_Render
  imports Gxo_Template
begin

text \<open>
  Rendering with the cache of parsed templates (\<open>Render\<close>, \<open>Resolve\<close> and \<open>getOrParseTemplate\<close> of
  \<open>internal/template/template.go\<close>). Go's text/template is a parameter: parsing a text under the
  names of a function map, and executing what was parsed. Cloning a parsed template, which the
  code does on a cache hit, gives a template that executes the same and does not fail.
\<close>

subsection \<open>The operations\<close>

record 't template_lang =
  tl_parse :: "string list \<Rightarrow> string \<Rightarrow> goerr + 't"
  tl_exec :: "'t \<Rightarrow> goval \<Rightarrow> goerr + string"

type_synonym 't template_cache = "'t gomap"

definition getOrParseTemplate ::
    "'t template_lang \<Rightarrow> string list \<Rightarrow> string \<Rightarrow> 't template_cache \<Rightarrow> (goerr + 't) \<times> 't template_cache" where
  "getOrParseTemplate lang fm templateString cache =
     (case map_of cache templateString of
        Some cachedTemplate \<Rightarrow> (Inr cachedTemplate, cache)
      | None \<Rightarrow>
         (case tl_parse lang fm templateString of
            Inl parseErr \<Rightarrow> (Inl (WrapError ''template parse error: '' parseErr []), cache)
          | Inr t \<Rightarrow> (Inr t, AList.update templateString t cache)))"

definition Render ::
    "'t template_lang \<Rightarrow> bool \<Rightarrow> string \<Rightarrow> goval \<Rightarrow> 't template_cache \<Rightarrow> (goerr + string) \<times> 't template_cache" where
  "Render lang hasProvider templateString data cache =
     (case getOrParseTemplate lang (GetFuncMap hasProvider) templateString cache of
        (Inl err, cache1) \<Rightarrow> (Inl (ValidationError (''template parse error: '' @ Error err) (Some err)), cache1)
      | (Inr t, cache1) \<Rightarrow>
         (case tl_exec lang t data of
            Inl execErr \<Rightarrow> (Inl (ValidationError (''template execution error: '' @ Error execErr) (Some execErr)), cache1)
          | Inr text \<Rightarrow> (Inr text, cache1)))"

definition Resolve ::
    "'t template_lang \<Rightarrow> bool \<Rightarrow> string \<Rightarrow> goval \<Rightarrow> 't template_cache \<Rightarrow> (goerr + goval) \<times> 't template_cache" where
  "Resolve lang hasProvider templateString data cache =
     (case (case simpleVarRegex templateString of None \<Rightarrow> None | Some path \<Rightarrow>
              (case data of VMap m \<Rightarrow> lookup m path | _ \<Rightarrow> None)) of
        Some v \<Rightarrow> (Inr v, cache)
      | None \<Rightarrow>
         (case Render lang hasProvider templateString data cache of
            (Inl err, cache1) \<Rightarrow> (Inl err, cache1)
          | (Inr text, cache1) \<Rightarrow> (Inr (VStr text), cache1)))"

subsection \<open>The cache is invisible\<close>

text \<open>The arguments of the rendering without a cache, for the same language.\<close>

definition parse_err_of :: "'t template_lang \<Rightarrow> string list \<Rightarrow> string \<Rightarrow> goerr option" where
  "parse_err_of lang fm s = (case tl_parse lang fm s of Inl e \<Rightarrow> Some e | Inr t \<Rightarrow> None)"

definition exec_of :: "'t template_lang \<Rightarrow> bool \<Rightarrow> string \<Rightarrow> goval \<Rightarrow> goerr + string" where
  "exec_of lang b s data = (case tl_parse lang (GetFuncMap b) s of Inl e \<Rightarrow> Inl e | Inr t \<Rightarrow> tl_exec lang t data)"

abbreviation render_plain :: "'t template_lang \<Rightarrow> bool \<Rightarrow> string \<Rightarrow> goval \<Rightarrow> goerr + string" where
  "render_plain lang b \<equiv> RendererRender (parse_err_of lang) (exec_of lang b) b"

definition templates_ok :: "'t template_lang \<Rightarrow> bool \<Rightarrow> 't template_cache \<Rightarrow> bool" where
  "templates_ok lang b cache \<longleftrightarrow> (\<forall>s t. map_of cache s = Some t \<longrightarrow> tl_parse lang (GetFuncMap b) s = Inr t)"

lemma templates_ok_Nil [simp]: "templates_ok lang b []"
  by (simp add: templates_ok_def)

lemma getOrParse_ok:
  assumes "templates_ok lang b cache"
  shows "fst (getOrParseTemplate lang (GetFuncMap b) s cache) =
      (case tl_parse lang (GetFuncMap b) s of Inl e \<Rightarrow> Inl (WrapError ''template parse error: '' e []) | Inr t \<Rightarrow> Inr t) \<and>
    templates_ok lang b (snd (getOrParseTemplate lang (GetFuncMap b) s cache))"
  using assms by (auto simp: getOrParseTemplate_def templates_ok_def update_conv' split: option.splits sum.splits)

lemma Render_ok:
  assumes "templates_ok lang b cache"
  shows "fst (Render lang b s data cache) = render_plain lang b s data" and "templates_ok lang b (snd (Render lang b s data cache))"
  using getOrParse_ok [OF assms, of s]
  by (auto simp: Render_def RendererRender_def parse_err_of_def exec_of_def Let_def split: prod.splits sum.splits)

lemma Resolve_ok:
  assumes "templates_ok lang b cache"
  shows "fst (Resolve lang b s data cache) = RendererResolve (render_plain lang b) s data"
    and "templates_ok lang b (snd (Resolve lang b s data cache))"
proof -
  let ?v = "case simpleVarRegex s of None \<Rightarrow> None | Some path \<Rightarrow> (case data of VMap m \<Rightarrow> lookup m path | _ \<Rightarrow> None)"
  obtain r c where r: "Render lang b s data cache = (r, c)" by fastforce
  with Render_ok [OF assms, of s data] have "r = render_plain lang b s data" "templates_ok lang b c" by simp_all
  then show "fst (Resolve lang b s data cache) = RendererResolve (render_plain lang b) s data"
  proof (cases ?v)
    case None
    show ?thesis unfolding Resolve_def RendererResolve_def None r \<open>r = _\<close> by (simp split: sum.split)
  next
    case (Some v)
    show ?thesis unfolding Resolve_def RendererResolve_def Some by simp
  qed
  show "templates_ok lang b (snd (Resolve lang b s data cache))"
  proof (cases ?v)
    case None
    from \<open>templates_ok lang b c\<close> show ?thesis unfolding Resolve_def None r by (cases r) simp_all
  next
    case (Some v)
    with assms show ?thesis unfolding Resolve_def Some by simp
  qed
qed

text \<open>A run of renderings on one renderer.\<close>

fun resolve_run ::
    "'t template_lang \<Rightarrow> bool \<Rightarrow> (string \<times> goval) list \<Rightarrow> 't template_cache \<Rightarrow> (goerr + goval) list \<times> 't template_cache" where
  "resolve_run lang b [] cache = ([], cache)"
| "resolve_run lang b ((s, data) # xs) cache =
     (case Resolve lang b s data cache of (r, cache1) \<Rightarrow>
        (case resolve_run lang b xs cache1 of (rs, cache2) \<Rightarrow> (r # rs, cache2)))"

lemma resolve_run_plain:
  "templates_ok lang b cache \<Longrightarrow>
     fst (resolve_run lang b xs cache) = map (\<lambda>(s, data). RendererResolve (render_plain lang b) s data) xs"
proof (induction xs arbitrary: cache)
  case (Cons x xs)
  obtain s data where x: "x = (s, data)" by fastforce
  obtain r c where r: "Resolve lang b s data cache = (r, c)" by fastforce
  with Resolve_ok [OF Cons.prems, of s data] have "r = RendererResolve (render_plain lang b) s data" "templates_ok lang b c" by simp_all
  with Cons.IH [of c] x r show ?case by (simp add: split_beta)
qed simp

end
