(* ===== verification/Gxo_Observe.thy ===== *)
theory Gxo_Observe
  imports Gxo_TaskRun Gxo_Events
begin

text \<open>
  What a running task shows to the event bus and to the hooks (\<open>executeSingleTaskInstance\<close> of
  \<open>internal/engine/task_runner.go\<close>). Each attempt emits a start and an end event with the same
  payload map: the map is written again between the two, so the payloads are addresses in a heap.
  \<open>with_events\<close> adds the emissions to an environment of \<open>Gxo_Task\<close>; the first part shows that a task
  runs the same with them.
\<close>

subsection \<open>The events of an attempt\<close>

datatype payload_value = PVal goval | PErr "goerr option"

record ref_event =
  rv_Type :: EventType
  rv_TaskName :: string
  rv_TaskID :: string
  rv_Payload :: nat

record observed =
  ob_heap :: "(string \<times> payload_value) list list"
  ob_events :: "ref_event list"

definition nothing_observed :: observed where
  "nothing_observed = \<lparr>ob_heap = [], ob_events = []\<rparr>"

definition module_event :: "EventType \<Rightarrow> Task \<Rightarrow> nat \<Rightarrow> ref_event" where
  "module_event t task a = \<lparr>rv_Type = t, rv_TaskName = tk_Name task, rv_TaskID = tk_InternalID task, rv_Payload = a\<rparr>"

definition start_payload :: "Task \<Rightarrow> (string \<times> payload_value) list" where
  "start_payload task = [(''task_id'', PVal (VStr (tk_InternalID task))), (''task_name'', PVal (VStr (tk_Name task)))]"

definition end_payload :: "Task \<Rightarrow> goval \<Rightarrow> goerr option \<Rightarrow> (string \<times> payload_value) list" where
  "end_payload task performSummary performErr =
     AList.update ''summary'' (PVal performSummary) (AList.update ''error'' (PErr performErr) (start_payload task))"

definition observe_perform :: "Task \<Rightarrow> goval \<Rightarrow> goerr option \<Rightarrow> observed \<Rightarrow> observed" where
  "observe_perform task performSummary performErr ob =
     (let a = length (ob_heap ob);
          ob1 = \<lparr>ob_heap = ob_heap ob @ [start_payload task], ob_events = ob_events ob @ [module_event ModuleExecutionStart task a]\<rparr>
      in \<lparr>ob_heap = (ob_heap ob1)[a := end_payload task performSummary performErr],
          ob_events = ob_events ob1 @ [module_event ModuleExecutionEnd task a]\<rparr>)"

definition with_events :: "Task \<Rightarrow> 's task_env \<Rightarrow> ('s \<times> observed) task_env" where
  "with_events task env =
     \<lparr>te_ord = te_ord env, te_storeRng = te_storeRng env, te_paramRng = te_paramRng env, te_itemOrd = te_itemOrd env,
      te_opaque = te_opaque env, te_parseFloat = te_parseFloat env,
      te_render = (\<lambda>s data (u, ob). case te_render env s data u of (r, u') \<Rightarrow> (r, (u', ob))),
      te_resolve = (\<lambda>s data (u, ob). case te_resolve env s data u of (r, u') \<Rightarrow> (r, (u', ob))),
      te_tracker = (\<lambda>(u, ob). te_tracker env u), te_before = te_before env, te_registry = te_registry env,
      te_perform = (\<lambda>i attempt params inputs outs (u, ob).
        case te_perform env i attempt params inputs outs u of
          ((performSummary, performErr, errs), u') \<Rightarrow>
            ((performSummary, performErr, errs), (u', observe_perform task performSummary performErr ob))),
      te_ctxBefore = te_ctxBefore env, te_ctxWait = te_ctxWait env, te_draw = te_draw env, te_float = te_float env,
      te_keywordRng = te_keywordRng env, te_keywords = te_keywords env, te_ctxDone = te_ctxDone env\<rparr>"

subsection \<open>Hooks\<close>

text \<open>What \<open>AfterExecute\<close> is given: the summary that is returned, and \<open>finalErr\<close>, which the return for
  an unknown module does not set.\<close>

definition after_hooks ::
    "'s task_env \<Rightarrow> DAG \<Rightarrow> Task \<Rightarrow> (string \<times> goval) list \<Rightarrow> nat \<Rightarrow> ('v, 's) task_state \<Rightarrow> (goval \<times> goerr option) outcome" where
  "after_hooks env dag task scope i tx =
     (case instance_body env dag task scope i tx of
        Returns ((summary, err), tx1) \<Rightarrow>
          Returns (summary,
            if list_all (\<lambda>r. r = None) (te_before env) \<and> te_registry env (tk_Type task) \<noteq> None then None else err)
      | Blocks \<Rightarrow> Blocks
      | Panics \<Rightarrow> Panics)"

lemma find_before: "List.find (\<lambda>r. r \<noteq> None) xs = None \<longleftrightarrow> list_all (\<lambda>r. r = None) (xs :: 'a option list)"
  by (auto simp: find_None_iff list_all_iff)

text \<open>The hooks, and the span, of an instance whose module is unknown see a success.\<close>

lemma unknown_module_looks_fine:
  assumes "list_all (\<lambda>r. r = None) (te_before env)" and "te_registry env (tk_Type task) = Some err"
  shows "after_hooks env dag task scope i tx = Returns (VNil, None)"
    and "instance_body env dag task scope i tx = Returns ((VNil, Some err), tx)"
  using assms find_before [of "te_before env"] by (simp_all add: after_hooks_def instance_body_def)

subsection \<open>Retrying on a related state\<close>

lemma retry_loop_sim:
  assumes "\<And>a s. re_op env a (g s) = map_prod id g (re_op env' a s)"
    and "re_ctxBefore env = re_ctxBefore env'" "re_ctxWait env = re_ctxWait env'" "re_draw env = re_draw env'"
      "re_float env = re_float env'" "re_rng env = re_rng env'" "re_keywords env = re_keywords env'"
  shows "rs_err (retry_loop env c n a e w (g s)) = rs_err (retry_loop env' c n a e w s) \<and>
    rs_state (retry_loop env c n a e w (g s)) = g (rs_state (retry_loop env' c n a e w s))"
proof (induction n arbitrary: a e w s)
  case 0
  have "redacted env = redacted env'" by (simp add: fun_eq_iff redacted_def assms)
  then show ?case by (simp split: option.split)
next
  case (Suc n)
  have red: "redacted env = redacted env'" by (simp add: fun_eq_iff redacted_def assms)
  obtain r s1 where r: "re_op env' a s = (r, s1)" by fastforce
  with assms(1) [of a s] have r': "re_op env a (g s) = (r, g s1)" by simp
  show ?case
    using Suc.IH [of "a + 1" _ _ s1] assms(2-)
    by (simp add: r r' red retry_cancelled_def wait_cancelled_def Let_def split: option.split)
qed

lemma retry_loop_rel:
  assumes op: "\<And>a s. R s (snd (re_op env a s))" and "\<And>s. R s s" and tr: "\<And>a b c. R a b \<Longrightarrow> R b c \<Longrightarrow> R a c"
  shows "R s (rs_state (retry_loop env c n a e w s))"
proof (induction n arbitrary: a e w s)
  case (Suc n)
  obtain r s1 where r: "re_op env a s = (r, s1)" by fastforce
  with op [of s a] have "R s s1" by simp
  with tr [OF this Suc.IH] assms(2) show ?case by (auto simp: r Let_def split: option.split)
qed (simp add: assms)


subsection \<open>A task runs the same with its events\<close>

definition bare :: "('v, 's \<times> observed) task_state \<Rightarrow> ('v, 's) task_state" where
  "bare tx = \<lparr>tx_cm = tx_cm tx, tx_store = tx_store tx, tx_aggregated = tx_aggregated tx, tx_user = fst (tx_user tx)\<rparr>"

abbreviation bare_result :: "('a \<times> ('v, 's \<times> observed) task_state) outcome \<Rightarrow> ('a \<times> ('v, 's) task_state) outcome" where
  "bare_result \<equiv> map_outcome (map_prod id bare)"

lemma with_events_fields [simp]:
  "te_ord (with_events task env) = te_ord env" "te_storeRng (with_events task env) = te_storeRng env"
  "te_paramRng (with_events task env) = te_paramRng env" "te_itemOrd (with_events task env) = te_itemOrd env"
  "te_opaque (with_events task env) = te_opaque env" "te_parseFloat (with_events task env) = te_parseFloat env"
  "te_before (with_events task env) = te_before env" "te_registry (with_events task env) = te_registry env"
  "te_ctxBefore (with_events task env) = te_ctxBefore env" "te_ctxWait (with_events task env) = te_ctxWait env"
  "te_draw (with_events task env) = te_draw env" "te_float (with_events task env) = te_float env"
  "te_keywordRng (with_events task env) = te_keywordRng env" "te_keywords (with_events task env) = te_keywords env"
  "te_ctxDone (with_events task env) = te_ctxDone env"
  "te_tracker (with_events task env) uo = te_tracker env (fst uo)"
  "te_render (with_events task env) s data uo = map_prod id (\<lambda>u. (u, snd uo)) (te_render env s data (fst uo))"
  "te_resolve (with_events task env) s data uo = map_prod id (\<lambda>u. (u, snd uo)) (te_resolve env s data (fst uo))"
  by (simp_all add: with_events_def split_beta map_prod_def)

lemma bare_fields [simp]:
  "tx_cm (bare tx) = tx_cm tx" "tx_store (bare tx) = tx_store tx" "tx_aggregated (bare tx) = tx_aggregated tx"
  "tx_user (bare tx) = fst (tx_user tx)" "bare (tx\<lparr>tx_cm := cm\<rparr>) = (bare tx)\<lparr>tx_cm := cm\<rparr>"
  "bare (tx\<lparr>tx_store := st\<rparr>) = (bare tx)\<lparr>tx_store := st\<rparr>"
  "bare (tx\<lparr>tx_user := uo\<rparr>) = (bare tx)\<lparr>tx_user := fst uo\<rparr>"
  "bare (tx\<lparr>tx_aggregated := es, tx_user := uo\<rparr>) = (bare tx)\<lparr>tx_aggregated := es, tx_user := fst uo\<rparr>"
  by (simp_all add: bare_def)

lemma all_state_bare [simp]: "all_state (with_events task env) tx = all_state env (bare tx)"
  by (simp add: all_state_def)

lemma render_params_events:
  "render_params (with_events task env) data ps acc uo = map_prod id (\<lambda>u. (u, snd uo)) (render_params env data ps acc (fst uo))"
proof (induction ps arbitrary: acc uo)
  case (Cons p ps)
  obtain k v where p: "p = (k, v)" by fastforce
  show ?case
  proof (cases "\<exists>s. v = VStr s")
    case True
    then obtain s where "v = VStr s" by blast
    moreover obtain r u where "te_resolve env s data (fst uo) = (r, u)" by fastforce
    ultimately show ?thesis using Cons p by (cases r) simp_all
  next
    case False
    then show ?thesis using Cons p by (cases v) simp_all
  qed
qed simp

definition bare_op :: "('s \<times> observed) \<times> goerr option list \<times> goval \<Rightarrow> 's \<times> goerr option list \<times> goval" where
  "bare_op = map_prod fst id"

lemma perform_op_events:
  "perform_op env i ps ins outs a (bare_op st) = map_prod id bare_op (perform_op (with_events task env) i ps ins outs a st)"
proof -
  obtain u ob sent sm where st: "st = ((u, ob), sent, sm)" by (cases st) auto
  obtain s err errs u' where "te_perform env i a ps ins outs u = ((s, err, errs), u')" by (metis surj_pair)
  then show ?thesis by (simp add: st perform_op_def bare_op_def with_events_def)
qed

lemma Do_events:
  "rs_err (Do (perform_env env i ps ins outs) c (bare_op st)) = rs_err (Do (perform_env (with_events task env) i ps ins outs) c st) \<and>
   rs_state (Do (perform_env env i ps ins outs) c (bare_op st)) = bare_op (rs_state (Do (perform_env (with_events task env) i ps ins outs) c st))"
  unfolding Do_def Let_def
  by (rule retry_loop_sim) (simp_all add: perform_env_def perform_op_events)

lemma run_module_events:
  "bare_result (run_module (with_events task' env) task i ps tx) = run_module env task i ps (bare tx)"
proof -
  let ?in = "case GetInputChannelMap (tk_InternalID task) (tx_cm tx) of None \<Rightarrow> [] | Some m \<Rightarrow> m"
  let ?out = "case GetOutputManagedChannels (tk_InternalID task) (tx_cm tx) of None \<Rightarrow> [] | Some cs \<Rightarrow> cs"
  let ?r = "Do (perform_env (with_events task' env) i ps ?in ?out) (task_retry task) (tx_user tx, [], VNil)"
  obtain uo sent sm where s: "rs_state ?r = (uo, sent, sm)" by (metis surj_pair)
  have d: "rs_err (Do (perform_env env i ps ?in ?out) (task_retry task) (fst (tx_user tx), [], VNil)) = rs_err ?r"
    "rs_state (Do (perform_env env i ps ?in ?out) (task_retry task) (fst (tx_user tx), [], VNil)) = (fst uo, sent, sm)"
    using Do_events [of env i ps ?in ?out "task_retry task" "(tx_user tx, [], VNil)" task'] s by (simp_all add: bare_op_def)
  show ?thesis by (simp add: run_module_def Let_def s d split: outcome.split)
qed

lemma instance_body_events:
  "bare_result (instance_body (with_events task' env) dag task scope i tx) = instance_body env dag task scope i (bare tx)"
proof -
  let ?data = "fold (\<lambda>(k, v). AList.update k v) scope (all_state env (bare tx))"
  obtain r u where "render_params env ?data (te_paramRng env 0 (tk_Params task)) [] (fst (tx_user tx)) = (r, u)" by fastforce
  then show ?thesis
    by (cases r) (simp_all add: instance_body_def Let_def render_params_events run_module_events split: option.split)
qed

lemma executeSingle_events:
  "bare_result (executeSingleTaskInstance (with_events task' env) dag task scope i tx) =
     executeSingleTaskInstance env dag task scope i (bare tx)"
proof -
  have "instance_body env dag task scope i (bare tx) = bare_result (instance_body (with_events task' env) dag task scope i tx)"
    by (simp add: instance_body_events)
  then show ?thesis
    by (cases "instance_body (with_events task' env) dag task scope i tx")
      (auto simp: executeSingleTaskInstance_def split: option.split prod.splits)
qed

text \<open>A loop takes the same steps.\<close>

definition bare_loop :: "('v, 's \<times> observed) loop_state \<Rightarrow> ('v, 's) loop_state" where
  "bare_loop s = \<lparr>lp_pc = lp_pc s, lp_iters = lp_iters s, lp_sem = lp_sem s, lp_wg = lp_wg s, lp_ctx = lp_ctx s,
     lp_result = lp_result s, lp_trace = lp_trace s, lp_tx = bare (lp_tx s)\<rparr>"

lemma bare_loop_simps [simp]:
  "lp_pc (bare_loop s) = lp_pc s" "lp_iters (bare_loop s) = lp_iters s" "lp_sem (bare_loop s) = lp_sem s"
  "lp_wg (bare_loop s) = lp_wg s" "lp_ctx (bare_loop s) = lp_ctx s" "lp_result (bare_loop s) = lp_result s"
  "lp_trace (bare_loop s) = lp_trace s" "lp_tx (bare_loop s) = bare (lp_tx s)"
  "bare_loop (loop_start tx) = loop_start (bare tx)"
  by (simp_all add: bare_loop_def loop_start_def)

lemma bare_loop_updates [simp]:
  "bare_loop (set_iter i pc s) = set_iter i pc (bare_loop s)" "bare_loop (note_event ev s) = note_event ev (bare_loop s)"
  "bare_loop (s\<lparr>lp_pc := p\<rparr>) = (bare_loop s)\<lparr>lp_pc := p\<rparr>" "bare_loop (s\<lparr>lp_sem := k\<rparr>) = (bare_loop s)\<lparr>lp_sem := k\<rparr>"
  "bare_loop (s\<lparr>lp_wg := k\<rparr>) = (bare_loop s)\<lparr>lp_wg := k\<rparr>" "bare_loop (s\<lparr>lp_ctx := c\<rparr>) = (bare_loop s)\<lparr>lp_ctx := c\<rparr>"
  "bare_loop (s\<lparr>lp_iters := its\<rparr>) = (bare_loop s)\<lparr>lp_iters := its\<rparr>" "bare_loop (s\<lparr>lp_tx := tx\<rparr>) = (bare_loop s)\<lparr>lp_tx := bare tx\<rparr>"
  by (simp_all add: bare_loop_def set_iter_def note_event_def)

lemma loop_fire_events:
  "loop_fire env dag task items l (bare_loop s) = map_outcome bare_loop (loop_fire (with_events task' env) dag task items l s)"
proof (cases l)
  case (Perform i)
  have "executeSingleTaskInstance env dag task scope i (bare (lp_tx s)) =
      bare_result (executeSingleTaskInstance (with_events task' env) dag task scope i (lp_tx s))" for scope
    by (simp add: executeSingle_events)
  with Perform show ?thesis by (auto simp: at_iter_def split: outcome.split prod.split)
qed (auto simp: at_iter_def split: launcher.split option.split iteration.split)

lemma loop_fires_events:
  "loop_fires env dag task items ls (bare_loop s) = map_outcome bare_loop (loop_fires (with_events task' env) dag task items ls s)"
  by (induction ls arbitrary: s) (auto simp: loop_fire_events [of _ _ _ _ _ _ task'] split: outcome.split)

lemma run_loop_events:
  "bare_result (run_loop (with_events task' env) dag task items ls tx) = run_loop env dag task items ls (bare tx)"
  using loop_fires_events [of env dag task items ls "loop_start tx" task']
  by (auto simp: run_loop_def split: outcome.split)

lemma check_when_events:
  "check_when env task (bare tx) = map_prod id bare (check_when (with_events task' env) task tx)"
proof -
  obtain r u where "te_render env (tk_When task) (all_state env (bare tx)) (fst (tx_user tx)) = (r, u)" by fastforce
  then show ?thesis by (cases r) (simp_all add: check_when_def)
qed

lemma resolveLoopItems_events:
  "resolveLoopItems (with_events task' env) loop data uo = map_prod id (\<lambda>u. (u, snd uo)) (resolveLoopItems env loop data (fst uo))"
proof (cases "\<exists>s. loop = VStr s")
  case True
  then obtain s where "loop = VStr s" by blast
  moreover obtain r u where "te_resolve env s data (fst uo) = (r, u)" by fastforce
  ultimately show ?thesis by (cases r) (simp_all add: resolveLoopItems_def)
next
  case False
  then show ?thesis by (cases loop) (simp_all add: resolveLoopItems_def)
qed

lemma register_result_events:
  "register_result env task r (bare tx) = map_prod id bare (register_result (with_events task' env) task r tx)"
  by (cases r) (simp add: register_result_def Let_def)

lemma task_body_events:
  "bare_result (task_body (with_events task' env) dag task ls tx) = task_body env dag task ls (bare tx)"
proof -
  obtain r tx1 where w: "check_when (with_events task' env) task tx = (r, tx1)" by fastforce
  then have w': "check_when env task (bare tx) = (r, bare tx1)" using check_when_events [of env task tx task'] by simp
  obtain l u where l: "resolveLoopItems env (tk_Loop task) (all_state env (bare tx1)) (fst (tx_user tx1)) = (l, u)" by fastforce
  then have l': "resolveLoopItems (with_events task' env) (tk_Loop task) (all_state env (bare tx1)) (tx_user tx1) = (l, (u, snd (tx_user tx1)))"
    by (simp add: resolveLoopItems_events)
  let ?tx2 = "tx1\<lparr>tx_user := (u, snd (tx_user tx1))\<rparr>"
  have reg: "bare_result (case x of Returns (r, tx2) \<Rightarrow> Returns (register_result (with_events task' env) task r tx2)
      | Blocks \<Rightarrow> Blocks | Panics \<Rightarrow> Panics) =
    (case bare_result x of Returns (r, tx2) \<Rightarrow> Returns (register_result env task r tx2) | Blocks \<Rightarrow> Blocks | Panics \<Rightarrow> Panics)"
    for x by (cases x) (auto simp: register_result_events [of env task _ _ task'])
  show ?thesis
  proof (cases r)
    case (Some e)
    with w w' show ?thesis by (simp add: task_body_def)
  next
    case None
    show ?thesis
    proof (cases l)
      case (Inl e)
      with None w w' l l' show ?thesis by (simp add: task_body_def)
    next
      case (Inr xs)
      note one = reg [of "executeSingleTaskInstance (with_events task' env) dag task [] 0 ?tx2"]
      note many = reg [of "run_loop (with_events task' env) dag task xs ls ?tx2"]
      from Inr None w w' l l' one many show ?thesis
        by (simp add: task_body_def executeSingle_events run_loop_events)
    qed
  qed
qed

text \<open>Whatever the events are, the task returns the same and leaves the same channels, store, errors
  and tracker.\<close>

lemma ExecuteTask_events:
  "bare_result (ExecuteTask (with_events task' env) dag task ls tx) = ExecuteTask env dag task ls (bare tx)"
proof -
  have "task_body env dag task ls (bare tx) = bare_result (task_body (with_events task' env) dag task ls tx)"
    by (simp add: task_body_events)
  then show ?thesis
    by (cases "task_body (with_events task' env) dag task ls tx") (auto simp: ExecuteTask_def split: option.split prod.splits)
qed

subsection \<open>What a task does to its user state\<close>

text \<open>A preorder that every call of the renderer and of the module respects relates the state before a
  task to the state after it.\<close>

locale user_relation =
  fixes env :: "'s task_env" and R :: "'s \<Rightarrow> 's \<Rightarrow> bool"
  assumes R_refl: "R u u" and R_trans: "R a b \<Longrightarrow> R b c \<Longrightarrow> R a c"
    and render: "R u (snd (te_render env s data u))" and resolve: "R u (snd (te_resolve env s data u))"
    and perform: "R u (snd (te_perform env i attempt params inputs outs u))"
begin

lemma render_params_rel: "R u (snd (render_params env data ps acc u))"
proof (induction ps arbitrary: acc u)
  case (Cons p ps)
  obtain k v where p: "p = (k, v)" by fastforce
  show ?case
  proof (cases "\<exists>s. v = VStr s")
    case True
    then obtain s where s: "v = VStr s" by blast
    obtain r u1 where r: "te_resolve env s data u = (r, u1)" by fastforce
    then have "R u u1" using resolve [of u s data] by simp
    show ?thesis
    proof (cases r)
      case (Inl e)
      with \<open>R u u1\<close> r s p show ?thesis by simp
    next
      case (Inr w)
      with R_trans [OF \<open>R u u1\<close> Cons.IH] r s p show ?thesis by simp
    qed
  next
    case False
    with Cons.IH p show ?thesis by (cases v) auto
  qed
qed (simp add: R_refl)

lemma Do_rel: "R (fst st) (fst (rs_state (Do (perform_env env i ps ins outs) c st)))"
proof -
  have "R (fst st) (fst (snd (perform_op env i ps ins outs a st)))" for a and st :: "'s \<times> goerr option list \<times> goval"
    using perform [of "fst st" i a ps ins outs] by (simp add: perform_op_def split: prod.split) force
  then show ?thesis unfolding Do_def Let_def
    by (intro retry_loop_rel [where R = "\<lambda>a b. R (fst a) (fst b)"]) (auto simp: perform_env_def R_refl intro: R_trans)
qed

lemma run_module_rel:
  assumes "run_module env task i ps tx = Returns (r, tx')"
  shows "R (tx_user tx) (tx_user tx')"
proof -
  define ins where "ins = (case GetInputChannelMap (tk_InternalID task) (tx_cm tx) of None \<Rightarrow> [] | Some m \<Rightarrow> m)"
  define outs where "outs = (case GetOutputManagedChannels (tk_InternalID task) (tx_cm tx) of None \<Rightarrow> [] | Some cs \<Rightarrow> cs)"
  define res where "res = Do (perform_env env i ps ins outs) (task_retry task) (tx_user tx, [], VNil)"
  obtain u sent sm where s: "rs_state res = (u, sent, sm)" by (metis surj_pair)
  have "R (tx_user tx) u" using Do_rel [of "(tx_user tx, [], VNil)" i ps ins outs "task_retry task"] s by (simp add: res_def)
  moreover have "tx_user tx' = u"
    using assms unfolding run_module_def Let_def ins_def [symmetric] outs_def [symmetric] res_def [symmetric] s
    by (auto split: if_splits outcome.splits)
  ultimately show ?thesis by simp
qed

lemma instance_body_rel:
  assumes "instance_body env dag task scope i tx = Returns (r, tx')"
  shows "R (tx_user tx) (tx_user tx')"
proof -
  let ?data = "fold (\<lambda>(k, v). AList.update k v) scope (all_state env tx)"
  obtain p u where p: "render_params env ?data (te_paramRng env 0 (tk_Params task)) [] (tx_user tx) = (p, u)" by fastforce
  then have u: "R (tx_user tx) u" using render_params_rel [of "tx_user tx" ?data "te_paramRng env 0 (tk_Params task)" "[]"] by simp
  have "tx' = tx \<or> tx_user tx' = u \<or> (\<exists>ps. run_module env task i ps (tx\<lparr>tx_user := u\<rparr>) = Returns (r, tx'))"
    using assms p by (auto simp: instance_body_def Let_def split: option.splits sum.splits)
  then consider "tx' = tx" | "tx_user tx' = u" | ps where "run_module env task i ps (tx\<lparr>tx_user := u\<rparr>) = Returns (r, tx')" by blast
  then show ?thesis
  proof cases
    case (3 ps)
    then have "R u (tx_user tx')" using run_module_rel by fastforce
    with u show ?thesis by (rule R_trans)
  qed (use u R_refl in simp_all)
qed

lemma executeSingle_rel:
  assumes "executeSingleTaskInstance env dag task scope i tx = Returns (r, tx')"
  shows "R (tx_user tx) (tx_user tx')"
proof -
  obtain r1 tx1 where "instance_body env dag task scope i tx = Returns (r1, tx1)" "tx_user tx' = tx_user tx1"
    using assms by (auto simp: executeSingleTaskInstance_def split: outcome.splits if_splits option.splits)
  with instance_body_rel show ?thesis by metis
qed

lemma run_loop_rel: "run_loop env dag task items ls tx = Returns (r', tx') \<Longrightarrow> R (tx_user tx) (tx_user tx')"
  by (rule loop_keeps [where R = "\<lambda>t t'. R (tx_user t) (tx_user t')"]) (auto intro: executeSingle_rel R_refl R_trans)

lemma check_when_rel: "R (tx_user tx) (tx_user (snd (check_when env task tx)))"
proof -
  obtain r u where "te_render env (tk_When task) (all_state env tx) (tx_user tx) = (r, u)" by fastforce
  with render [of "tx_user tx" "tk_When task" "all_state env tx"] R_refl show ?thesis by (cases r) (simp_all add: check_when_def)
qed

lemma resolveLoopItems_rel: "R u (snd (resolveLoopItems env loop data u))"
proof (cases "\<exists>s. loop = VStr s")
  case True
  then obtain s where s: "loop = VStr s" by blast
  obtain r u1 where "te_resolve env s data u = (r, u1)" by fastforce
  with resolve [of u s data] s show ?thesis by (cases r) (simp_all add: resolveLoopItems_def)
qed (cases loop; simp add: resolveLoopItems_def R_refl)

lemma task_body_rel:
  assumes "task_body env dag task ls tx = Returns (r, tx')"
  shows "R (tx_user tx) (tx_user tx')"
proof -
  obtain w tx1 where w: "check_when env task tx = (w, tx1)" by fastforce
  then have tx1: "R (tx_user tx) (tx_user tx1)" using check_when_rel [of tx task] by simp
  obtain l u where l: "resolveLoopItems env (tk_Loop task) (all_state env tx1) (tx_user tx1) = (l, u)" by fastforce
  then have "R (tx_user tx1) u" using resolveLoopItems_rel [of "tx_user tx1" "tk_Loop task" "all_state env tx1"] by simp
  with tx1 have u: "R (tx_user tx) u" by (rule R_trans)
  have reg: "tx_user (snd (register_result env task r2 tx2)) = tx_user tx2" for r2 and tx2 :: "('a, 's) task_state"
    by (cases r2) (simp add: register_result_def Let_def)
  define x where "x = (if projr l \<noteq> [] then run_loop env dag task (projr l) ls (tx1\<lparr>tx_user := u\<rparr>)
      else executeSingleTaskInstance env dag task [] 0 (tx1\<lparr>tx_user := u\<rparr>))"
  have x: "R u (tx_user tx2)" if "x = Returns (r2, tx2)" for r2 tx2
    using that run_loop_rel [of dag task "projr l" ls "tx1\<lparr>tx_user := u\<rparr>" r2 tx2]
      executeSingle_rel [of dag task "[]" 0 "tx1\<lparr>tx_user := u\<rparr>" r2 tx2] by (auto simp: x_def split: if_splits)
  consider "tx' = tx1" | "tx_user tx' = u" | r2 tx2 where "x = Returns (r2, tx2)" "tx' = snd (register_result env task r2 tx2)"
  proof (cases w)
    case (Some e)
    with assms w that show ?thesis by (simp add: task_body_def)
  next
    case None
    show ?thesis
    proof (cases l)
      case (Inl e)
      with assms w l None have "tx1\<lparr>tx_user := u\<rparr> = tx'" by (simp add: task_body_def)
      then show ?thesis using that(2) by auto
    next
      case (Inr items)
      show ?thesis
      proof (cases "tk_Loop task \<noteq> VNil \<and> items = []")
        case True
        with assms w l None Inr have "tx1\<lparr>tx_user := u\<rparr> = tx'" by (simp add: task_body_def)
        then show ?thesis using that(2) by auto
      next
        case False
        then have "(case x of Returns (r, tx2) \<Rightarrow> Returns (register_result env task r tx2) | Blocks \<Rightarrow> Blocks | Panics \<Rightarrow> Panics) = Returns (r, tx')"
          using assms w l None Inr by (cases "items = []"; cases "tk_Loop task = VNil") (simp_all add: task_body_def x_def)
        with that show ?thesis by (cases x) auto
      qed
    qed
  qed
  then show ?thesis
  proof cases
    case (3 r2 tx2)
    with x [of r2 tx2] u R_trans show ?thesis by (simp add: reg)
  qed (use tx1 u in simp_all)
qed

lemma ExecuteTask_rel:
  assumes "ExecuteTask env dag task ls tx = Returns (r, tx')"
  shows "R (tx_user tx) (tx_user tx')"
proof -
  obtain r1 tx1 where "task_body env dag task ls tx = Returns (r1, tx1)" "tx_user tx' = tx_user tx1"
    using assms by (auto simp: ExecuteTask_def split: outcome.splits option.splits)
  with task_body_rel show ?thesis by metis
qed

end

subsection \<open>The events of a task\<close>

definition observe_all :: "Task \<Rightarrow> (goval \<times> goerr option) list \<Rightarrow> observed \<Rightarrow> observed" where
  "observe_all task rs = fold (\<lambda>(summary, err). observe_perform task summary err) rs"

definition events_grow :: "Task \<Rightarrow> 's \<times> observed \<Rightarrow> 's \<times> observed \<Rightarrow> bool" where
  "events_grow task uo uo' \<longleftrightarrow> (\<exists>rs. snd uo' = observe_all task rs (snd uo))"

interpretation task_events: user_relation "with_events task env" "events_grow task" for task env
proof unfold_locales
  show "events_grow task a b \<Longrightarrow> events_grow task b c \<Longrightarrow> events_grow task a c" for a b c :: "'a \<times> observed"
    unfolding events_grow_def observe_all_def by (metis comp_apply fold_append)
  show "events_grow task u u" for u :: "'a \<times> observed"
    unfolding events_grow_def observe_all_def by (intro exI [of _ "[]"]) simp
  show "events_grow task u (snd (te_render (with_events task env) s data u))"
    and "events_grow task u (snd (te_resolve (with_events task env) s data u))" for u s data
    unfolding events_grow_def observe_all_def by (intro exI [of _ "[]"], simp)+
  show "events_grow task u (snd (te_perform (with_events task env) i attempt params inputs outs u))" for i attempt params inputs outs u
  proof -
    obtain v ob where u: "u = (v, ob)" by fastforce
    obtain s err errs v' where "te_perform env i attempt params inputs outs v = ((s, err, errs), v')" by (metis surj_pair)
    then show ?thesis unfolding events_grow_def observe_all_def u
      by (intro exI [of _ "[(s, err)]"]) (simp add: with_events_def)
  qed
qed

text \<open>All attempts together: a start and an end event for each, with one payload, as it is after the
  attempt.\<close>

lemma observe_all_nothing:
  "observe_all task rs nothing_observed =
     \<lparr>ob_heap = map (\<lambda>(summary, err). end_payload task summary err) rs,
      ob_events = concat (map (\<lambda>a. [module_event ModuleExecutionStart task a, module_event ModuleExecutionEnd task a]) [0 ..< length rs])\<rparr>"
proof (induction rs rule: rev_induct)
  case (snoc x rs)
  obtain s err where "x = (s, err)" by fastforce
  with snoc show ?case by (simp add: observe_all_def observe_perform_def Let_def list_update_append)
qed (simp add: observe_all_def nothing_observed_def)

lemma task_events_paired:
  assumes run: "ExecuteTask (with_events task env) dag task ls tx = Returns (r, tx')" and new: "snd (tx_user tx) = nothing_observed"
  obtains rs where "ob_heap (snd (tx_user tx')) = map (\<lambda>(summary, err). end_payload task summary err) rs"
    and "ob_events (snd (tx_user tx')) =
      concat (map (\<lambda>a. [module_event ModuleExecutionStart task a, module_event ModuleExecutionEnd task a]) [0 ..< length rs])"
  using task_events.ExecuteTask_rel [OF run] new that by (auto simp: events_grow_def observe_all_nothing)

subsection \<open>An example\<close>

definition ex_observed_state :: "(unit, SecretTracker \<times> observed) task_state" where
  "ex_observed_state = \<lparr>tx_cm = ex_plain_cm, tx_store = NewMemoryStateStore, tx_aggregated = [],
     tx_user = (NewSecretTracker, nothing_observed)\<rparr>"

lemma ex_observed_bare: "bare ex_observed_state = ex_task_state ex_plain_cm"
  by (simp add: ex_observed_state_def bare_def ex_task_state_def)

lemma ex_observed_run:
  obtains r tx' where "ExecuteTask (with_events ex_task ex_task_env) [] ex_task [] ex_observed_state = Returns (r, tx')"
proof -
  have "bare_result (ExecuteTask (with_events ex_task ex_task_env) [] ex_task [] ex_observed_state) =
      ExecuteTask ex_task_env [] ex_task [] (ex_task_state ex_plain_cm)"
    by (simp add: ExecuteTask_events ex_observed_bare)
  with ex_execute that show thesis by (cases "ExecuteTask (with_events ex_task ex_task_env) [] ex_task [] ex_observed_state") auto
qed

end
