(* ===== verification/Gxo_Providers.thy ===== *)
theory Gxo_Providers
  imports Gxo_Secrets Gxo_Load Gxo_Instance
begin

text \<open>
  The small services of the program: the environment as a source of secrets
  (\<open>internal/secrets/env_provider.go\<close>) with the contract of a provider, the Prometheus registry
  provider (\<open>internal/metrics/provider.go\<close>), the embedded schema that is compiled once
  (\<open>internal/config/schema.go\<close>), and the view of the state and the hook data a task instance has
  (\<open>internal/engine/task_runner.go\<close>).
\<close>

subsection \<open>Secrets from the environment\<close>

text \<open>\<open>os.LookupEnv\<close> on the process environment; a variable may be set to the empty text.\<close>

definition EnvProvider_GetSecret :: "string gomap \<Rightarrow> string \<Rightarrow> string \<times> bool \<times> goerr option" where
  "EnvProvider_GetSecret environ key =
     (case map_of environ key of Some value' \<Rightarrow> (value', True, None) | None \<Rightarrow> ([], False, None))"

text \<open>How the template function reads the three results of a provider.\<close>

definition provider_answer :: "string \<times> bool \<times> goerr option \<Rightarrow> goerr + string option" where
  "provider_answer r =
     (case r of (secretValue, found, err) \<Rightarrow>
        (case err of Some e \<Rightarrow> Inl e | None \<Rightarrow> Inr (if found then Some secretValue else None)))"

text \<open>The contract of a provider that cannot fail, as the interface documents it: the set of its
  keys, and an empty text for every other key.\<close>

locale secret_source =
  fixes GetSecret :: "string \<Rightarrow> string \<times> bool \<times> goerr option"
    and holds_key :: "string \<Rightarrow> bool"
  assumes found_iff: "fst (snd (GetSecret k)) = holds_key k"
    and absent_empty: "\<not> holds_key k \<Longrightarrow> fst (GetSecret k) = []"
    and no_error: "snd (snd (GetSecret k)) = None"
begin

definition value_of :: "string \<Rightarrow> string" where
  "value_of k = fst (GetSecret k)"

lemma answer: "provider_answer (GetSecret k) = Inr (if holds_key k then Some (value_of k) else None)"
  using found_iff [of k] no_error [of k] by (cases "GetSecret k") (auto simp: provider_answer_def value_of_def)

lemma secret_found:
  assumes "holds_key k"
  shows "createSecretFunc (\<lambda>k. provider_answer (GetSecret k)) emits k s =
    (Inr (value_of k), (if emits then s\<lparr>se_accessed := se_accessed s @ [k]\<rparr> else s)
       \<lparr>se_tracker := map_option (tracker_Add (value_of k)) (se_tracker s)\<rparr>)"
  using assms by (simp add: createSecretFunc_def answer)

lemma secret_absent:
  assumes "\<not> holds_key k"
  shows "createSecretFunc (\<lambda>k. provider_answer (GetSecret k)) emits k s =
    (Inl (PlainError (''secret '' @ sq @ k @ sq @ '' not found'')), s)"
  using assms by (simp add: createSecretFunc_def answer)

text \<open>A task that resolves several keys tracks every value it got; the first key without a value
  stops it.\<close>

lemma resolve_all:
  "resolve_secrets (\<lambda>k. provider_answer (GetSecret k)) emits ks s =
     (case List.find (\<lambda>k. \<not> holds_key k) ks of
        None \<Rightarrow> (Inr (map value_of ks), s\<lparr>se_accessed := se_accessed s @ (if emits then ks else []),
                   se_tracker := map_option (fold tracker_Add (map value_of ks)) (se_tracker s)\<rparr>)
      | Some k \<Rightarrow>
          (Inl (PlainError (''secret '' @ sq @ k @ sq @ '' not found'')),
           s\<lparr>se_accessed := se_accessed s @ (if emits then takeWhile holds_key ks else []),
             se_tracker := map_option (fold tracker_Add (map value_of (takeWhile holds_key ks))) (se_tracker s)\<rparr>))"
proof (induction ks arbitrary: s)
  case Nil
  then show ?case by (cases "se_tracker s") simp_all
next
  case (Cons k ks)
  show ?case
  proof (cases "holds_key k")
    case True
    then show ?thesis
      by (cases "se_tracker s") (simp_all add: secret_found Cons.IH split: option.split)
  next
    case False
    then show ?thesis by (cases "se_tracker s") (simp_all add: secret_absent)
  qed
qed

end

interpretation env: secret_source "EnvProvider_GetSecret environ" "\<lambda>k. map_of environ k \<noteq> None" for environ
  by unfold_locales (auto simp: EnvProvider_GetSecret_def split: option.splits)

text \<open>A variable that is set to the empty text resolves without an error and is not tracked.\<close>

lemma empty_variable:
  assumes "map_of environ k = Some []"
  shows "createSecretFunc (\<lambda>k. provider_answer (EnvProvider_GetSecret environ k)) False k s = (Inr [], s)"
  using env.secret_found [of environ k False s] assms
  by (cases "se_tracker s") (simp_all add: env.value_of_def EnvProvider_GetSecret_def tracker_Add_def)

subsection \<open>The metrics provider\<close>

text \<open>Registries by address: the constructor makes a new, empty one.\<close>

record PrometheusRegistryProvider =
  pr_registry :: nat

definition NewPrometheusRegistryProvider :: "'reg \<Rightarrow> 'reg list \<Rightarrow> PrometheusRegistryProvider \<times> 'reg list" where
  "NewPrometheusRegistryProvider empty_registry regs = (\<lparr>pr_registry = length regs\<rparr>, regs @ [empty_registry])"

definition Registry :: "PrometheusRegistryProvider \<Rightarrow> nat" where
  "Registry p = pr_registry p"

text \<open>Two providers never share a registry, so what one registers does not clash with the other.\<close>

lemma registry_of_new:
  assumes "NewPrometheusRegistryProvider e regs = (p, regs1)" and "NewPrometheusRegistryProvider e (regs1[Registry p := r]) = (p', regs2)"
  shows "Registry p \<noteq> Registry p' \<and> regs2 ! Registry p = r \<and> regs2 ! Registry p' = e"
  using assms by (auto simp: NewPrometheusRegistryProvider_def Registry_def nth_append)

subsection \<open>The embedded schema\<close>

text \<open>\<open>schemaOnce\<close>, \<open>schemaV1\<close> and \<open>schemaErr\<close>; \<open>compile\<close> is the schema library.\<close>

record 'schema schema_vars =
  sv_once :: bool
  sv_schema :: "'schema option"
  sv_err :: "goerr option"

definition schema_vars_start :: "'schema schema_vars" where
  "schema_vars_start = \<lparr>sv_once = False, sv_schema = None, sv_err = None\<rparr>"

definition loadSchema ::
    "string \<Rightarrow> (string \<Rightarrow> 'schema option \<times> goerr option) \<Rightarrow> 'schema schema_vars \<Rightarrow>
     ('schema option \<times> goerr option) \<times> 'schema schema_vars" where
  "loadSchema schemaV1Bytes compile sv =
     (let sv' =
        (if sv_once sv then sv
         else if schemaV1Bytes = [] then
           sv\<lparr>sv_once := True, sv_err := Some (ConfigError (''embedded schema '' @ sq @ ''gxo_schema_v1.0.0.json'' @ sq @
                '' is empty or not found (ensure file exists in internal/config/)'') None)\<rparr>
         else (case compile schemaV1Bytes of
             (schema, None) \<Rightarrow> sv\<lparr>sv_once := True, sv_schema := schema, sv_err := None\<rparr>
           | (schema, Some e) \<Rightarrow> sv\<lparr>sv_once := True, sv_schema := schema,
               sv_err := Some (ConfigError (''failed to compile embedded schema '' @ sq @ ''gxo_schema_v1.0.0.json'' @ sq) (Some e))\<rparr>))
      in ((sv_schema sv', sv_err sv'), sv'))"

text \<open>Every call returns what the first returned, whatever the library would say later, and an error
  of loading is a \<open>ConfigError\<close>.\<close>

lemma loadSchema_once:
  assumes "loadSchema bytes compile sv = (r, sv')"
  shows "loadSchema bytes' compile' sv' = (r, sv')"
proof -
  have "sv_once sv'" using assms by (auto simp: loadSchema_def Let_def split: option.splits prod.splits)
  moreover have "r = (sv_schema sv', sv_err sv')" using assms unfolding loadSchema_def Let_def
    by (elim Pair_inject) (hypsubst, rule refl)
  ultimately show ?thesis by (simp add: loadSchema_def)
qed

lemma loadSchema_error:
  assumes "loadSchema bytes compile schema_vars_start = ((schema, Some e), sv')"
  shows "\<exists>m c. e = ConfigError m c"
  using assms by (auto simp: loadSchema_def schema_vars_start_def Let_def split: if_splits option.splits prod.splits)

subsection \<open>What an instance sees\<close>

text \<open>The state as a module reads it. The branch for the unsafe access mode is empty.\<close>

definition policy_Get :: "copy_order \<Rightarrow> string \<Rightarrow> string \<Rightarrow> MemoryStateStore \<Rightarrow> goval \<times> bool" where
  "policy_Get ord accessMode key store =
     (case store_Get ord key store of
        None \<Rightarrow> (VNil, False)
      | Some v \<Rightarrow> if accessMode = StateAccessUnsafeDirectReference then (v, True) else (v, True))"

lemma access_mode_ignored: "policy_Get ord accessMode key store = policy_Get ord StateAccessDeepCopy key store"
  by (simp add: policy_Get_def split: option.split)

text \<open>The context of an instance carries the values its hooks exchange, over keys of a comparable type.\<close>

record 'k taskExecutionContext =
  ec_task :: Task
  ec_hookData :: "('k \<times> goval) list"

definition newExecutionContext :: "Task \<Rightarrow> 'k taskExecutionContext" where
  "newExecutionContext task = \<lparr>ec_task = task, ec_hookData = []\<rparr>"

definition context_Get :: "'k \<Rightarrow> 'k taskExecutionContext \<Rightarrow> goval" where
  "context_Get key c = (case map_of (ec_hookData c) key of Some v \<Rightarrow> v | None \<Rightarrow> VNil)"

definition context_Set :: "'k \<Rightarrow> goval \<Rightarrow> 'k taskExecutionContext \<Rightarrow> 'k taskExecutionContext" where
  "context_Set key v c = c\<lparr>ec_hookData := AList.update key v (ec_hookData c)\<rparr>"

lemma context_last_set:
  "context_Get k (fold (\<lambda>(k, v). context_Set k v) ws (newExecutionContext task)) =
     (case map_of (rev ws) k of Some v \<Rightarrow> v | None \<Rightarrow> VNil)"
proof -
  have "map_of (ec_hookData (fold (\<lambda>(k, v). context_Set k v) ws c)) = map_of (ec_hookData c) ++ map_of (rev ws)" for c
    by (induction ws arbitrary: c) (auto simp: context_Set_def map_add_def fun_eq_iff split: option.splits)
  then show ?thesis by (simp add: context_Get_def newExecutionContext_def)
qed

end
