(* ===== verification/Gxo_Pipeline.thy ===== *)
theory Gxo_Pipeline
  imports Gxo_RunExamples
begin

text \<open>
  Behaviours of the worker pool. A task that runs for longer than the stall policy tolerates
  while nothing else ends is taken for a stall, and the run is cancelled. And a run together with
  the records of one stream: the producer's sends block while the channel is full, so with one
  worker a stream longer than its channel never gets through; and the stream of a producer that is
  skipped is never closed, so its consumer never completes.
\<close>

subsection \<open>Long tasks\<close>

definition one_tick :: "label list" where
  "one_tick = [LTick, LStep, LStep, LStep]"

fun ticks :: "nat \<Rightarrow> label list" where
  "ticks 0 = []"
| "ticks (Suc k) = one_tick @ ticks k"

lemma fires_append: "fires cfg (ls @ ls') e = Option.bind (fires cfg ls e) (fires cfg ls')"
  by (induction ls arbitrary: e) (auto split: option.split)

lemma count_terminal_cong: "en_statuses e' = en_statuses e \<Longrightarrow> countTerminalTasks cfg e' = countTerminalTasks cfg e"
proof -
  assume "en_statuses e' = en_statuses e"
  then have "status_is is_terminal e' = status_is is_terminal e" by (simp add: status_is_def fun_eq_iff)
  then show ?thesis by (simp add: countTerminalTasks_def)
qed

text \<open>A tick while some worker is active and some task is not done.\<close>

lemma one_tick_active:
  assumes "looping cfg e" and "en_active e \<noteq> 0" and "countTerminalTasks cfg e < int (total_tasks cfg)"
  shows "fires cfg one_tick e = Some (tick_decision cfg (countTerminalTasks cfg e) (en_active e) (countRunnablePendingTasks cfg e)
    (e\<lparr>en_accounted := countTerminalTasks cfg e,
       en_sched := STick3 (countTerminalTasks cfg e) (en_active e) (countRunnablePendingTasks cfg e)\<rparr>))"
proof -
  have r: "countRunnablePendingTasks cfg (e\<lparr>en_accounted := k, en_sched := sp\<rparr>) = countRunnablePendingTasks cfg e" for k sp
    by (simp add: countRunnablePendingTasks_def isTaskReady_def)
  show ?thesis using assms by (simp add: one_tick_def fire_def looping_def r)
qed

definition cancelled_as_stalled :: "engine \<Rightarrow> bool" where
  "cancelled_as_stalled e \<longleftrightarrow> en_sched e = SWait \<and> en_firstFatal e \<noteq> None \<and> en_ctxErr e \<noteq> None"

lemma ticks_without_progress:
  assumes "looping cfg e" and "en_active e \<noteq> 0" and "countTerminalTasks cfg e < int (total_tasks cfg)"
    and "en_lastAccounted e = countTerminalTasks cfg e" and "d = nat (rc_tolerance cfg - en_stallChecks e)" and "0 < d"
  shows "\<exists>e'. fires cfg (ticks d) e = Some e' \<and> cancelled_as_stalled e' \<and>
    en_statuses e' = en_statuses e \<and> en_workers e' = en_workers e"
  using assms
proof (induction d arbitrary: e)
  case (Suc d)
  let ?n = "countTerminalTasks cfg e"
  let ?e = "e\<lparr>en_accounted := ?n, en_sched := STick3 ?n (en_active e) (countRunnablePendingTasks cfg e)\<rparr>"
  have tick: "fires cfg one_tick e = Some (tick_decision cfg ?n (en_active e) (countRunnablePendingTasks cfg e) ?e)"
    by (rule one_tick_active) (use Suc.prems in simp_all)
  show ?case
  proof (cases d)
    case 0
    then have "rc_tolerance cfg \<le> en_stallChecks e + 1" using Suc.prems(5) by simp
    then have "tick_decision cfg ?n (en_active e) (countRunnablePendingTasks cfg e) ?e =
        cancelRun (note_fatal stalled_error (?e\<lparr>en_stallChecks := en_stallChecks e + 1, en_sched := SWait\<rparr>))"
      using Suc.prems(2,4) by (simp add: tick_decision_def Let_def)
    with tick 0 show ?thesis
      by (simp add: fires_append cancelled_as_stalled_def cancelRun_def note_fatal_def)
  next
    case (Suc d')
    let ?e1 = "?e\<lparr>en_stallChecks := en_stallChecks e + 1, en_lastAccounted := ?n, en_sched := SLoop\<rparr>"
    have "\<not> rc_tolerance cfg \<le> en_stallChecks e + 1" using Suc.prems(5) \<open>d = Suc d'\<close> by simp
    then have step: "tick_decision cfg ?n (en_active e) (countRunnablePendingTasks cfg e) ?e = ?e1"
      using Suc.prems(2,4) by (simp add: tick_decision_def Let_def)
    have n: "countTerminalTasks cfg ?e1 = ?n" by (rule count_terminal_cong) simp
    have "\<exists>e'. fires cfg (ticks d) ?e1 = Some e' \<and> cancelled_as_stalled e' \<and>
        en_statuses e' = en_statuses ?e1 \<and> en_workers e' = en_workers ?e1"
    proof (rule Suc.IH)
      show "looping cfg ?e1" using Suc.prems(3) by (simp add: looping_def)
    qed (use Suc.prems n \<open>d = Suc d'\<close> in simp_all)
    with tick step show ?thesis by (auto simp: fires_append)
  qed
qed simp

lemma long_task_is_stalled:
  assumes "looping cfg e" and "en_active e \<noteq> 0" and "countTerminalTasks cfg e < int (total_tasks cfg)"
    and "0 < rc_tolerance cfg" and "0 \<le> en_stallChecks e"
  shows "\<exists>k e'. int k \<le> rc_tolerance cfg + 1 \<and> fires cfg (ticks k) e = Some e' \<and> cancelled_as_stalled e' \<and>
    en_statuses e' = en_statuses e \<and> en_workers e' = en_workers e"
proof (cases "en_lastAccounted e = countTerminalTasks cfg e")
  case True
  show ?thesis
  proof (cases "en_stallChecks e < rc_tolerance cfg")
    case lt: True
    then have "0 < nat (rc_tolerance cfg - en_stallChecks e)" by simp
    from ticks_without_progress [OF assms(1-3) True refl this] assms(5) lt show ?thesis
      by (intro exI [of _ "nat (rc_tolerance cfg - en_stallChecks e)"]) auto
  next
    case False
    let ?n = "countTerminalTasks cfg e"
    have "fires cfg (ticks 1) e = Some (tick_decision cfg ?n (en_active e) (countRunnablePendingTasks cfg e)
        (e\<lparr>en_accounted := ?n, en_sched := STick3 ?n (en_active e) (countRunnablePendingTasks cfg e)\<rparr>))"
      using one_tick_active [OF assms(1-3)] by (simp add: fires_append)
    then show ?thesis using False True assms(2,4)
      by (intro exI [of _ 1])
        (simp add: tick_decision_def Let_def cancelled_as_stalled_def cancelRun_def note_fatal_def)
  qed
next
  case False
  let ?n = "countTerminalTasks cfg e"
  let ?e1 = "e\<lparr>en_accounted := ?n, en_stallChecks := 0, en_lastAccounted := ?n, en_sched := SLoop\<rparr>"
  have tick: "fires cfg one_tick e = Some ?e1"
    using False assms(2) by (simp add: one_tick_active [OF assms(1-3)] tick_decision_def Let_def)
  have n: "countTerminalTasks cfg ?e1 = ?n" by (rule count_terminal_cong) simp
  have "\<exists>e'. fires cfg (ticks (nat (rc_tolerance cfg))) ?e1 = Some e' \<and> cancelled_as_stalled e' \<and>
      en_statuses e' = en_statuses ?e1 \<and> en_workers e' = en_workers ?e1"
  proof (rule ticks_without_progress)
    show "looping cfg ?e1" using assms(3) by (simp add: looping_def)
  qed (use assms n in simp_all)
  then show ?thesis using tick assms(4)
    by (intro exI [of _ "Suc (nat (rc_tolerance cfg))"]) (auto simp: fires_append)
qed

subsection \<open>Where a task can complete\<close>

lemma fire_sched_workers: "fire_sched cfg l e = Some e' \<Longrightarrow> en_workers e' = en_workers e"
proof (cases "(cfg, l, e)" rule: fire_sched.cases)
  case (10 cfg0 e0)
  assume "fire_sched cfg l e = Some e'"
  with 10 have s: "sched_step cfg (en_sched e) e = Some e'" by simp
  show ?thesis
  proof (cases "(cfg, en_sched e, e)" rule: sched_step.cases)
    case (6 cfg1 x a as e1)
    then have "en_sched e = SBusy x (Sig (a # as))" by auto
    with s show ?thesis by (auto dest: do_act_core)
  next
    case (7 cfg1 x h e1)
    then have "en_sched e = SBusy x (Hand h)" by auto
    with s show ?thesis by (auto dest!: handle_step_frame)
  next
    case (4 cfg1 n a r e1)
    then have "en_sched e = STick3 n a r" by auto
    with s show ?thesis by (auto simp: tick_decision_def Let_def note_fatal_def cancelRun_def)
  qed (use s in \<open>auto split: if_splits\<close>)
next
  case (1 cfg0 e0)
  assume "fire_sched cfg l e = Some e'"
  with 1 show ?thesis by (auto simp: dispatch_def writeTaskStatus_def split: bool.splits list.splits)
qed (auto simp: note_fatal_def cancelRun_def split: if_splits bool.splits option.splits spc.splits stage.splits)

lemma do_act_frame: "do_act cfg k a e = Some (new, e') \<Longrightarrow> en_ctxErr e' = en_ctxErr e \<and> en_statuses e' = en_statuses e"
  by (cases "(cfg, k, a, e)" rule: do_act.cases) (auto simp: dec_stream_def dec_state_def split: if_splits)

text \<open>What a step of completion handling does to the statuses.\<close>

lemma handle_step_statuses:
  assumes "handle_step cfg x h e = Some (h', e')"
  shows "en_ctxErr e' = en_ctxErr e \<and> (\<forall>st err syn. h' \<noteq> Some (HBegin st err syn)) \<and>
    (en_statuses e' = en_statuses e \<or> (\<exists>st err syn. h = HBegin st err syn \<and> en_statuses e' = (en_statuses e)(x \<mapsto> st)))"
  using assms
  by (cases "(cfg, x, h, e)" rule: handle_step.cases)
    (auto simp: record_status_def announce_status_def writeTaskStatus_def send_fatal_def Let_def
      split: if_splits dest: do_act_frame)

definition not_completing :: "stage \<Rightarrow> bool" where
  "not_completing st \<longleftrightarrow> (\<forall>err syn. st \<noteq> Hand (HBegin StatusCompleted err syn))"

lemma not_completing_simps [simp]:
  "not_completing (Sig as)" "not_completing Disp" "not_completing Queued" "not_completing Got" "not_completing Active"
  "not_completing Run" "not_completing Left" "not_completing (Hand (HWrite st err old))"
  "not_completing (Hand (HSignal as st err))" "not_completing (Hand (HFatal st err))"
  "not_completing (Hand (HBegin st err syn)) \<longleftrightarrow> st \<noteq> StatusCompleted"
  by (auto simp: not_completing_def)

lemma handle_not_completing: "(\<forall>st err syn. h \<noteq> HBegin st err syn) \<Longrightarrow> not_completing (Hand h)"
  by (auto simp: not_completing_def)

lemma worker_step_statuses:
  assumes "worker_step cfg x st e = Some (st', e')"
  shows "en_ctxErr e' = en_ctxErr e \<and> (\<forall>s. st' = Some s \<longrightarrow> not_completing s \<and> (s = Run \<longrightarrow> st = Active \<and> en_ctxErr e = None \<and> EvTaskStart x \<in> set (en_events e'))) \<and>
    (en_statuses e' = en_statuses e \<or> (\<exists>s err syn. st = Hand (HBegin s err syn) \<and> en_statuses e' = (en_statuses e)(x \<mapsto> s)))"
proof (cases "(cfg, x, st, e)" rule: worker_step.cases)
  case (3 cfg0 x0 h e0)
  with assms obtain h' where h: "handle_step cfg x h e = Some (h', e')"
    and st': "st' = Some (case h' of None \<Rightarrow> Left | Some h'' \<Rightarrow> Hand h'')" by auto
  from handle_step_statuses [OF h] 3 st' show ?thesis
    by (auto split: option.splits intro: handle_not_completing)
qed (use assms in \<open>auto split: option.splits\<close>)

definition uncompleted :: "string \<Rightarrow> engine \<Rightarrow> bool" where
  "uncompleted p e \<longleftrightarrow> en_statuses e p \<noteq> Some StatusCompleted \<and>
     (\<forall>st. en_sched e = SBusy p st \<longrightarrow> not_completing st) \<and>
     (\<forall>i < length (en_workers e). \<forall>st. en_workers e ! i = WBusy p st \<longrightarrow> not_completing st)"

text \<open>One step of a worker, the others being left alone.\<close>

lemma uncompleted_worker:
  assumes u: "uncompleted p e" and e': "en_workers e' = (en_workers e)[i := w]" "en_sched e' = en_sched e"
    and w: "\<And>st. w = WBusy p st \<Longrightarrow> not_completing st" and st: "en_statuses e' p \<noteq> Some StatusCompleted"
  shows "uncompleted p e'"
proof -
  have "not_completing x" if "k < length (en_workers e)" "(en_workers e)[i := w] ! k = WBusy p x" for k x
    using u w that by (cases "k = i") (auto simp: uncompleted_def)
  then show ?thesis using u st by (auto simp: uncompleted_def e')
qed

lemma uncompletedD:
  "uncompleted p e \<Longrightarrow> i < length (en_workers e) \<Longrightarrow> en_workers e ! i = WBusy p (Hand (HBegin st err syn)) \<Longrightarrow> st \<noteq> StatusCompleted"
  "uncompleted p e \<Longrightarrow> en_sched e = SBusy p (Hand (HBegin st err syn)) \<Longrightarrow> st \<noteq> StatusCompleted"
  "uncompleted p e \<Longrightarrow> en_statuses e p \<noteq> Some StatusCompleted"
  unfolding uncompleted_def using not_completing_simps(11) by blast+

lemma uncompleted_fire_worker:
  assumes step: "fire_worker cfg l e = Some e'" and u: "uncompleted p e"
    and res: "\<And>i v. l = WResult i None v \<Longrightarrow> en_workers e ! i \<noteq> WBusy p Run"
  shows "uncompleted p e'"
proof (cases "(cfg, l, e)" rule: fire_worker.cases)
  case (1 cfg0 i e0)
  with step obtain x xs where "e' = set_worker i (WBusy x Got) (e\<lparr>en_queue := xs\<rparr>)" by (auto split: bool.splits list.splits)
  with u show ?thesis by (intro uncompleted_worker [OF u, of _ i "WBusy x Got"]) (auto simp: set_worker_def uncompleted_def)
next
  case (2 cfg0 i e0)
  with step have "e' = set_worker i WStop e" by (auto split: if_splits)
  with u show ?thesis by (intro uncompleted_worker [OF u, of _ i WStop]) (auto simp: set_worker_def uncompleted_def)
next
  case (3 cfg0 i e0)
  with step obtain x st st' e1 where i: "i < length (en_workers e)" "en_workers e ! i = WBusy x st"
    and s: "worker_step cfg x st e = Some (st', e1)"
    and e': "e' = set_worker i (case st' of None \<Rightarrow> WLeaving | Some s \<Rightarrow> WBusy x s) e1"
    by (auto split: if_splits wpc.splits)
  have frame: "en_sched e1 = en_sched e" "en_workers e1 = en_workers e" using worker_step_core [OF s] by blast+
  show ?thesis
  proof (rule uncompleted_worker [OF u, of _ i "case st' of None \<Rightarrow> WLeaving | Some s \<Rightarrow> WBusy x s"])
    show "en_statuses e' p \<noteq> Some StatusCompleted"
      using worker_step_statuses [OF s] uncompletedD(3) [OF u] uncompletedD(1) [OF u i(1)] i(2)
      by (auto simp: e' set_worker_def split: if_splits)
    show "\<And>st. (case st' of None \<Rightarrow> WLeaving | Some s \<Rightarrow> WBusy x s) = WBusy p st \<Longrightarrow> not_completing st"
      using worker_step_statuses [OF s] by (auto split: option.splits)
  qed (simp_all add: e' set_worker_def frame)
next
  case (4 cfg0 i e0)
  with step have "e' = set_worker i WIdle (e\<lparr>en_active := en_active e - 1\<rparr>)" by (auto split: if_splits)
  with u show ?thesis by (intro uncompleted_worker [OF u, of _ i WIdle]) (auto simp: set_worker_def uncompleted_def)
next
  case (5 cfg0 i r v e0)
  with step obtain x where i: "i < length (en_workers e)" "en_workers e ! i = WBusy x Run"
    and e': "e' = set_worker i (WBusy x (fst (task_result cfg x r v e))) (snd (task_result cfg x r v e))"
    by (auto split: if_splits wpc.splits stage.splits prod.splits)
  have "r \<noteq> None" if "x = p" using res [of i v] 5 i that by auto
  then have "final_status r \<noteq> StatusCompleted" if "x = p" using that by (auto simp: final_status_def split: option.splits)
  then show ?thesis
    by (intro uncompleted_worker [OF u, of _ i "WBusy x (fst (task_result cfg x r v e))"])
      (use u in \<open>auto simp: e' set_worker_def task_result_def Let_def uncompleted_def\<close>)
qed (use step in simp_all)

lemma uncompleted_sched:
  assumes u: "uncompleted p e" and w: "en_workers e' = en_workers e"
    and s: "\<And>st. en_sched e' = SBusy p st \<Longrightarrow> not_completing st" and st: "en_statuses e' p \<noteq> Some StatusCompleted"
  shows "uncompleted p e'"
  using u s st by (auto simp: uncompleted_def w)

lemma uncompleted_fire_sched:
  assumes step: "fire_sched cfg l e = Some e'" and u: "uncompleted p e"
  shows "uncompleted p e'"
proof (rule uncompleted_sched [OF u fire_sched_workers [OF step]])
  have "en_statuses e' p \<noteq> Some StatusCompleted \<and> (\<forall>st. en_sched e' = SBusy p st \<longrightarrow> not_completing st)"
  proof (cases "(cfg, l, e)" rule: fire_sched.cases)
    case (1 cfg0 e0)
    with step uncompletedD(3) [OF u] u show ?thesis
      by (auto simp: dispatch_def writeTaskStatus_def uncompleted_def split: bool.splits list.splits if_splits)
  next
    case (10 cfg0 e0)
    with step have s: "sched_step cfg (en_sched e) e = Some e'" by simp
    show ?thesis
    proof (cases "(cfg, en_sched e, e)" rule: sched_step.cases)
      case (4 cfg1 n a r e1)
      then have "en_sched e = STick3 n a r" by auto
      with s uncompletedD(3) [OF u] show ?thesis
        by (auto simp: tick_decision_def Let_def note_fatal_def cancelRun_def split: if_splits)
    next
      case (6 cfg1 x a as e1)
      then have "en_sched e = SBusy x (Sig (a # as))" by auto
      with s uncompletedD(3) [OF u] show ?thesis by (auto dest: do_act_frame)
    next
      case (7 cfg1 x h e1)
      then have b: "en_sched e = SBusy x (Hand h)" by auto
      with s obtain h' e2 where h: "handle_step cfg x h e = Some (h', e2)"
        and e': "e' = e2\<lparr>en_sched := (case h' of None \<Rightarrow> SLoop | Some h'' \<Rightarrow> SBusy x (Hand h''))\<rparr>" by auto
      from handle_step_statuses [OF h] uncompletedD(3) [OF u] uncompletedD(2) [OF u] b show ?thesis
        by (auto simp: e' split: option.splits if_splits intro: handle_not_completing)
    qed (use s u in \<open>auto simp: uncompleted_def split: if_splits\<close>)
  qed (use step u in \<open>auto simp: uncompleted_def note_fatal_def cancelRun_def
         split: if_splits bool.splits option.splits spc.splits stage.splits\<close>)
  then show "\<And>st. en_sched e' = SBusy p st \<Longrightarrow> not_completing st" "en_statuses e' p \<noteq> Some StatusCompleted" by blast+
qed

lemma uncompleted_fire:
  assumes "fire cfg l e = Some e'" and "uncompleted p e"
    and "\<And>i v. l = WResult i None v \<Longrightarrow> en_workers e ! i \<noteq> WBusy p Run"
  shows "uncompleted p e'"
  using assms uncompleted_fire_sched uncompleted_fire_worker by (auto simp: fire_def split: option.splits)

text \<open>A worker enters \<open>ExecuteTask\<close> only before the run's context has ended, and leaves it only by a result.\<close>

lemma fire_run_entered:
  assumes "fire cfg l e = Some e'" and "i < length (en_workers e)" and "en_workers e' ! i = WBusy x Run"
  shows "en_workers e ! i = WBusy x Run \<or>
    en_workers e ! i = WBusy x Active \<and> en_ctxErr e = None \<and> EvTaskStart x \<in> set (en_events e')"
proof (cases "fire_sched cfg l e")
  case None
  with assms(1) have w: "fire_worker cfg l e = Some e'" by (simp add: fire_def)
  then show ?thesis
  proof (cases "(cfg, l, e)" rule: fire_worker.cases)
    case (3 cfg0 k e0)
    with w obtain y st st' e1 where k: "k < length (en_workers e)" "en_workers e ! k = WBusy y st"
      and s: "worker_step cfg y st e = Some (st', e1)"
      and e': "e' = set_worker k (case st' of None \<Rightarrow> WLeaving | Some s \<Rightarrow> WBusy y s) e1"
      by (auto split: if_splits wpc.splits)
    have "en_workers e1 = en_workers e" using worker_step_core [OF s] by blast
    with worker_step_statuses [OF s] k assms(2,3) show ?thesis
      by (cases "i = k") (auto simp: e' set_worker_def split: option.splits)
  qed (use assms(2,3) in \<open>auto simp: set_worker_def task_result_def Let_def nth_list_update
         split: if_splits wpc.splits stage.splits bool.splits list.splits prod.splits\<close>)
next
  case (Some e1)
  with assms fire_sched_workers [OF Some] show ?thesis by (simp add: fire_def)
qed

lemma fire_run_left:
  assumes "fire cfg l e = Some e'" and "i < length (en_workers e)" and "en_workers e ! i = WBusy x Run"
    and "\<forall>r v. l \<noteq> WResult i r v"
  shows "en_workers e' ! i = WBusy x Run"
proof (cases "fire_sched cfg l e")
  case None
  with assms(1) have w: "fire_worker cfg l e = Some e'" by (simp add: fire_def)
  then show ?thesis
  proof (cases "(cfg, l, e)" rule: fire_worker.cases)
    case (3 cfg0 k e0)
    with w obtain y st st' e1 where k: "k < length (en_workers e)" "en_workers e ! k = WBusy y st"
      and s: "worker_step cfg y st e = Some (st', e1)"
      and e': "e' = set_worker k (case st' of None \<Rightarrow> WLeaving | Some s \<Rightarrow> WBusy y s) e1"
      by (auto split: if_splits wpc.splits)
    have "en_workers e1 = en_workers e" using worker_step_core [OF s] by blast
    with s k assms(2,3) show ?thesis by (cases "i = k") (auto simp: e' set_worker_def)
  qed (use assms(2-4) in \<open>auto simp: set_worker_def task_result_def Let_def nth_list_update
         split: if_splits wpc.splits stage.splits bool.splits list.splits prod.splits\<close>)
next
  case (Some e1)
  with assms fire_sched_workers [OF Some] show ?thesis by (simp add: fire_def)
qed

text \<open>The context stays ended.\<close>

lemma fire_ctx_kept:
  assumes "fire cfg l e = Some e'" and "en_ctxErr e \<noteq> None"
  shows "en_ctxErr e' \<noteq> None"
proof (cases "fire_sched cfg l e")
  case None
  with assms(1) have w: "fire_worker cfg l e = Some e'" by (simp add: fire_def)
  then show ?thesis
    by (cases "(cfg, l, e)" rule: fire_worker.cases)
      (use assms(2) in \<open>auto simp: set_worker_def task_result_def Let_def dest!: worker_step_statuses
         split: if_splits wpc.splits stage.splits bool.splits list.splits prod.splits\<close>)
next
  case (Some e1)
  with assms have s: "fire_sched cfg l e = Some e'" by (simp add: fire_def)
  show ?thesis
  proof (cases "(cfg, l, e)" rule: fire_sched.cases)
    case (10 cfg0 e0)
    with s have s: "sched_step cfg (en_sched e) e = Some e'" by simp
    then show ?thesis
      by (cases "(cfg, en_sched e, e)" rule: sched_step.cases)
        (use assms(2) in \<open>auto simp: tick_decision_def Let_def note_fatal_def cancelRun_def
           dest: do_act_frame handle_step_statuses split: if_splits\<close>)
  qed (use s assms(2) in \<open>auto simp: dispatch_def writeTaskStatus_def note_fatal_def cancelRun_def
         split: if_splits bool.splits option.splits list.splits spc.splits stage.splits\<close>)
qed

subsection \<open>A run with one of its streams\<close>

text \<open>
  The engine together with a stream from task \<open>p\<close> to task \<open>c\<close>, over a channel of capacity \<open>cap\<close>.
  The producer does not loop; its module sends \<open>n\<close> records in one call, one at a time, as
  \<open>test:producer\<close> and \<open>generate:from_list\<close> do, and the deferred close of the channel follows its
  return. A module that fails before its first record returns an error without sending; after that
  only the end of the run's context stops it. A task whose condition is false or whose loop does
  not resolve ends before its instance (\<open>PUnrun\<close>), which has the deferred close, is made. The
  consumer returns without an error only after the closed channel is drained.
\<close>

record pipe =
  pp_engine :: engine
  pp_sent :: nat
  pp_received :: nat
  pp_closed :: bool

datatype pipe_label = PEngine label | PUnrun nat goerr | PSend | PHandOver | PReceive

definition at_work :: "string \<Rightarrow> engine \<Rightarrow> bool" where
  "at_work x e = list_ex (\<lambda>w. w = WBusy x Run) (en_workers e)"

definition worker_at :: "nat \<Rightarrow> engine \<Rightarrow> string option" where
  "worker_at i e = (if i < length (en_workers e) then
     (case en_workers e ! i of WBusy x Run \<Rightarrow> Some x | _ \<Rightarrow> None) else None)"

definition module_returns :: "string \<Rightarrow> string \<Rightarrow> nat \<Rightarrow> nat \<Rightarrow> goerr option \<Rightarrow> pipe \<Rightarrow> bool" where
  "module_returns p c n i r s =
     (if worker_at i (pp_engine s) = Some p then
        (if r = None then pp_sent s = n else pp_sent s = 0 \<or> en_ctxErr (pp_engine s) \<noteq> None)
      else if worker_at i (pp_engine s) = Some c then
        (r = None \<longrightarrow> pp_closed s \<and> pp_received s = pp_sent s)
      else True)"

fun pipe_fire :: "run_cfg \<Rightarrow> string \<Rightarrow> string \<Rightarrow> nat \<Rightarrow> nat \<Rightarrow> pipe_label \<Rightarrow> pipe \<Rightarrow> pipe option" where
  "pipe_fire cfg p c n cap (PEngine (WResult i r v)) s =
     (if module_returns p c n i r s then
        map_option (\<lambda>e. s\<lparr>pp_engine := e, pp_closed := pp_closed s \<or> worker_at i (pp_engine s) = Some p\<rparr>)
          (fire cfg (WResult i r v) (pp_engine s))
      else None)"
| "pipe_fire cfg p c n cap (PEngine l) s = map_option (\<lambda>e. s\<lparr>pp_engine := e\<rparr>) (fire cfg l (pp_engine s))"
| "pipe_fire cfg p c n cap (PUnrun i err) s =
     (if worker_at i (pp_engine s) = Some p \<and> pp_sent s = 0
      then map_option (\<lambda>e. s\<lparr>pp_engine := e\<rparr>) (fire cfg (WResult i (Some err) None) (pp_engine s)) else None)"
| "pipe_fire cfg p c n cap PSend s =
     (if at_work p (pp_engine s) \<and> pp_sent s < n \<and> pp_sent s - pp_received s < cap
      then Some (s\<lparr>pp_sent := pp_sent s + 1\<rparr>) else None)"
| "pipe_fire cfg p c n cap PHandOver s =
     (if at_work p (pp_engine s) \<and> at_work c (pp_engine s) \<and> pp_sent s < n \<and> pp_sent s = pp_received s
      then Some (s\<lparr>pp_sent := pp_sent s + 1, pp_received := pp_received s + 1\<rparr>) else None)"
| "pipe_fire cfg p c n cap PReceive s =
     (if at_work c (pp_engine s) \<and> pp_received s < pp_sent s
      then Some (s\<lparr>pp_received := pp_received s + 1\<rparr>) else None)"

fun pipe_fires :: "run_cfg \<Rightarrow> string \<Rightarrow> string \<Rightarrow> nat \<Rightarrow> nat \<Rightarrow> pipe_label list \<Rightarrow> pipe \<Rightarrow> pipe option" where
  "pipe_fires cfg p c n cap [] s = Some s"
| "pipe_fires cfg p c n cap (l # ls) s =
     (case pipe_fire cfg p c n cap l s of None \<Rightarrow> None | Some s' \<Rightarrow> pipe_fires cfg p c n cap ls s')"

definition pipe_start :: "engine \<Rightarrow> pipe" where
  "pipe_start e = \<lparr>pp_engine = e, pp_sent = 0, pp_received = 0, pp_closed = False\<rparr>"

text \<open>With one worker.\<close>

definition pipe_inv :: "string \<Rightarrow> string \<Rightarrow> nat \<Rightarrow> pipe \<Rightarrow> bool" where
  "pipe_inv p c cap s \<longleftrightarrow> length (en_workers (pp_engine s)) = 1 \<and> pp_received s = 0 \<and> pp_sent s \<le> cap \<and>
     (0 < pp_sent s \<and> en_ctxErr (pp_engine s) = None \<longrightarrow> en_workers (pp_engine s) ! 0 = WBusy p Run) \<and>
     (en_workers (pp_engine s) ! 0 = WBusy c Run \<longrightarrow> pp_sent s = 0) \<and> uncompleted p (pp_engine s)"

lemma at_work_single: "length (en_workers e) = 1 \<Longrightarrow> at_work x e \<longleftrightarrow> en_workers e ! 0 = WBusy x Run"
  by (auto simp: at_work_def length_Suc_conv)

lemma worker_at_Some: "worker_at i e = Some x \<longleftrightarrow> i < length (en_workers e) \<and> en_workers e ! i = WBusy x Run"
  by (auto simp: worker_at_def split: wpc.splits stage.splits)

lemma fire_worker_count: "fire cfg l e = Some e' \<Longrightarrow> length (en_workers e') = length (en_workers e)"
proof -
  assume f: "fire cfg l e = Some e'"
  show ?thesis
  proof (cases "fire_sched cfg l e")
    case None
    with f have w: "fire_worker cfg l e = Some e'" by (simp add: fire_def)
    have "en_workers e1 = en_workers e" if "worker_step cfg x st e = Some (st', e1)" for x st st' e1
      using worker_step_core [OF that] by blast
    with w show ?thesis
      by (cases "(cfg, l, e)" rule: fire_worker.cases)
        (auto simp: set_worker_def task_result_def Let_def
          split: if_splits wpc.splits stage.splits bool.splits list.splits prod.splits)
  next
    case (Some e1)
    with f fire_sched_workers [OF Some] show ?thesis by (simp add: fire_def)
  qed
qed

lemma pipe_inv_engine:
  assumes f: "fire cfg l (pp_engine s) = Some e'" and inv: "pipe_inv p c cap s" and n: "cap < n" and pc: "p \<noteq> c"
    and res: "\<And>i r v. l = WResult i r v \<Longrightarrow> module_returns p c n i r s"
  shows "pipe_inv p c cap (s\<lparr>pp_engine := e'\<rparr>)"
proof -
  let ?e = "pp_engine s"
  have one: "length (en_workers ?e) = 1" and sent: "pp_sent s \<le> cap" using inv by (simp_all add: pipe_inv_def)
  have busy: "\<exists>e0. r = Some e0 \<and> (pp_sent s = 0 \<or> en_ctxErr ?e \<noteq> None)"
    if "l = WResult i r v" "en_workers ?e ! i = WBusy p Run" "i < 1" for i r v
  proof -
    have "worker_at i ?e = Some p" using that one by (simp add: worker_at_Some)
    with res [OF that(1)] sent n show ?thesis by (cases r) (auto simp: module_returns_def)
  qed
  have at_p: "en_workers e' ! 0 = WBusy p Run" if h: "0 < pp_sent s" "en_ctxErr e' = None"
  proof -
    have ctx: "en_ctxErr ?e = None" using fire_ctx_kept [OF f] h(2) by (cases "en_ctxErr ?e") auto
    then have w: "en_workers ?e ! 0 = WBusy p Run" using inv h(1) by (simp add: pipe_inv_def)
    have "\<forall>r v. l \<noteq> WResult 0 r v" using busy [of 0] w ctx h(1) by auto
    with fire_run_left [OF f _ w] one show ?thesis by simp
  qed
  have at_c: "pp_sent s = 0" if "en_workers e' ! 0 = WBusy c Run"
    using fire_run_entered [OF f _ that] one inv pc by (auto simp: pipe_inv_def)
  have un: "uncompleted p e'"
  proof (rule uncompleted_fire [OF f])
    show "uncompleted p ?e" using inv by (simp add: pipe_inv_def)
    show "en_workers ?e ! i \<noteq> WBusy p Run" if "l = WResult i None v" for i v
    proof
      assume w: "en_workers ?e ! i = WBusy p Run"
      have "i < 1"
      proof (rule ccontr)
        assume "\<not> i < 1"
        with f that one show False by (simp add: fire_def)
      qed
      with busy [OF that w] show False by simp
    qed
  qed
  have "length (en_workers e') = 1" "pp_received s = 0" using one fire_worker_count [OF f] inv by (simp_all add: pipe_inv_def)
  with at_p at_c un sent show ?thesis unfolding pipe_inv_def by (intro conjI impI) simp_all
qed

lemma pipe_inv_step:
  assumes step: "pipe_fire cfg p c n cap l s = Some s'" and inv: "pipe_inv p c cap s" and n: "cap < n" and pc: "p \<noteq> c"
  shows "pipe_inv p c cap s'"
proof (cases l)
  case (PEngine el)
  have "\<exists>e'. fire cfg el (pp_engine s) = Some e' \<and> pp_engine s' = e' \<and> pp_sent s' = pp_sent s \<and> pp_received s' = pp_received s \<and>
      (\<forall>i r v. el = WResult i r v \<longrightarrow> module_returns p c n i r s)"
    using step PEngine by (cases el) (auto split: if_splits)
  then obtain e' where e': "fire cfg el (pp_engine s) = Some e'" "pp_engine s' = e'" "pp_sent s' = pp_sent s"
    "pp_received s' = pp_received s" "\<And>i r v. el = WResult i r v \<Longrightarrow> module_returns p c n i r s" by blast
  have "pipe_inv p c cap (s\<lparr>pp_engine := e'\<rparr>)" by (rule pipe_inv_engine [OF e'(1) inv n pc e'(5)])
  then show ?thesis by (simp add: pipe_inv_def e'(2-4))
next
  case (PUnrun i err)
  with step obtain e' where w: "worker_at i (pp_engine s) = Some p" "pp_sent s = 0"
    and e': "fire cfg (WResult i (Some err) None) (pp_engine s) = Some e'" "s' = s\<lparr>pp_engine := e'\<rparr>"
    by (auto split: if_splits)
  show ?thesis unfolding e'(2) by (rule pipe_inv_engine [OF e'(1) inv n pc]) (simp add: module_returns_def w)
qed (use step inv pc in \<open>auto simp: pipe_inv_def at_work_single split: if_splits\<close>)

lemma pipe_inv_fires:
  assumes "pipe_fires cfg p c n cap ls s = Some s'" and "pipe_inv p c cap s" and "cap < n" and "p \<noteq> c"
  shows "pipe_inv p c cap s'"
  using assms(1,2)
proof (induction ls arbitrary: s)
  case (Cons l ls)
  then obtain t where t: "pipe_fire cfg p c n cap l s = Some t" "pipe_fires cfg p c n cap ls t = Some s'"
    by (auto split: option.splits)
  from Cons.IH [OF t(2) pipe_inv_step [OF t(1) Cons.prems(2) assms(3,4)]] show ?case .
qed simp

lemma pipe_inv_start:
  assumes "rc_pool cfg = 1"
  shows "pipe_inv p c cap (pipe_start (start_state cfg vars ready s ctx))"
  using assms by (auto simp: pipe_inv_def pipe_start_def start_state_def uncompleted_def split: if_splits)

text \<open>The steps of the engine in such a run are steps of the engine.\<close>

lemma pipe_fire_engine:
  "pipe_fire cfg p c n cap l s = Some s' \<Longrightarrow> pp_engine s' = pp_engine s \<or> (\<exists>el. fire cfg el (pp_engine s) = Some (pp_engine s'))"
proof (cases l)
  case (PEngine el)
  assume "pipe_fire cfg p c n cap l s = Some s'"
  with PEngine show ?thesis by (cases el) (auto split: if_splits)
qed (auto split: if_splits)

lemma pipe_fires_engine:
  "pipe_fires cfg p c n cap ls s = Some s' \<Longrightarrow> \<exists>els. fires cfg els (pp_engine s) = Some (pp_engine s')"
proof (induction ls arbitrary: s)
  case Nil
  then show ?case by (intro exI [of _ "[]"]) simp
next
  case (Cons l ls)
  then obtain t where t: "pipe_fire cfg p c n cap l s = Some t" "pipe_fires cfg p c n cap ls t = Some s'"
    by (auto split: option.splits)
  from Cons.IH [OF t(2)] obtain els where els: "fires cfg els (pp_engine t) = Some (pp_engine s')" by blast
  from pipe_fire_engine [OF t(1)] show ?case
  proof
    assume "pp_engine t = pp_engine s"
    with els show ?thesis by auto
  next
    assume "\<exists>el. fire cfg el (pp_engine s) = Some (pp_engine t)"
    then obtain el where "fire cfg el (pp_engine s) = Some (pp_engine t)" by blast
    with els show ?thesis by (intro exI [of _ "el # els"]) simp
  qed
qed

lemma single_worker_stream:
  assumes "permutes (ee_rng ee)" and "ids_ok pb" and l: "launch_playbook ee extract pb = Some (Launched cfg e0 cm)"
    and pool: "ee_pool ee = 1" and n: "cap < n" and pc: "p \<noteq> c" and p: "p \<in> set (task_ids pb)"
    and run: "pipe_fires cfg p c n cap ls (pipe_start e0) = Some s"
  shows "pp_received s = 0 \<and> pp_sent s \<le> cap \<and> en_statuses (pp_engine s) p \<noteq> Some StatusCompleted \<and>
    (en_sched (pp_engine s) = SDone None \<longrightarrow> en_statuses (pp_engine s) p = Some StatusSkipped)"
proof -
  obtain dag ready where cfg: "rc_pool cfg = 1" and e0: "e0 = start_state cfg (Some (pb_Vars pb)) ready (ee_store ee) (ee_ctx ee)"
    using l pool by (auto simp: launch_playbook_def Let_def split: option.splits sum.splits if_splits prod.splits)
  have inv: "pipe_inv p c cap s"
    by (rule pipe_inv_fires [OF run _ n pc]) (simp add: e0 pipe_inv_start [OF cfg])
  obtain els where els: "fires cfg els e0 = Some (pp_engine s)" using pipe_fires_engine [OF run] by (auto simp: pipe_start_def)
  obtain ready' where r: "run_ok cfg ready'" "run_reaches cfg ready' (pp_engine s)" "acyclic (dag_arcs (rc_dag cfg))"
    "dag_of_playbook extract pb (rc_dag cfg)" by (rule launched_run [OF assms(1-3) els])
  have "p \<in> set (keys (rc_dag cfg))" using r(4) p by (auto simp: dag_of_playbook_def in_keys_conv)
  then have ok: "status_is is_ok (pp_engine s) p" if "en_sched (pp_engine s) = SDone None"
    using nil_outcome_all_ok [OF r(1,3,2) that] by blast
  have facts: "pp_received s = 0" "pp_sent s \<le> cap" "uncompleted p (pp_engine s)" using inv by (simp_all add: pipe_inv_def)
  have "en_statuses (pp_engine s) p = Some StatusSkipped" if "en_sched (pp_engine s) = SDone None"
    using ok [OF that] uncompletedD(3) [OF facts(3)] by (auto simp: status_is_def is_ok_def split: option.splits)
  with facts(1,2) uncompletedD(3) [OF facts(3)] show ?thesis by blast
qed

subsection \<open>A producer that does not run\<close>

text \<open>A task runs once: after its worker has left \<open>ExecuteTask\<close> no other enters it.\<close>

definition past :: "string \<Rightarrow> engine \<Rightarrow> bool" where
  "past x e \<longleftrightarrow> EvTaskStart x \<in> set (en_events e) \<and> \<not> at_work x e"

lemma at_work_iff: "at_work x e \<longleftrightarrow> (\<exists>i < length (en_workers e). en_workers e ! i = WBusy x Run)"
  by (auto simp: at_work_def list_ex_iff in_set_conv_nth)

lemma started_iff: "EvTaskStart x \<in> set (en_events e) \<longleftrightarrow> x \<in># c_started (core_of e)"
proof -
  have "x \<in># sum_list (map start_of evs) \<longleftrightarrow> EvTaskStart x \<in> set evs" for evs
  proof (induction evs)
    case (Cons ev evs)
    then show ?case by (cases ev) auto
  qed simp
  then show ?thesis by simp
qed

lemma core_step_started: "core_step cfg c c' \<Longrightarrow> c_started c \<subseteq># c_started c'"
  by (cases rule: core_step.cases) (auto dest: core_act_frame(4))

lemma fire_started: "fire cfg l e = Some e' \<Longrightarrow> EvTaskStart x \<in> set (en_events e) \<Longrightarrow> EvTaskStart x \<in> set (en_events e')"
  unfolding started_iff by (rule mset_subset_eqD [OF core_step_started [OF fire_core]])

lemma run_at_work_started:
  assumes "run_reaches cfg ready e" and "at_work x e"
  shows "EvTaskStart x \<in> set (en_events e)"
  using assms
proof (induction rule: run_induct)
  case (start vars s ctx)
  then show ?case by (auto simp: at_work_iff start_state_def)
next
  case (step e l e')
  then obtain i where i: "i < length (en_workers e')" "en_workers e' ! i = WBusy x Run" by (auto simp: at_work_iff)
  have "i < length (en_workers e)" using i(1) fire_worker_count [OF step.hyps(2)] by simp
  with fire_run_entered [OF step.hyps(2) _ i(2)] step fire_started [OF step.hyps(2), of x] show ?case
    by (auto simp: at_work_iff)
qed

text \<open>What a worker holds is held.\<close>

lemma worker_weight:
  assumes "i < length (en_workers e)" and "en_workers e ! i = WBusy x st"
  shows "f (phase_of st) \<le> wt f (held e) x"
proof -
  from assms obtain R where "held e = add_mset (x, phase_of st) R"
    using held_worker [OF assms(1)] by (metis worker_held.simps(1) add_mset_add_single union_commute)
  then show ?thesis by simp
qed

lemma two_workers_weight:
  assumes "i < length (en_workers e)" and "en_workers e ! i = WBusy x st"
    and "j < length (en_workers e)" and "en_workers e ! j = WBusy x st'" and "i \<noteq> j"
  shows "f (phase_of st) + f (phase_of st') \<le> wt f (held e) x"
proof -
  obtain R where R: "workers_held (en_workers e) = worker_held (en_workers e ! i) + R"
    "workers_held ((en_workers e)[i := WIdle]) = worker_held WIdle + R"
    using workers_held_update [OF assms(1)] by blast
  obtain S where S: "workers_held ((en_workers e)[i := WIdle]) = worker_held ((en_workers e)[i := WIdle] ! j) + S"
    using workers_held_update [of j "(en_workers e)[i := WIdle]"] assms(3) by auto
  have "R = add_mset (x, phase_of st') S" using R(2) S assms(4,5) by simp
  then show ?thesis using R(1) assms(2) by (simp add: held_def)
qed

lemma started_not_entering:
  assumes "run_ok cfg ready" and "run_reaches cfg ready e" and "EvTaskStart x \<in> set (en_events e)"
    and "i < length (en_workers e)"
  shows "en_workers e ! i \<noteq> WBusy x Active"
proof
  assume "en_workers e ! i = WBusy x Active"
  from worker_weight [OF assms(4) this, where f = wait_w] have w: "1 \<le> wt wait_w (held e) x" by simp
  have "start_inv (core_of e)" using run_core_inv [OF assms(1,2)] by (simp add: core_inv_def)
  then have "count (c_started (core_of e)) x + wt wait_w (held e) x \<le> of_bool (en_dispatched e x)"
    by (metis start_invD core_of_fields(2,6))
  moreover have "0 < count (c_started (core_of e)) x" using assms(3) by (simp add: started_iff del: core_of_fields)
  moreover have "of_bool (en_dispatched e x) \<le> (1 :: nat)" by simp
  ultimately show False using w by linarith
qed

lemma past_fire:
  assumes "run_ok cfg ready" and "run_reaches cfg ready e" and f: "fire cfg l e = Some e'" and p: "past x e"
  shows "past x e'"
proof -
  have "en_workers e' ! i \<noteq> WBusy x Run" if "i < length (en_workers e')" for i
  proof
    assume r: "en_workers e' ! i = WBusy x Run"
    have i: "i < length (en_workers e)" using that fire_worker_count [OF f] by simp
    show False using fire_run_entered [OF f i r] started_not_entering [OF assms(1,2) _ i] p i
      by (auto simp: past_def at_work_iff)
  qed
  with fire_started [OF f] p show ?thesis by (auto simp: past_def at_work_iff)
qed

lemma result_past:
  assumes "run_ok cfg ready" and "run_reaches cfg ready e" and f: "fire cfg (WResult i r v) e = Some e'"
    and w: "worker_at i e = Some x"
  shows "past x e'"
proof -
  have i: "i < length (en_workers e)" "en_workers e ! i = WBusy x Run" using w by (simp_all add: worker_at_Some)
  have st: "EvTaskStart x \<in> set (en_events e)"
    by (rule run_at_work_started [OF assms(2)]) (use i in \<open>auto simp: at_work_iff\<close>)
  have "en_workers e' ! j \<noteq> WBusy x Run" if "j < length (en_workers e')" for j
  proof
    assume r: "en_workers e' ! j = WBusy x Run"
    have j: "j < length (en_workers e)" using that fire_worker_count [OF f] by simp
    have "j \<noteq> i" using r f i by (auto simp: fire_def set_worker_def task_result_def Let_def)
    moreover have "en_workers e ! j = WBusy x Run"
      using fire_run_entered [OF f j r] started_not_entering [OF assms(1,2) st j] by blast
    ultimately have "2 \<le> wt pre_w (held e) x" using two_workers_weight [OF i j, where f = pre_w and st' = Run] by simp
    moreover have "token_inv (core_of e)" using run_core_inv [OF assms(1,2)] by (simp add: core_inv_def)
    then have "wt pre_w (held e) x \<le> of_bool (en_dispatched e x)"
      by (metis token_invD core_of_fields(2,6) le_add1)
    moreover have "of_bool (en_dispatched e x) \<le> (1 :: nat)" by simp
    ultimately show False by linarith
  qed
  with fire_started [OF f st] show ?thesis by (auto simp: past_def at_work_iff)
qed

text \<open>The channel is closed only by the producer's module, and until then the consumer does not complete.\<close>

definition close_inv :: "run_cfg \<Rightarrow> string list \<Rightarrow> string \<Rightarrow> string \<Rightarrow> pipe \<Rightarrow> bool" where
  "close_inv cfg ready p c s \<longleftrightarrow> run_reaches cfg ready (pp_engine s) \<and>
     (pp_closed s \<longrightarrow> past p (pp_engine s)) \<and> (pp_closed s \<or> uncompleted c (pp_engine s))"

lemma run_reaches_step: "run_reaches cfg ready e \<Longrightarrow> fire cfg l e = Some e' \<Longrightarrow> run_reaches cfg ready e'"
  unfolding run_reaches_def by (blast intro: reachable.step)

text \<open>An engine step of the machine, with what it does to the channel.\<close>

lemma pipe_engine_step:
  assumes "pipe_fire cfg p c n cap l s = Some s'"
  obtains (same) "pp_engine s' = pp_engine s" "pp_closed s' = pp_closed s" "\<And>i err. l \<noteq> PUnrun i err"
  | (unrun) i err where "l = PUnrun i err" "worker_at i (pp_engine s) = Some p"
      "fire cfg (WResult i (Some err) None) (pp_engine s) = Some (pp_engine s')" "pp_closed s' = pp_closed s"
  | (returns) i r v where "\<And>j err. l \<noteq> PUnrun j err" "worker_at i (pp_engine s) = Some p"
      "fire cfg (WResult i r v) (pp_engine s) = Some (pp_engine s')" "pp_closed s'"
  | (other) el where "fire cfg el (pp_engine s) = Some (pp_engine s')" "pp_closed s' = pp_closed s"
      "\<And>i err. l \<noteq> PUnrun i err"
      "\<And>i r v. el = WResult i r v \<Longrightarrow> worker_at i (pp_engine s) \<noteq> Some p \<and> module_returns p c n i r s"
proof (cases l)
  case (PEngine el)
  show ?thesis
  proof (cases "\<exists>i r v. el = WResult i r v")
    case True
    then obtain i r v where el: "el = WResult i r v" by blast
    with assms PEngine obtain e' where e': "fire cfg el (pp_engine s) = Some e'" "module_returns p c n i r s"
      "s' = s\<lparr>pp_engine := e', pp_closed := pp_closed s \<or> worker_at i (pp_engine s) = Some p\<rparr>" by (auto split: if_splits)
    show ?thesis
    proof (cases "worker_at i (pp_engine s) = Some p")
      case True
      with e' el PEngine show ?thesis by (intro returns) auto
    next
      case False
      with e' el PEngine show ?thesis by (intro other [of el]) auto
    qed
  next
    case False
    then have "pipe_fire cfg p c n cap (PEngine el) s = map_option (\<lambda>e. s\<lparr>pp_engine := e\<rparr>) (fire cfg el (pp_engine s))"
      by (cases el) simp_all
    with assms PEngine False show ?thesis by (intro other [of el]) auto
  qed
next
  case (PUnrun i err)
  with assms show ?thesis by (intro unrun [of i err]) (auto split: if_splits)
qed ((rule same; use assms in \<open>auto split: if_splits\<close>)+)

lemma close_inv_step:
  assumes ok: "run_ok cfg ready" and f: "pipe_fire cfg p c n cap l s = Some s'" and inv: "close_inv cfg ready p c s" and pc: "p \<noteq> c"
  shows "close_inv cfg ready p c s' \<and>
    (\<not> pp_closed s \<and> past p (pp_engine s) \<longrightarrow> \<not> pp_closed s') \<and>
    (\<forall>i err. l = PUnrun i err \<longrightarrow> \<not> pp_closed s' \<and> past p (pp_engine s'))"
proof -
  have reach: "run_reaches cfg ready (pp_engine s)" using inv by (simp add: close_inv_def)
  have at: "\<not> past p (pp_engine s)" if "worker_at i (pp_engine s) = Some p" for i
    using that by (auto simp: worker_at_Some past_def at_work_iff)
  have other_c: "en_workers (pp_engine s) ! i \<noteq> WBusy c Run"
    if "worker_at i (pp_engine s) = Some p" for i using that pc by (auto simp: worker_at_Some)
  from f show ?thesis
  proof (cases rule: pipe_engine_step)
    case same
    with inv show ?thesis by (simp add: close_inv_def)
  next
    case (unrun i err)
    have "\<not> pp_closed s" using at [OF unrun(2)] inv by (auto simp: close_inv_def)
    moreover have "uncompleted c (pp_engine s')"
      by (rule uncompleted_fire [OF unrun(3)]) (use inv \<open>\<not> pp_closed s\<close> in \<open>simp_all add: close_inv_def\<close>)
    moreover have "past p (pp_engine s')" by (rule result_past [OF ok reach unrun(3,2)])
    ultimately show ?thesis using run_reaches_step [OF reach unrun(3)] unrun(4) by (simp add: close_inv_def)
  next
    case (returns i r v)
    then show ?thesis
      using result_past [OF ok reach returns(3,2)] run_reaches_step [OF reach returns(3)] at [OF returns(2)]
      by (simp add: close_inv_def)
  next
    case (other el)
    have "uncompleted c (pp_engine s')" if open_: "\<not> pp_closed s"
    proof (rule uncompleted_fire [OF other(1)])
      show "en_workers (pp_engine s) ! i \<noteq> WBusy c Run" if "el = WResult i None v" for i v
      proof
        assume w: "en_workers (pp_engine s) ! i = WBusy c Run"
        have "i < length (en_workers (pp_engine s))" using other(1) that by (auto simp: fire_def split: if_splits)
        with w have "worker_at i (pp_engine s) = Some c" by (simp add: worker_at_Some)
        with other(4) [OF that] \<open>\<not> pp_closed s\<close> pc show False by (simp add: module_returns_def)
      qed
    qed (use inv open_ in \<open>simp add: close_inv_def\<close>)
    then have "pp_closed s \<or> uncompleted c (pp_engine s')" by blast
    then show ?thesis using past_fire [OF ok reach other(1), of p] run_reaches_step [OF reach other(1)] other(2,3) inv
      by (simp add: close_inv_def)
  qed
qed

lemma close_inv_fires:
  assumes ok: "run_ok cfg ready" and pc: "p \<noteq> c" and run: "pipe_fires cfg p c n cap ls s = Some s'" and inv: "close_inv cfg ready p c s"
  shows "close_inv cfg ready p c s' \<and>
    (\<not> pp_closed s \<and> past p (pp_engine s) \<or> (\<exists>i err. PUnrun i err \<in> set ls) \<longrightarrow> \<not> pp_closed s' \<and> past p (pp_engine s'))"
  using run inv
proof (induction ls arbitrary: s)
  case (Cons l ls)
  then obtain t where t: "pipe_fire cfg p c n cap l s = Some t" "pipe_fires cfg p c n cap ls t = Some s'"
    by (auto split: option.splits)
  note step = close_inv_step [OF ok t(1) Cons.prems(2) pc]
  have "past p (pp_engine t)" if "past p (pp_engine s)"
  proof (cases rule: pipe_fire_engine [OF t(1), THEN disjE])
    case 2
    then obtain el where "fire cfg el (pp_engine s) = Some (pp_engine t)" by blast
    from past_fire [OF ok _ this that] Cons.prems(2) show ?thesis by (simp add: close_inv_def)
  qed (simp add: that)
  with step Cons.IH [OF t(2)] show ?case by auto
qed simp

text \<open>A start of the machine, with the graph of the playbook.\<close>

lemma launched_close_inv:
  assumes "permutes (ee_rng ee)" and "ids_ok pb" and l: "launch_playbook ee extract pb = Some (Launched cfg e0 cm)"
  obtains ready where "run_ok cfg ready" "close_inv cfg ready p c (pipe_start e0)"
    "acyclic (dag_arcs (rc_dag cfg))" "dag_of_playbook extract pb (rc_dag cfg)"
proof -
  have "fires cfg [] e0 = Some e0" by simp
  then obtain ready where r: "run_ok cfg ready" "run_reaches cfg ready e0" "acyclic (dag_arcs (rc_dag cfg))"
    "dag_of_playbook extract pb (rc_dag cfg)" by (rule launched_run [OF assms])
  obtain rdy where "e0 = start_state cfg (Some (pb_Vars pb)) rdy (ee_store ee) (ee_ctx ee)"
    using l by (auto simp: launch_playbook_def Let_def split: option.splits sum.splits if_splits prod.splits)
  then have "uncompleted c e0" by (auto simp: start_state_def uncompleted_def split: if_splits)
  with r that show ?thesis by (simp add: close_inv_def pipe_start_def)
qed

lemma unrun_producer_starves:
  assumes "permutes (ee_rng ee)" and "ids_ok pb" and "launch_playbook ee extract pb = Some (Launched cfg e0 cm)"
    and pc: "p \<noteq> c" and c: "c \<in> set (task_ids pb)" and run: "pipe_fires cfg p c n cap ls (pipe_start e0) = Some s"
    and u: "PUnrun i err \<in> set ls"
  shows "\<not> pp_closed s \<and> en_statuses (pp_engine s) c \<noteq> Some StatusCompleted \<and>
    (en_sched (pp_engine s) = SDone None \<longrightarrow> en_statuses (pp_engine s) c = Some StatusSkipped)"
proof -
  obtain ready where r: "run_ok cfg ready" "close_inv cfg ready p c (pipe_start e0)"
    "acyclic (dag_arcs (rc_dag cfg))" "dag_of_playbook extract pb (rc_dag cfg)"
    by (rule launched_close_inv [OF assms(1-3)])
  from close_inv_fires [OF r(1) pc run r(2)] u have open_: "\<not> pp_closed s" and reach: "run_reaches cfg ready (pp_engine s)"
    and un: "uncompleted c (pp_engine s)" by (auto simp: close_inv_def)
  have "c \<in> set (keys (rc_dag cfg))" using r(4) c by (auto simp: dag_of_playbook_def in_keys_conv)
  then have ok: "status_is is_ok (pp_engine s) c" if "en_sched (pp_engine s) = SDone None"
    using nil_outcome_all_ok [OF r(1,3) reach that] by blast
  have "en_statuses (pp_engine s) c = Some StatusSkipped" if "en_sched (pp_engine s) = SDone None"
    using ok [OF that] uncompletedD(3) [OF un] by (auto simp: status_is_def is_ok_def split: option.splits)
  with open_ uncompletedD(3) [OF un] show ?thesis by blast
qed

subsection \<open>Examples\<close>

text \<open>A stream of three records over a channel of two, from \<open>a\<close> to \<open>b\<close>, with one worker and with two.\<close>

fun pipe_first :: "run_cfg \<Rightarrow> pipe_label list \<Rightarrow> pipe \<Rightarrow> (pipe_label \<times> pipe) option" where
  "pipe_first cfg [] s = None"
| "pipe_first cfg (l # ls) s =
     (case pipe_fire cfg ''a'' ''b'' 3 2 l s of Some s' \<Rightarrow> Some (l, s') | None \<Rightarrow> pipe_first cfg ls s)"

fun pipe_drive :: "run_cfg \<Rightarrow> pipe_label list \<Rightarrow> nat \<Rightarrow> pipe \<Rightarrow> pipe_label list \<times> pipe" where
  "pipe_drive cfg ls 0 s = ([], s)"
| "pipe_drive cfg ls (Suc k) s =
     (case pipe_first cfg ls s of
        None \<Rightarrow> ([], s)
      | Some (l, s') \<Rightarrow> (case pipe_drive cfg ls k s' of (done', t) \<Rightarrow> (l # done', t)))"

lemma pipe_first_fires: "pipe_first cfg ls s = Some (l, s') \<Longrightarrow> pipe_fire cfg ''a'' ''b'' 3 2 l s = Some s'"
  by (induction ls) (auto split: option.splits)

lemma pipe_drive_fires: "pipe_fires cfg ''a'' ''b'' 3 2 (fst (pipe_drive cfg ls k s)) s = Some (snd (pipe_drive cfg ls k s))"
proof (induction k arbitrary: s)
  case (Suc k)
  show ?case
  proof (cases "pipe_first cfg ls s")
    case (Some r)
    obtain l s' where r: "r = (l, s')" by (cases r)
    from Some r pipe_first_fires have "pipe_fire cfg ''a'' ''b'' 3 2 l s = Some s'" by blast
    with Suc.IH [of s'] Some r show ?thesis by (auto split: prod.split)
  qed simp
qed simp

definition pipe_order :: "pipe_label list" where
  "pipe_order = map PEngine [LReady, LStep, LEnqueue, WTake 0, WTake 1, WStep 0, WStep 1] @ [PSend, PReceive] @
     map PEngine [WResult 0 None None, WResult 1 None None, WResult 0 (Some Canceled) None, WLeave 0, WLeave 1, LWaitDone,
       LTick, WQuit 0, WQuit 1]"

definition pipe_launched :: "nat \<Rightarrow> run_cfg \<times> engine" where
  "pipe_launched pool = (case launch_playbook (ex_engine\<lparr>ee_pool := pool\<rparr>) ex_extract ex_loaded of
     Some (Launched cfg e cm) \<Rightarrow> (cfg, e) | _ \<Rightarrow> (ex_cfg, ex_start))"

definition pipe_final :: "nat \<Rightarrow> pipe" where
  "pipe_final pool = snd (pipe_drive (fst (pipe_launched pool)) pipe_order 150 (pipe_start (snd (pipe_launched pool))))"

lemma one_worker_stalls:
  "en_sched (pp_engine (pipe_final 1)) = SDone (Some stalled_error) \<and> pp_sent (pipe_final 1) = 2"
  by code_simp

lemma two_workers_finish:
  "en_sched (pp_engine (pipe_final 2)) = SDone None \<and> pp_received (pipe_final 2) = 3"
  by code_simp

text \<open>With two workers and a producer that is skipped.\<close>

definition unrun_order :: "pipe_label list" where
  "unrun_order = PUnrun 0 (SkippedError ''when'') # pipe_order @ [PEngine (WResult 1 (Some Canceled) None)]"

definition unrun_final :: pipe where
  "unrun_final = snd (pipe_drive (fst (pipe_launched 2)) unrun_order 150 (pipe_start (snd (pipe_launched 2))))"

lemma skipped_producer_stalls:
  "en_sched (pp_engine unrun_final) = SDone (Some stalled_error) \<and> en_statuses (pp_engine unrun_final) ''a'' = Some StatusSkipped"
  by code_simp

text \<open>These are runs of the machine.\<close>

lemma pipe_rng: "permutes (ee_rng (ex_engine\<lparr>ee_pool := k\<rparr>))"
  using ex_engine_rng by simp

lemma pipe_tasks: "''a'' \<in> set (task_ids ex_loaded)" "''b'' \<in> set (task_ids ex_loaded)"
proof -
  have "list_all (\<lambda>x. List.member (task_ids ex_loaded) x) [''a'', ''b'']" by code_simp
  then show "''a'' \<in> set (task_ids ex_loaded)" "''b'' \<in> set (task_ids ex_loaded)" by simp_all
qed

lemma launched_pair:
  assumes "(case launch_playbook (ex_engine\<lparr>ee_pool := k\<rparr>) ex_extract ex_loaded of
    Some r \<Rightarrow> (case r of Launched cfg e cm \<Rightarrow> True | _ \<Rightarrow> False) | None \<Rightarrow> False) = True"
  obtains cm where "launch_playbook (ex_engine\<lparr>ee_pool := k\<rparr>) ex_extract ex_loaded =
    Some (Launched (fst (pipe_launched k)) (snd (pipe_launched k)) cm)"
  using assms by (auto simp: pipe_launched_def split: option.splits launch.splits)

lemma pipe_launches_one:
  "(case launch_playbook (ex_engine\<lparr>ee_pool := 1\<rparr>) ex_extract ex_loaded of
    Some r \<Rightarrow> (case r of Launched cfg e cm \<Rightarrow> True | _ \<Rightarrow> False) | None \<Rightarrow> False) = True"
  by code_simp

lemma pipe_launches_two:
  "(case launch_playbook (ex_engine\<lparr>ee_pool := 2\<rparr>) ex_extract ex_loaded of
    Some r \<Rightarrow> (case r of Launched cfg e cm \<Rightarrow> True | _ \<Rightarrow> False) | None \<Rightarrow> False) = True"
  by code_simp

lemma pipe_launch_one:
  obtains cm where "launch_playbook (ex_engine\<lparr>ee_pool := 1\<rparr>) ex_extract ex_loaded =
    Some (Launched (fst (pipe_launched 1)) (snd (pipe_launched 1)) cm)"
  using launched_pair [OF pipe_launches_one] that by blast

lemma pipe_launch_two:
  obtains cm where "launch_playbook (ex_engine\<lparr>ee_pool := 2\<rparr>) ex_extract ex_loaded =
    Some (Launched (fst (pipe_launched 2)) (snd (pipe_launched 2)) cm)"
  using launched_pair [OF pipe_launches_two] that by blast

lemma unrun_taken:
  "PUnrun 0 (SkippedError ''when'') \<in>
     set (fst (pipe_drive (fst (pipe_launched 2)) unrun_order 150 (pipe_start (snd (pipe_launched 2)))))"
proof -
  have "list_ex (\<lambda>l. l = PUnrun 0 (SkippedError ''when''))
      (fst (pipe_drive (fst (pipe_launched 2)) unrun_order 150 (pipe_start (snd (pipe_launched 2)))))" by code_simp
  then show ?thesis by (auto simp: list_ex_iff)
qed

end
