(* ===== verification/Spec2Isabelle.thy ===== *)
theory Spec2Isabelle
  imports Gxo_Redact Gxo_Reference Gxo_Params Gxo_TaskRun Gxo_JoinConfig Gxo_Main Gxo_Finish Gxo_Modules Gxo_Tracing Gxo_Render Gxo_Observe Gxo_Providers Gxo_Pipeline
begin

text \<open>
  GXO (\<open>github.com/gxo-labs/gxo\<close>) runs playbooks. A YAML text is decoded, validated and given
  internal ids (\<open>internal/config\<close>); the tasks become a graph whose edges are the streams a task
  reads and the registered results its templates mention (\<open>internal/engine/dag.go\<close>,
  \<open>internal/template\<close>); the engine makes a channel for each stream, then schedules the tasks over a
  pool of workers (\<open>internal/engine/engine.go\<close>); a worker runs a task through its condition, its
  loop, its retries and a module (\<open>internal/engine/task_runner.go\<close>, \<open>internal/retry\<close>) and registers
  the summary in the state store (\<open>internal/state\<close>) after the secrets it resolved have been redacted
  (\<open>internal/secrets\<close>); the report and the exit code say how the run ended.

  Theories, in the order they build on each other:
  \<^item> \<open>Gxo_Prelude\<close>: Go maps as association lists, the order of a range over a map as an argument
    (\<open>ranger\<close>, any permutation), the collections \<open>go_simps\<close> and \<open>go_inv\<close>.
  \<^item> \<open>Gxo_Strings\<close>: what the program uses of the package strings, on lists of bytes.
  \<^item> \<open>Gxo_Errors\<close>: \<open>pkg/gxo/v1/errors\<close>, with \<open>errors.Is\<close> and \<open>errors.As\<close> over the chain.
  \<^item> \<open>Gxo_Values\<close>, \<open>Gxo_Duration\<close>, \<open>Gxo_Floats\<close>: dynamic values, \<open>time.ParseDuration\<close>, float64 as
    exact numbers with rounding as an argument.
  \<^item> \<open>Gxo_Redact\<close>, \<open>Gxo_Secrets\<close>: \<open>internal/template/funcs.go\<close>, \<open>redaction.go\<close>, the secret tracker.
  \<^item> \<open>Gxo_Template\<close>: variable extraction over the syntax tree of text/template, its cache, path
    lookup and the shortcut of \<open>Resolve\<close>; \<open>Gxo_Render\<close>: rendering with the cache of parsed templates.
  \<^item> \<open>Gxo_Config\<close>, \<open>Gxo_Validate\<close>, \<open>Gxo_Load\<close>: the playbook, \<open>ValidatePlaybookStructure\<close> with an
    independent specification \<open>wf_playbook\<close>, \<open>LoadPlaybook\<close>.
  \<^item> \<open>Gxo_Graph\<close>, \<open>Gxo_Dag\<close>: the depth-first search for cycles over any graph (a locale, interpreted
    on the DAG), and \<open>BuildDAG\<close> with the specification \<open>dag_of_playbook\<close>.
  \<^item> \<open>Gxo_Channels\<close>: managed channels, overflow policies, \<open>CreateChannels\<close> and closing, with the
    streams of the graph as the specification \<open>topology\<close>.
  \<^item> \<open>Gxo_State\<close>, \<open>Gxo_Reference\<close>: deep copies, the memory store (a locale for the contract of a
    store, interpreted on it), unflattening, and references to registered results.
  \<^item> \<open>Gxo_Engine\<close>: the run as steps. A state holds the shared variables, the channels and the
    program counter of the scheduler and of each worker; a step is one access to a shared variable
    or channel, or one section under a lock; \<open>fire\<close> computes it and a label names the goroutine and
    the choice of the runtime. \<open>Gxo_Schedule\<close> has an abstract scheduler, an inductive step relation
    over task phases, and the simulation \<open>fire_core\<close>; \<open>Gxo_Progress\<close> its invariants (a task is held
    by one goroutine at most, the counters count the producers that are not done, a ready task is
    on its way); \<open>Gxo_Run\<close> lifts them to every reachable state and adds the wait group and the
    outcome; \<open>Gxo_Report\<close> has the launch, the report and the exit code.
  \<^item> \<open>Gxo_Retry\<close>, \<open>Gxo_Params\<close>: retries and parameter access. \<open>Gxo_Instance\<close>: one instance of a task.
    \<open>Gxo_Loop\<close>: the loop of \<open>ExecuteTask\<close> as a machine, with program counters for the launching
    goroutine and each iteration, the semaphore, the wait group, the mutex sections and the context;
    a list of labels (\<open>loop_label\<close>) is a schedule. Its lemmas give what every schedule computes, a
    bound on its steps, that it is never stuck, and the recording orders that occur. \<open>Gxo_Task\<close>:
    \<open>ExecuteTask\<close> under a schedule; \<open>Gxo_TaskRun\<close>: what it means for the engine, the wait groups of
    producers and looping producers.
    \<open>Gxo_Observe\<close>: the module events and hooks of an instance, with payloads in a heap since the
    two events of an attempt share one map, and the simulation that a task runs the same with them.
  \<^item> \<open>Gxo_Finish\<close>: the deferred end of \<open>RunPlaybook\<close>: report, counted status, events.
  \<^item> \<open>Gxo_Join\<close>, \<open>Gxo_JoinBuild\<close>, \<open>Gxo_JoinSpec\<close>, \<open>Gxo_JoinConfig\<close>: \<open>modules/stream/join\<close>. The first
    holds the operations; the build phase is a step function \<open>build_fire\<close> with one program counter
    per stream, whose invariant and termination measure are in \<open>Gxo_JoinBuild\<close>; \<open>Gxo_JoinSpec\<close>
    specifies the output (\<open>join_rows\<close>: products of the records with equal keys) and \<open>Gxo_JoinConfig\<close>
    has the parameters, the keys and examples.
  \<^item> \<open>Gxo_Modules\<close>: \<open>modules/generate/from_list\<close>, \<open>modules/test/producer\<close>, \<open>modules/passthrough\<close>
    (steps \<open>pass_fire\<close>), \<open>modules/exec\<close> and \<open>internal/command\<close>.
  \<^item> \<open>Gxo_Events\<close>: \<open>internal/events\<close> and \<open>internal/module/registry.go\<close>. \<open>Gxo_Logger\<close>:
    \<open>internal/logger\<close>. \<open>Gxo_Tracing\<close>: \<open>internal/tracing\<close>. \<open>Gxo_Providers\<close>: the environment as a source
    of secrets, the metrics provider, the embedded schema, the hook data of an instance.
  \<^item> \<open>Gxo_Construct\<close>: \<open>NewEngine\<close>, \<open>initMetrics\<close>, the setters and the options of
    \<open>pkg/gxo/v1/api.go\<close>, over a world that holds the engine's settings, the channel managers made so
    far and the Prometheus registries. \<open>Gxo_Main\<close>: \<open>cmd/gxo/main.go\<close>.
  \<^item> \<open>Gxo_Examples\<close>, \<open>Gxo_RunExamples\<close>: concrete playbooks and runs for the witnesses, and runs that
    show surprising behaviour (\<open>generated_id_clash\<close>, \<open>duplicate_input_orphans_channel\<close>,
    \<open>ignored_failure_fails_run\<close>).
  \<^item> \<open>Gxo_Pipeline\<close>: what the worker pool does to long tasks and to streams. \<open>ticks\<close> are ticks of the
    scheduling loop during which nothing ends. \<open>pipe_fire\<close> runs the engine together with the records
    of one stream: its state is the engine's with the counts of records sent and received and the
    closed flag, its labels are the engine's steps and the sends and receives; the module of a
    producer returns when it has sent its records, that of a consumer when the channel is drained
    and closed (\<open>modules/test/producer\<close>, the deferred close in \<open>task_runner.go\<close>).

  The interfaces are locales interpreted on the model: \<open>succ_graph\<close>, \<open>state_store\<close>, \<open>secret_tracker\<close>,
  \<open>secret_source\<close> (on the environment provider),
  \<open>event_bus\<close> (on both buses), \<open>module_registry\<close>, and \<open>user_relation\<close> (what a task does to the state
  its renderer and modules share).

  The properties below are grouped by component. Most are stated on \<open>launch_playbook\<close> and a
  sequence of steps (\<open>fires\<close>), so they hold for every interleaving and every choice of the runtime.
  \<open>BuildDAG\<close> is run with fuel that is proved sufficient (\<open>detectCycle_decides\<close> gives a result for
  every well-formed graph); all other loops are structural.

  Parameters. The order of a range over a map; the YAML decoder, the JSON schema validator and
  semver; the parser and the executor of text/template; the modules a task runs, hooks and
  registry; rounding, \<open>math.Pow\<close> and out-of-range conversions of floats; random numbers; clocks and
  contexts; what registering a Prometheus collector and making an OpenTelemetry exporter do; how a
  process ends; flag parsing, the file system and the signals of the command; \<open>Sprintf\<close> of log lines.

  Not modelled: log lines, tracing spans and metrics inside a run, which nothing reads back; usage
  and version texts; the bytes of error texts produced by libraries. An instance of a task is one
  step of its loop, so the modules of two iterations run one after the other, in any order; a join
  reads the same state for all its records; records are maps that are not nil; modules drain
  unexpected inputs without effect.
\<close>

subsection \<open>From the playbook to the graph\<close>

text \<open>
  C1. A playbook the loader accepts, none of whose names is a generated id, gets a graph exactly
  when its dependencies have no cycle; otherwise the error is the cycle error. So the check of
  undefined stream inputs in the graph builder never fires after loading, whatever templates
  the two renderers see, and a graph that is built has a task that is ready at the start.
\<close>

theorem loaded_playbook_builds:
  assumes "permutes rng" and "permutes rng'"
    and loaded: "LoadPlaybook env rng extract0 yaml hint = Inr pb" and avoid: "names_avoid_index_ids pb"
  shows "if acyclic (depends extract1 pb)
    then \<exists>dag ready. BuildDAG rng' extract1 pb = Some (Inr (dag, ready)) \<and>
      dag_of_playbook extract1 pb dag \<and> set ready = initially_ready extract1 pb \<and> ready \<noteq> []
    else BuildDAG rng' extract1 pb = Some (Inl cycle_error)"
proof -
  obtain p0 where "wf_playbook extract0 p0" and pb0: "pb = assignInternalTaskIDs (p0\<lparr>pb_FilePath := hint\<rparr>)"
    using loaded unfolding LoadPlaybook_Inr [OF assms(1)] by blast
  then have "wf_playbook extract0 (p0\<lparr>pb_FilePath := hint\<rparr>)" by simp
  from this pb0 obtain p where wf: "wf_playbook extract0 p" and pb: "pb = assignInternalTaskIDs p" by (rule that)
  have ids: "ids_ok pb" unfolding pb
    using loaded_ids_ok wf_playbook_names [OF wf] avoid pb by simp
  obtain r where r: "BuildDAG rng' extract1 pb = Some r" "BuildDAG_outcome extract1 pb r"
    using BuildDAG_result [OF assms(2) ids] by blast
  have ne: "pb_Tasks pb \<noteq> []" using wf_playbook_tasks [OF wf] length_assign [of p] pb by (metis length_0_conv)
  have "inputs_defined pb" unfolding pb by (rule loaded_inputs_defined [OF wf])
  show ?thesis
  proof (cases r)
    case (Inl e)
    with r \<open>inputs_defined pb\<close> show ?thesis by (simp add: BuildDAG_outcome_def)
  next
    case (Inr d)
    obtain dag ready where d: "d = (dag, ready)" by (cases d)
    with r Inr have ac: "acyclic (depends extract1 pb)" and dag: "dag_of_playbook extract1 pb dag"
      and ready: "set ready = initially_ready extract1 pb" by (simp_all add: BuildDAG_outcome_def)
    with initially_ready_not_empty [OF dag ac ne] r Inr d show ?thesis by auto
  qed
qed

theorem loaded_playbook_builds_witness:
  "\<exists>dag ready. BuildDAG reversed ex_extract ex_loaded = Some (Inr (dag, ready)) \<and> ready \<noteq> []"
proof -
  have avoid: "names_avoid_index_ids ex_loaded" by (rule names_avoid_named) code_simp
  have acyclic: "acyclic (depends ex_extract ex_loaded)" by (rule ex_dag_facts)
  from loaded_playbook_builds [OF permutes_in_order permutes_reversed ex_load avoid, of ex_extract] acyclic
  show ?thesis by auto
qed

text \<open>
  C2. The graph of a playbook with distinct, non-empty ids has one pending node per task, with
  its resolved policies, the stream producers its inputs name, the state producers its
  templates refer to, counters equal to the numbers of these, and \<open>RequiredBy\<close> as the inverse.
\<close>

theorem BuildDAG_models_playbook:
  assumes "permutes rng" and "ids_ok pb" and "BuildDAG rng extract pb = Some (Inr (dag, ready))"
    and "task \<in> set (pb_Tasks pb)"
  shows "\<exists>n. map_of dag (tk_InternalID task) = Some n \<and> node_of_task extract pb task n \<and>
    (\<forall>c. c \<in> set (nd_RequiredBy n) \<longleftrightarrow>
      tk_InternalID task \<in> set (StreamDependsOn dag c) \<union> set (StateDependsOn dag c))"
proof -
  have dag: "dag_of_playbook extract pb dag" by (rule BuildDAG_ok_cases(1) [OF assms(1-3)])
  with assms(4) obtain n where n: "map_of dag (tk_InternalID task) = Some n" "node_of_task extract pb task n"
    by (auto simp: dag_of_playbook_def)
  have "RequiredBy dag (tk_InternalID task) = nd_RequiredBy n" using n by (simp add: RequiredBy_def)
  moreover have "c \<in> set (RequiredBy dag p) \<longleftrightarrow> p \<in> set (StreamDependsOn dag c) \<union> set (StateDependsOn dag c)" for p c
    using dag by (simp add: dag_of_playbook_def dag_wf_def)
  ultimately show ?thesis using n by metis
qed

theorem BuildDAG_models_playbook_witness:
  "\<exists>n. map_of ex_dag ''a'' = Some n \<and> nd_Status n = StatusPending \<and> set (nd_RequiredBy n) = {''b'', ''c''}"
proof -
  have "pb_Tasks ex_loaded ! 0 \<in> set (pb_Tasks ex_loaded)" "tk_InternalID (pb_Tasks ex_loaded ! 0) = ''a''"
    by (code_simp, code_simp)
  with BuildDAG_models_playbook [OF permutes_in_order ex_ids_ok ex_built, of "pb_Tasks ex_loaded ! 0"]
  obtain n where n: "map_of ex_dag ''a'' = Some n" "node_of_task ex_extract ex_loaded (pb_Tasks ex_loaded ! 0) n"
    by auto
  have "map_option (\<lambda>n. set (nd_RequiredBy n)) (map_of ex_dag ''a'') = Some {''b'', ''c''}" by code_simp
  with n show ?thesis by (simp add: node_of_task_def)
qed

text \<open>
  C3. Cycle detection is right on every well-formed graph, in every order the maps are visited:
  it returns, and reports an error exactly when the dependency relation has a cycle.
\<close>

theorem detectCycle_decides:
  assumes "permutes rng" and "dag_wf dag"
  shows "detectCycle rng dag = Some (if acyclic {(p, c). c \<in> set (RequiredBy dag p)} then None else Some cycle_error)"
  using detectCycle_spec [OF assms] by (simp add: dag_arcs_def)

theorem detectCycle_decides_witness: "detectCycle reversed ex_dag = Some None"
proof -
  have "dag_wf ex_dag" using ex_dag_facts(1) by (simp add: dag_of_playbook_def)
  from detectCycle_decides [OF permutes_reversed this] dag_of_playbook_arcs [OF ex_dag_facts(1)] ex_dag_facts(4)
  show ?thesis by (simp add: dag_arcs_def)
qed

subsection \<open>The scheduler\<close>

text \<open>
  C4. The scheduling protocol: every step of the engine, whichever goroutine makes it, is a step of
  the abstract scheduler, whose tasks move through named phases and whose goroutines are a
  multiset of tasks with their phases.
\<close>

theorem engine_refines_scheduler:
  assumes "fire cfg l e = Some e'"
  shows "core_step cfg (core_of e) (core_of e')"
  using assms by (rule fire_core)

theorem engine_refines_scheduler_witness:
  "core_step (fst ex_launched) (core_of (fst (snd ex_launched)))
     (core_of (the (fire (fst ex_launched) LReady (fst (snd ex_launched)))))"
proof -
  have "(case fire (fst ex_launched) LReady (fst (snd ex_launched)) of None \<Rightarrow> False | Some e \<Rightarrow> True)"
    by code_simp
  then obtain e' where "fire (fst ex_launched) LReady (fst (snd ex_launched)) = Some e'"
    by (auto split: option.splits)
  from engine_refines_scheduler [OF this] this show ?thesis by simp
qed

text \<open>
  C5. In every state a run of a playbook reaches, a task has been started at most once, and only
  after each of its state producers completed or was skipped and each of its stream producers
  was dispatched.
\<close>

theorem tasks_start_once_after_producers:
  assumes "permutes (ee_rng ee)" and "ids_ok pb"
    and "launch_playbook ee extract0 pb = Some (Launched cfg e0 cm)" and "fires cfg ls e0 = Some e"
  shows "length (filter (\<lambda>ev. ev = EvTaskStart x) (en_events e)) \<le> 1 \<and>
    (EvTaskStart x \<in> set (en_events e) \<longrightarrow>
      (\<forall>p \<in> set (StateDependsOn (rc_dag cfg) x). status_is is_ok e p) \<and>
      (\<forall>p \<in> set (StreamDependsOn (rc_dag cfg) x). en_dispatched e p))"
proof -
  obtain ready where r: "run_ok cfg ready" "run_reaches cfg ready e" by (rule launched_run [OF assms])
  have le: "length (filter (\<lambda>ev. ev = EvTaskStart x) (en_events e)) \<le> of_bool (en_dispatched e x)"
    by (rule started_once [OF r])
  moreover have "en_dispatched e x" if "EvTaskStart x \<in> set (en_events e)"
    using that le by (cases "en_dispatched e x") (auto simp: filter_empty_conv)
  ultimately show ?thesis using dispatched_after_producers [OF r, of x]
    by (cases "en_dispatched e x") auto
qed

theorem tasks_start_once_after_producers_witness: "status_is is_ok ex_final ''a''"
proof -
  have "list_ex (\<lambda>ev. ev = EvTaskStart ''c'') (en_events ex_final)"
    "''a'' \<in> set (StateDependsOn (rc_dag (fst ex_launched)) ''c'')"
    by (code_simp, code_simp)
  then have "EvTaskStart ''c'' \<in> set (en_events ex_final)" "''a'' \<in> set (StateDependsOn (rc_dag (fst ex_launched)) ''c'')"
    by (auto simp: list_ex_iff)
  with tasks_start_once_after_producers [OF ex_run, of "''c''"] show ?thesis by blast
qed

text \<open>
  C6. A final status is final: once a task is Completed, Failed or Skipped, no later step of the
  run gives it another status.
\<close>

theorem final_status_is_final:
  assumes "permutes (ee_rng ee)" and "ids_ok pb"
    and "launch_playbook ee extract0 pb = Some (Launched cfg e0 cm)" and "fires cfg ls e0 = Some e"
    and "status_is is_terminal e x" and "fires cfg ls' e = Some e'"
  shows "en_statuses e' x = en_statuses e x"
proof -
  obtain ready where r: "run_ok cfg ready" "run_reaches cfg ready e" by (rule launched_run [OF assms(1-4)])
  from assms(6,5) r(2) show ?thesis
  proof (induction ls' arbitrary: e)
    case (Cons l ls')
    then obtain e1 where e1: "fire cfg l e = Some e1" "fires cfg ls' e1 = Some e'" by (auto split: option.splits)
    then have same: "en_statuses e1 x = en_statuses e x" using final_status_kept [OF r(1)] Cons.prems by blast
    have "run_reaches cfg ready e1" using Cons.prems(3) e1(1) unfolding run_reaches_def by (blast intro: reachable.step)
    with Cons.IH [OF e1(2)] Cons.prems(2) same show ?case by (simp add: status_is_def)
  qed simp
qed

theorem final_status_is_final_witness:
  "map_option (\<lambda>e'. en_statuses e' ''a'') (fires (fst ex_launched) [LCancel Canceled] ex_final) =
     Some (en_statuses ex_final ''a'')"
proof -
  have "status_is is_terminal ex_final ''a''" "en_ctxErr ex_final = None" by (code_simp, code_simp)
  moreover from this(2) obtain e' where "fires (fst ex_launched) [LCancel Canceled] ex_final = Some e'"
    by (simp add: fire_def)
  ultimately show ?thesis using final_status_is_final [OF ex_run, of "''a''" "[LCancel Canceled]"] by simp
qed

text \<open>
  C7. The status table is typed by the graph in every reachable state: exactly the graph's tasks have
  a status, a task that was not dispatched is Pending, a dispatched one is Running or final, and
  no task is ever Ready.
\<close>

theorem status_table_typed:
  assumes "permutes (ee_rng ee)" and "ids_ok pb"
    and "launch_playbook ee extract0 pb = Some (Launched cfg e0 cm)" and "fires cfg ls e0 = Some e"
  shows "case en_statuses e x of
      None \<Rightarrow> x \<notin> set (task_ids pb) \<and> \<not> en_dispatched e x
    | Some st \<Rightarrow> x \<in> set (task_ids pb) \<and>
        (if en_dispatched e x then st = StatusRunning \<or> is_terminal st else st = StatusPending)"
proof -
  obtain ready where r: "run_ok cfg ready" "run_reaches cfg ready e"
    and dag: "dag_of_playbook extract0 pb (rc_dag cfg)" by (rule launched_run [OF assms])
  have "x \<in> set (task_ids pb) \<longleftrightarrow> map_of (rc_dag cfg) x \<noteq> None"
    using dag by (auto simp: dag_of_playbook_def in_keys_conv)
  with status_of_task [OF run_core_inv [OF r], of x] show ?thesis
    by (cases "en_dispatched e x") (auto split: option.splits)
qed

theorem status_table_typed_witness: "''a'' \<in> set (task_ids ex_loaded)"
proof -
  have "status_is is_terminal ex_final ''a''" by code_simp
  with status_table_typed [OF ex_run, of "''a''"] show ?thesis by (auto simp: status_is_def split: option.splits)
qed

text \<open>
  C8. The wait group of running tasks counts exactly the tasks in the hands of the dispatch select,
  the work queue and the workers; so it never goes negative and never exceeds three tasks per
  worker and one.
\<close>

theorem wait_group_exact:
  assumes "permutes (ee_rng ee)" and "ids_ok pb"
    and "launch_playbook ee extract0 pb = Some (Launched cfg e0 cm)" and "fires cfg ls e0 = Some e"
  shows "en_running e = int (in_flight e) \<and> 0 \<le> en_running e \<and> en_running e \<le> 3 * int (rc_pool cfg) + 1 \<and>
    length (en_queue e) \<le> queue_cap cfg"
proof -
  obtain ready where r: "run_reaches cfg ready e" by (rule launched_run [OF assms])
  show ?thesis using run_outcome_inv [OF r] run_wait_group [OF r] run_sizes [OF r]
    by (simp add: outcome_inv_def sizes_ok_def)
qed

theorem wait_group_exact_witness: "en_running ex_final = int (in_flight ex_final)"
  using wait_group_exact [OF ex_run] by simp

text \<open>
  C9. No wake-up is lost: when no goroutine works on a task, the ready channel is empty and no task
  failed, every task of the playbook has completed or was skipped. A pending task of such a
  state always waits for a producer that is not done.
\<close>

theorem nothing_left_behind:
  assumes "permutes (ee_rng ee)" and "ids_ok pb"
    and "launch_playbook ee extract0 pb = Some (Launched cfg e0 cm)" and "fires cfg ls e0 = Some e"
    and "quiet e" and "en_ready e = []"
  shows "((\<forall>x \<in> set (task_ids pb). en_statuses e x \<noteq> Some StatusFailed) \<longrightarrow>
      (\<forall>x \<in> set (task_ids pb). status_is is_ok e x)) \<and>
    (\<forall>d \<in> set (task_ids pb). en_statuses e d = Some StatusPending \<longrightarrow>
      (\<exists>p \<in> set (task_ids pb). d \<in> set (RequiredBy (rc_dag cfg) p) \<and> \<not> status_is is_ok e p))"
proof -
  obtain ready where r: "run_ok cfg ready" "run_reaches cfg ready e" and ac: "acyclic (dag_arcs (rc_dag cfg))"
    and dag: "dag_of_playbook extract0 pb (rc_dag cfg)" by (rule launched_run [OF assms(1-4)])
  have ids: "set (task_ids pb) = set (keys (rc_dag cfg))" using dag by (simp add: dag_of_playbook_def)
  note inv = run_core_inv [OF r]
  note wait = waits_for [OF r(1) inv assms(5,6)]
  have "\<forall>x \<in> set (keys (rc_dag cfg)). status_is is_ok e x"
    if "\<forall>x \<in> set (keys (rc_dag cfg)). en_statuses e x \<noteq> Some StatusFailed"
    using quiet_all_ok [OF r(1) ac inv assms(5) _ wait] that by blast
  moreover have "\<exists>p \<in> set (keys (rc_dag cfg)). d \<in> set (RequiredBy (rc_dag cfg) p) \<and> \<not> status_is is_ok e p"
    if "d \<in> set (keys (rc_dag cfg))" "en_statuses e d = Some StatusPending" for d
    using wait [OF that] by (auto simp: dag_arcs_def)
  ultimately show ?thesis by (simp add: ids)
qed

theorem nothing_left_behind_witness: "status_is is_ok ex_final ''b''"
proof -
  have w: "list_all (\<lambda>w. w = WStop) (en_workers ex_final)" "en_queue ex_final = []" "en_ready ex_final = []"
    by (code_simp, code_simp, code_simp)
  moreover have "list_all (\<lambda>w. w = WStop) ws \<Longrightarrow> workers_held ws = {#}" for ws by (induction ws) auto
  ultimately have "quiet ex_final" using w by (simp add: quiet_iff ex_final_done)
  moreover have "list_all (\<lambda>x. en_statuses ex_final x \<noteq> Some StatusFailed) (task_ids ex_loaded)"
    "''b'' \<in> set (task_ids ex_loaded)" by (code_simp, code_simp)
  ultimately show ?thesis
    using nothing_left_behind [OF ex_run, OF _ w(3)] by (auto simp: list_all_iff)
qed

text \<open>
  C10. The end of a run, its report and the exit code agree: for a run that has ended with outcome
  \<open>r\<close>, the exit code is 0 exactly when \<open>r\<close> is nil, which is exactly when the report says
  Completed, and then every task of the playbook completed or was skipped.
\<close>

theorem run_report_exit_agree:
  assumes "permutes (ee_rng ee)" and "ids_ok pb"
    and "launch_playbook ee extract0 pb = Some (Launched cfg e0 cm)" and "fires cfg ls e0 = Some e"
    and "en_sched e = SDone r" and "permutes order"
  shows "let rep = generateReport order rng kws (maps_of_run cfg timings e) name start stop r in
    (determineExitCode (Some rep) r sig = ExitSuccess \<longleftrightarrow> r = None) \<and>
    (r = None \<longleftrightarrow> rp_OverallStatus rep = ''Completed'') \<and>
    (r = None \<longrightarrow> (\<forall>x \<in> set (task_ids pb). status_is is_ok e x))"
proof -
  obtain ready where r: "run_ok cfg ready" "run_reaches cfg ready e" and ac: "acyclic (dag_arcs (rc_dag cfg))"
    and dag: "dag_of_playbook extract0 pb (rc_dag cfg)" by (rule launched_run [OF assms(1-4)])
  have ids: "set (task_ids pb) = set (keys (rc_dag cfg))" using dag by (simp add: dag_of_playbook_def)
  show ?thesis unfolding Let_def ids ExitSuccess_def
    using finished_run_exit(1,2) [OF r(1) ac r(2) assms(5,6) refl, where rng = rng and kws = kws and
        timings = timings and name = name and start = start and finish = stop]
      finished_run_exit(3) [OF r(1) ac r(2) assms(5,6) refl] by blast
qed

theorem run_report_exit_agree_witness:
  "rp_OverallStatus (generateReport in_order in_order [] (maps_of_run (fst ex_launched) (\<lambda>_. (None, None)) ex_final)
     ''pb'' 0 1 None) = ''Completed''"
  using run_report_exit_agree [OF ex_run ex_final_done permutes_in_order, where rng = in_order and kws = "[]" and timings = "\<lambda>_. (None, None)" and name = "''pb''" and start = 0 and stop = 1]
  by (simp add: Let_def)

text \<open>
  C11. The report counts right: its total is the number of tasks of the playbook, the completed,
  failed and skipped tasks add up to it in every reachable state, and each task's entry is made
  from its status, its recorded error and its times alone, whatever the order of the maps.
\<close>

theorem report_counts_every_task:
  assumes "permutes (ee_rng ee)" and "ids_ok pb"
    and "launch_playbook ee extract0 pb = Some (Launched cfg e0 cm)" and "fires cfg ls e0 = Some e"
    and "permutes order"
  shows "let rm = maps_of_run cfg timings e; rep = generateReport order rng kws rm name start stop err in
    rp_TotalTasks rep = length (task_ids pb) \<and>
    rp_CompletedTasks rep + rp_FailedTasks rep + rp_SkippedTasks rep = rp_TotalTasks rep \<and>
    (\<forall>x. map_of (rp_TaskResults rep) x = map_option (task_result_of rm x) (en_statuses e x))"
proof -
  obtain ready where r: "run_ok cfg ready" "run_reaches cfg ready e"
    and dag: "dag_of_playbook extract0 pb (rc_dag cfg)" by (rule launched_run [OF assms(1-4)])
  have d: "distinct (keys (rc_dag cfg))" "distinct (task_ids pb)" "set (keys (rc_dag cfg)) = set (task_ids pb)"
    using dag assms(2) by (simp_all add: dag_of_playbook_def dag_wf_def gomap_ok_keys ids_ok_def)
  then have len: "length (rc_dag cfg) = length (task_ids pb)"
    by (metis distinct_card keys_def length_map)
  have "map_of (rp_TaskResults (generateReport order rng kws (maps_of_run cfg timings e) name start stop err)) x =
      map_option (task_result_of (maps_of_run cfg timings e) x) (en_statuses e x)" for x
    using generateReport_results [OF assms(5) gomap_ok_run_statuses [OF d(1)]]
      run_status_entry [OF r, of timings x] by simp
  with run_counts [OF r assms(5) refl, of rng kws timings name start stop err] len show ?thesis
    by (simp add: Let_def)
qed

theorem report_counts_every_task_witness:
  "rp_TotalTasks (generateReport in_order in_order [] (maps_of_run (fst ex_launched) (\<lambda>_. (None, None)) ex_final) ''pb'' 0 1 None) = 3"
proof -
  have "length (task_ids ex_loaded) = 3" by code_simp
  with report_counts_every_task [OF ex_run permutes_in_order, where rng = in_order and kws = "[]" and timings = "\<lambda>_. (None, None)" and name = "''pb''" and start = 0 and stop = 1]
  show ?thesis by (simp add: Let_def)
qed

text \<open>
  C12. A long task is taken for a stall. When the scheduling loop waits at its select, some worker is
  active and some task is not done, then after at most one tick more than the stall policy
  tolerates, during which nothing ends, the loop has recorded a fatal error, cancelled the run and
  left; the task that runs is still running.
\<close>

theorem long_task_cancelled:
  assumes "looping cfg e" and "en_active e \<noteq> 0" and "countTerminalTasks cfg e < int (total_tasks cfg)"
    and "0 < rc_tolerance cfg" and "0 \<le> en_stallChecks e"
  shows "\<exists>k e'. int k \<le> rc_tolerance cfg + 1 \<and> fires cfg (ticks k) e = Some e' \<and> en_sched e' = SWait \<and>
    en_firstFatal e' \<noteq> None \<and> en_ctxErr e' \<noteq> None \<and>
    en_statuses e' = en_statuses e \<and> en_workers e' = en_workers e"
  using long_task_is_stalled [OF assms] by (simp add: cancelled_as_stalled_def)

theorem long_task_cancelled_witness:
  "\<exists>k e'. int k \<le> 6 \<and> fires ex_cfg (ticks k) (drive ex_cfg plain_order 12 ex_start) = Some e' \<and>
     en_ctxErr e' \<noteq> None \<and> en_workers e' = [WBusy ''a'' stage.Run]"
proof -
  let ?e = "drive ex_cfg plain_order 12 ex_start"
  have "looping ex_cfg ?e" by code_simp
  moreover have "en_active ?e \<noteq> 0 \<and> countTerminalTasks ex_cfg ?e < int (total_tasks ex_cfg)" by code_simp
  moreover have "0 < rc_tolerance ex_cfg \<and> rc_tolerance ex_cfg + 1 = 6 \<and> 0 \<le> en_stallChecks ?e" by code_simp
  moreover have "en_workers ?e = [WBusy ''a'' stage.Run]" by code_simp
  ultimately show ?thesis using long_task_cancelled [of ex_cfg ?e] by auto
qed





subsection \<open>The loader\<close>

text \<open>
  C15. The validator reports no error exactly for well-formed playbooks: the conditions its checks
  stand for, stated on the playbook without the tables and the order of the scan.
\<close>

theorem validator_exact:
  assumes "permutes rng"
  shows "ValidatePlaybookStructure rng extract0 p = [] \<longleftrightarrow> wf_playbook extract0 p"
  using assms by (rule validate_iff_wf)

theorem validator_exact_witness: "wf_playbook ex_extract ex_playbook"
  using validator_exact [OF permutes_in_order, of ex_extract ex_playbook] ex_valid by simp



text \<open>
  C17. The caches of a renderer are invisible: any sequence of extractions on one renderer answers each
  template with exactly its variables, and any sequence of resolutions gives what \<open>Resolve\<close> without
  a cache of parsed templates gives, errors included.
\<close>

theorem variable_cache_transparent:
  assumes "permutes rng"
  shows "list_all2 (\<lambda>s res. \<exists>vs. res = Inr vs \<and> set vs = set (template_vars parse (GetFuncMap b) s))
      ss (fst (extract_run parse rng ss (NewGoRenderer b))) \<and>
    fst (resolve_run lang b xs []) = map (\<lambda>(s, data). RendererResolve (render_plain lang b) s data) xs"
  using extract_run_spec [OF assms cache_ok_New, of parse b ss] resolve_run_plain [OF templates_ok_Nil, of lang b xs]
  by (simp add: NewGoRenderer_def)

theorem variable_cache_transparent_witness:
  "(\<exists>vs. fst (extract_run (\<lambda>_ _. None) in_order [''x''] (NewGoRenderer False)) = [Inr vs] \<and> vs = []) \<and>
   fst (resolve_run \<lparr>tl_parse = (\<lambda>fm s. Inr s), tl_exec = (\<lambda>t data. Inr t)\<rparr> False [(''x'', VNil), (''x'', VNil)] []) =
     [Inr (VStr ''x''), Inr (VStr ''x'')]"
proof -
  let ?lang = "\<lparr>tl_parse = (\<lambda>fm s. Inr s), tl_exec = (\<lambda>t data. Inr t)\<rparr>"
  have "RendererResolve (render_plain ?lang False) ''x'' VNil = Inr (VStr ''x'')" by code_simp
  then show ?thesis
    using variable_cache_transparent [OF permutes_in_order, of "\<lambda>_ _. None" False "[''x'']" ?lang "[(''x'', VNil), (''x'', VNil)]"]
    by (auto simp: template_vars_def list_all2_Cons1)
qed

subsection \<open>Streams\<close>

text \<open>
  C18. The channel manager wires a graph's streams completely: for every producer, the channels it
  writes are exactly the input channels of its stream dependents, one each, all open and empty
  with the effective policy, and its wait group counts them.
\<close>

theorem CreateChannels_pairs_streams:
  assumes "permutes rng" and "permutes rng'" and "ids_ok pb"
    and "BuildDAG rng extract0 pb = Some (Inr (dag, ready))"
    and "distinct (task_names pb)" and "inputs_distinct pb"
  shows "\<exists>cm' plan. CreateChannels rng' dag cm = Inr cm' \<and> topology cm' plan \<and> distinct plan \<and>
    set plan = {(p, c). p \<in> set (StreamDependsOn dag c)} \<and>
    (\<forall>p j. j \<in> set (outputs_of plan p) \<longleftrightarrow> (\<exists>c. input_channel plan c p j))"
proof -
  note dag = BuildDAG_ok_cases(1) [OF assms(1,3,4)] and defd = BuildDAG_ok_cases(5) [OF assms(1,3,4)]
  obtain cm' where "CreateChannels rng' dag cm = Inr cm'" "topology cm' (stream_plan rng' dag)"
    using CreateChannels_topology [OF assms(2) dag assms(5) defd] by blast
  moreover note distinct_stream_plan [OF assms(2,3) dag assms(5) defd assms(6)]
  ultimately show ?thesis
    using set_stream_plan [OF assms(2) dag assms(5) defd] outputs_paired by blast
qed

theorem CreateChannels_pairs_streams_witness:
  "\<exists>cm' plan. CreateChannels reversed ex_dag (fst (NewChannelManager None)) = Inr cm' \<and> topology cm' plan \<and>
     set plan = {(p, c). p \<in> set (StreamDependsOn ex_dag c)} \<and> distinct plan"
proof -
  have "inputs_distinct ex_loaded" by code_simp
  from CreateChannels_pairs_streams [OF permutes_in_order permutes_reversed ex_ids_ok ex_built ex_names this,
      of "fst (NewChannelManager None)"]
  show ?thesis by blast
qed



subsection \<open>Tasks\<close>







text \<open>
  C23. A producer with a loop over two items or more never returns as long as its context does not end,
  whatever the interleaving of its iterations: each of them closes the outputs, and the second
  close panics. If its module returns from every call, the schedule that runs one item after the
  other ends in that panic.
\<close>

theorem looping_producer_panics:
  fixes tx :: "('v, 's) task_state"
  assumes "topology (tx_cm tx) plan" and "tk_InternalID task \<in> fst ` set plan"
    and "check_when env task tx = (None, tx1)"
    and "resolveLoopItems env (tk_Loop task) (all_state env tx1) (tx_user tx1) = (Inr items, u)" and "2 \<le> length items"
  shows "((\<forall>c. CtxEnds c \<notin> set ls) \<longrightarrow> ExecuteTask env dag task ls tx \<in> {Blocks, Panics}) \<and>
    ((\<forall>scope i (t :: ('v, 's) task_state). \<exists>r t'. instance_body env dag task scope i t = Returns (r, t')) \<longrightarrow>
       ExecuteTask env dag task two_in_turn tx = Panics)"
  using assms by (rule looped_producer_task)

theorem looping_producer_panics_witness:
  "ExecuteTask ex_task_env [] (ex_task\<lparr>tk_Loop := VSlice [VBool True, VBool False]\<rparr>) two_in_turn
     (ex_task_state ex_wired_cm) \<in> {Blocks, Panics}"
proof -
  have t: "topology (tx_cm (ex_task_state ex_wired_cm)) [(''a'', ''b'')]" by (simp add: ex_task_state_def ex_wired)
  have p: "tk_InternalID (ex_task\<lparr>tk_Loop := VSlice [VBool True, VBool False]\<rparr>) \<in> fst ` set [(''a'', ''b'')]"
    and w: "check_when ex_task_env (ex_task\<lparr>tk_Loop := VSlice [VBool True, VBool False]\<rparr>) (ex_task_state ex_wired_cm) =
      (None, ex_task_state ex_wired_cm)"
    by (simp_all add: ex_task_def plain_task_def check_when_def)
  have "DeepCopy (te_ord ex_task_env) (VSlice [VBool True, VBool False]) = VSlice [VBool True, VBool False]"
    by (rule DeepCopy_copyable) (simp_all add: ex_task_env_def)
  then have l: "resolveLoopItems ex_task_env (tk_Loop (ex_task\<lparr>tk_Loop := VSlice [VBool True, VBool False]\<rparr>))
      (all_state ex_task_env (ex_task_state ex_wired_cm)) (tx_user (ex_task_state ex_wired_cm)) =
    (Inr [VBool True, VBool False], NewSecretTracker)"
    by (simp add: resolveLoopItems_def extractItems_def ex_task_state_def)
  have "\<forall>c. CtxEnds c \<notin> set two_in_turn" by (simp add: two_in_turn_def)
  with looping_producer_panics [OF t p w l, of two_in_turn "[]"] show ?thesis by simp
qed







text \<open>
  C27. A loop ends. If its instances return, no schedule panics, every schedule has at most seven steps
  per item and three more, at most as many iterations as the parallelism hold the semaphore, and as
  long as the loop has not ended one of its goroutines can take a step. And the orders in which it
  can record are exactly those \<open>loop_events_ok\<close> describes.
\<close>

theorem loop_ends:
  assumes "instances_return env dag task items J" and "J tx"
  shows "loop_fires env dag task items ls (loop_start tx) \<noteq> Panics \<and>
    (\<forall>s. loop_fires env dag task items ls (loop_start tx) = Returns s \<longrightarrow>
       length ls \<le> 7 * length items + 3 \<and> among holds_sem (lp_iters s) \<le> nat (GetLoopParallel task) \<and>
       (lp_pc s = Ended \<or> can_step env dag task items s)) \<and>
    (\<forall>evs. loop_events_ok (length items) (nat (GetLoopParallel task)) evs \<longleftrightarrow>
       (\<exists>ls s. loop_fires env dag task items ls (loop_start tx) = Returns s \<and> lp_pc s = Ended \<and>
          map event_order (lp_trace s) = map event_order evs))"
  using loop_never_panics [OF assms] loop_progress [OF assms] loop_orders [OF assms] by blast

theorem loop_ends_witness:
  "\<exists>ls s. loop_fires ex_loop_env [] ex_loop_task [VBool True, VBool False] ls (loop_start (ex_task_state ex_plain_cm)) = Returns s \<and>
     lp_pc s = Ended \<and> map event_order (lp_trace s) = [None, Some 0]"
proof -
  have "GetLoopParallel ex_loop_task = 2" by (simp add: GetLoopParallel_def ex_loop_task_def)
  then have "loop_events_ok (length [VBool True, VBool False]) (nat (GetLoopParallel ex_loop_task)) [Stop Canceled, Finish 0 None]"
    by (simp add: loop_events_ok_def windowed_def)
  then show ?thesis using loop_ends [OF ex_loop_returns ex_no_outputs, of "[VBool True, VBool False]"] by auto
qed

subsection \<open>State\<close>

text \<open>
  C28. A registered result can be referenced: a template that is a plain reference to a key resolves
  to the value last stored under the key, with its type, through the unflattened copy of the
  whole state, whatever order the map is walked in, as long as no key's path extends another's.
\<close>

theorem registered_result_resolves:
  assumes "permutes rng" and "orders ord" and "copyable v"
    and "keys_independent (ms_data (store_Set k v s))" and "k \<noteq> []" and "list_all is_path_char k"
  shows "RendererResolve render (''{{ .'' @ k @ '' }}'') (VMap (store_GetAll ord rng (store_Set k v s))) = Inr v"
  using registered_reference [OF assms] by (simp add: reference_def)

theorem registered_result_resolves_witness:
  "RendererResolve (\<lambda>_ _. Inr []) ''{{ .r.x }}'' (VMap (store_GetAll id reversed
     (store_Set ''r.x'' (VInt KInt 7) (store_Set ''r.y'' VNil NewMemoryStateStore)))) = Inr (VInt KInt 7)"
proof -
  have "keys_independent (ms_data (store_Set ''r.x'' (VInt KInt 7) (store_Set ''r.y'' VNil NewMemoryStateStore)))"
    "list_all is_path_char ''r.x''" by (code_simp, code_simp)
  from registered_result_resolves [OF permutes_reversed orders_id _ this(1) _ this(2), of "\<lambda>_ _. Inr []"]
  show ?thesis by simp
qed

subsection \<open>Secrets\<close>





subsection \<open>Retries and parameters\<close>

text \<open>
  C31. A retried operation is called at most the configured number of times and at least never more
  often than one wait apart; no wait is longer than the configured maximum, and with jitter no
  wait is negative, whatever the operation, the context, the random source and the rounding do.
\<close>

theorem retry_bounds:
  shows "rs_calls (Do env c s) \<le> nat (max 1 (ry_Attempts c)) \<and>
    length (rs_waits (Do env c s)) \<le> rs_calls (Do env c s) \<and>
    rs_calls (Do env c s) \<le> length (rs_waits (Do env c s)) + 1 \<and>
    (ry_MaxDelay c > 0 \<longrightarrow> (\<forall>w \<in> set (rs_waits (Do env c s)). w \<le> ry_MaxDelay c)) \<and>
    (float_gt (ry_Jitter (normalise c)) 0 \<longrightarrow> (\<forall>w \<in> set (rs_waits (Do env c s)). w \<ge> 0))"
proof -
  let ?c = "normalise c"
  note b = retry_loop_bounds [of 1 "[]" env ?c "nat (ry_Attempts ?c)" None s]
  have max: "\<forall>w \<in> set (rs_waits (Do env c s)). w \<le> ry_MaxDelay c" if "ry_MaxDelay c > 0"
    unfolding Do_def Let_def by (rule retry_loop_waits) (use that wait_delay_max [of ?c] in \<open>simp_all add: normalise_fields(4)\<close>)
  have jit: "\<forall>w \<in> set (rs_waits (Do env c s)). w \<ge> 0" if "float_gt (ry_Jitter ?c) 0"
    unfolding Do_def Let_def
    by (rule retry_loop_waits) (use that wait_delay_jitter_nonneg [of ?c] in \<open>simp_all add: normalise_fields(4)\<close>)
  show ?thesis using b max jit by (simp add: Do_def Let_def normalise_fields(5))
qed

theorem retry_bounds_witness:
  "rs_calls (Do (perform_env ex_task_env 0 [] [] []) ((task_retry ex_task)\<lparr>ry_Attempts := 3, ry_MaxDelay := 5\<rparr>)
     (NewSecretTracker, [], VNil)) \<le> 3"
  using retry_bounds [of "perform_env ex_task_env 0 [] [] []" "(task_retry ex_task)\<lparr>ry_Attempts := 3, ry_MaxDelay := 5\<rparr>"
      "(NewSecretTracker, [], VNil)"] by simp

text \<open>
  C32. Without a cancelled context and with retrying on, \<open>Do\<close> is the search for the first successful
  attempt: it returns nil after exactly that many calls with the state the operation left, or,
  when every attempt fails, the last error redacted.
\<close>

theorem retry_until_first_success:
  assumes "\<And>k. re_ctxBefore env k = None" and "\<And>k. re_ctxWait env k = None" and "ry_OnError c"
    and "n = nat (max 1 (ry_Attempts c))"
  shows "case first_success env s 1 n of
      Some k \<Rightarrow> rs_err (Do env c s) = None \<and> rs_calls (Do env c s) = k \<and> rs_state (Do env c s) = op_state env s k
    | None \<Rightarrow> rs_err (Do env c s) = map_option (redacted env) (op_err env s n) \<and> rs_calls (Do env c s) = n \<and>
        rs_state (Do env c s) = op_state env s n"
proof -
  let ?c = "normalise c"
  have n: "nat (ry_Attempts ?c) = n" "ry_Attempts ?c = int n" "1 \<le> n" "ry_OnError ?c"
    using assms(3,4) by (simp_all add: normalise_fields)
  have eq: "Do env c s = retry_loop env ?c n 1 None [] (op_state env s (1 - 1))" by (simp add: Do_def Let_def n(1))
  have "1 + n = Suc n" by simp
  show ?thesis unfolding eq
    by (rule retry_loop_uncancelled [OF assms(1,2) n(4,2) order_refl \<open>1 + n = Suc n\<close> n(3)])
qed

theorem retry_until_first_success_witness:
  "rs_calls (Do \<lparr>re_op = (\<lambda>k s. (if k < 3 then Some Canceled else None, s + 1)), re_ctxBefore = (\<lambda>_. None),
      re_ctxWait = (\<lambda>_. None), re_draw = (\<lambda>_. 0), re_float = te_float ex_task_env, re_rng = in_order, re_keywords = []\<rparr>
    ((task_retry ex_task)\<lparr>ry_Attempts := 5, ry_OnError := True\<rparr>) (0 :: nat)) = 3"
proof -
  let ?e = "\<lparr>re_op = (\<lambda>k s. (if k < 3 then Some Canceled else None, s + 1)), re_ctxBefore = (\<lambda>_. None),
      re_ctxWait = (\<lambda>_. None), re_draw = (\<lambda>_. 0), re_float = te_float ex_task_env, re_rng = in_order,
      re_keywords = []\<rparr> :: nat retry_env"
  have "first_success ?e 0 1 5 = Some 3"
    by (simp add: first_success_step op_err_def)
  with retry_until_first_success [of ?e "(task_retry ex_task)\<lparr>ry_Attempts := 5, ry_OnError := True\<rparr>" 5 0]
  show ?thesis by simp
qed

subsection \<open>The join module\<close>

text \<open>
  C33. What a join computes. With validated parameters, and whatever the interleaving of the goroutines
  that read the build streams and the order of the ranges over maps, a build phase that has
  finished uncancelled and within its limit leads to this output on every output channel: for each
  probe record in order, the product of the build records with its key (in the join types that
  keep unmatched probe records, also without any), then, in a right or outer join, the product for
  each key that no probe record had, the keys in the order of their texts. The summary counts these
  records, the records of both sides, and the records without a key.
\<close>

theorem join_computes:
  assumes "parseAndValidateParams env rngs params inputs = Inr cfg" and "permutes (jr_streams rngs)"
    and "joins env cfg ins probes ls s"
  shows "\<exists>ks st. ordered_keys env cfg ins ks \<and>
    Perform_join env cfg outs probes s = Returns (Inr
      [(''records_joined'', VInt KInt64 (int (length (join_rows env cfg ins probes ks)))),
       (''probe_stream_records'', VInt KInt64 (int (length probes))),
       (''build_stream_records'', VInt KInt64 (int (sum_list (map length ins)))),
       (''skipped_key_errors'', VInt KInt64 (int (bad_records env cfg ins probes)))], st) \<and>
    js_out st = sent outs (join_rows env cfg ins probes ks) \<and> length (js_errs st) = bad_records env cfg ins probes"
  using join_output [OF assms(3)] parse_join_ok [OF assms(1,2)] by (simp add: config_ok_def)

theorem join_computes_witness:
  "\<exists>st m. Perform_join ex_join_env (ex_join_cfg ''inner'') [7] ex_probes (ex_built ''inner'') = Returns (Inr m, st) \<and>
    js_out st = [(7, constructJoinedRecord ex_join_env (ex_join_cfg ''inner'')
      [(''p'', Some [(''k'', VInt KInt 1), (''y'', VStr ''c'')]), (''b'', Some [(''id'', VStr ''1''), (''x'', VStr ''a'')])])]"
proof -
  have p: "permutes (jr_streams ex_join_rngs)" by (simp add: ex_join_rngs_def)
  have b: "jc_buildStreams (ex_join_cfg ''inner'') =
      [\<lparr>jk_StreamName = ''b'', jk_Field = ''id'', jk_Template = [], jk_IsProbe = False, jk_inputChannel = 1\<rparr>]"
    by (simp add: ex_join_cfg_def)
  have rows: "join_rows ex_join_env (ex_join_cfg ''inner'') ex_builds ex_probes ks =
      [constructJoinedRecord ex_join_env (ex_join_cfg ''inner'')
        [(''p'', Some [(''k'', VInt KInt 1), (''y'', VStr ''c'')]), (''b'', Some [(''id'', VStr ''1''), (''x'', VStr ''a'')])]]" for ks
  proof -
    have k: "extractKey ex_join_env (jc_probeStream (ex_join_cfg ''inner'')) [(''k'', VInt KInt 1), (''y'', VStr ''c'')] = Inr (JInt 1)"
      "\<exists>e. extractKey ex_join_env (jc_probeStream (ex_join_cfg ''inner'')) [(''y'', VStr ''d'')] = Inl e"
      "extractKey ex_join_env (hd (jc_buildStreams (ex_join_cfg ''inner''))) [(''id'', VStr ''1''), (''x'', VStr ''a'')] = Inr (JInt 1)"
      "extractKey ex_join_env (hd (jc_buildStreams (ex_join_cfg ''inner''))) [(''id'', VStr ''2''), (''x'', VStr ''b'')] = Inr (JInt 2)"
      by (code_simp, simp add: extractKey_def ex_join_cfg_def, code_simp, code_simp)
    have "jc_joinType (ex_join_cfg ''inner'') = ''inner''" "jk_StreamName (jc_probeStream (ex_join_cfg ''inner'')) = ''p''"
      by (simp_all add: ex_join_cfg_def)
    with k inner_join_rows [OF this(1) b, of ex_join_env "hd ex_builds" ex_probes ks] show ?thesis
      by (auto simp: ex_builds_def ex_probes_def b)
  qed
  show ?thesis using join_computes [OF ex_join_parse p ex_joins, of "[7]"] unfolding rows by auto
qed

text \<open>
  C34. The build phase of a join ends: an uncancelled run of its goroutines takes at most five steps
  per record and one per stream, and while it has not finished some goroutine can take a step,
  unless more records have no key than the error channel holds.
\<close>

theorem build_phase_ends:
  assumes run: "build_fires env cfg ls (build_start cfg ins) = Some s" and nc: "JCancel \<notin> set ls"
    and len: "length ins = length (jc_buildStreams cfg)" and nm: "names_distinct cfg"
  shows "length ls \<le> length ins + 5 * sum_list (map length ins) \<and>
    (bad_builds env cfg ins \<le> je_errCap env \<longrightarrow> build_finished s \<or> (\<exists>l s'. l \<noteq> JCancel \<and> build_fire env cfg l s = Some s'))"
proof -
  have inv: "build_inv env cfg ins s" by (rule build_inv_fires [OF run build_inv_start [OF len] nm nc])
  have "filter (\<lambda>l. l \<noteq> JCancel) ls = ls" using nc by (auto simp: filter_id_conv)
  moreover have "sized cfg ins (build_start cfg ins)" using build_inv_start [OF len] by (simp add: build_inv_def)
  ultimately have "int (length ls) \<le> build_measure (build_start cfg ins) - build_measure s"
    using build_steps_bound [OF run] by simp
  moreover have "build_measure s \<ge> 0"
    unfolding build_measure_def tally_def by (intro add_nonneg_nonneg sum_nonneg) (auto split: build_pc.splits simp: pc_weight_nonneg)
  ultimately show ?thesis using build_start_measure [OF len] build_goes_on [OF inv] by auto
qed

theorem build_phase_ends_witness:
  "length ex_build_run \<le> 1 + 5 * 2 \<and> build_finished (ex_built ''inner'')"
proof -
  have "JCancel \<notin> set ex_build_run" by (auto simp: ex_build_run_def)
  moreover have "length ex_builds = length (jc_buildStreams (ex_join_cfg ''inner''))" "names_distinct (ex_join_cfg ''inner'')"
    by (simp_all add: ex_builds_def ex_join_cfg_def names_distinct_def)
  moreover have "build_finished (ex_built ''inner'')" by (simp add: build_finished_def ex_built_def)
  ultimately show ?thesis using build_phase_ends [OF ex_join_built] by (simp add: ex_builds_def)
qed

text \<open>
  C35. Join keys: a signed integer of any width and its decimal text are the same key, and that key
  gives the integer back; an unsigned integer is never the same key as a signed one of the same
  value.
\<close>

theorem join_keys_of_integers:
  assumes "signed_kind k" and "in_int64 i"
  shows "normalizeKey env (VInt k i) = Inr (JInt i) \<and>
    normalizeKey env (VStr (key_text (JInt i))) = Inr (JInt i) \<and>
    (\<forall>u j. normalizeKey env (VInt u j) = Inr (JInt i) \<longleftrightarrow> signed_kind u \<and> j = i)"
  using signed_in_int64_key [OF assms] by (simp add: normalizeKey_def)

theorem join_keys_of_integers_witness:
  "normalizeKey ex_join_env (VStr (key_text (JInt (- 42)))) = Inr (JInt (- 42)) \<and>
   normalizeKey ex_join_env (VInt KUint 5) \<noteq> normalizeKey ex_join_env (VInt KInt 5)"
  using join_keys_of_integers [of KInt "- 42" ex_join_env] join_keys_of_integers [of KInt 5 ex_join_env]
  by (simp add: signed_kind_def in_int64_def)

subsection \<open>The engine and the command\<close>

text \<open>
  C36. The command line. With a metrics registry in which a registered collector stays registered and
  a second one of its name is refused, \<open>runExecuteCommand\<close> returns an exit code only for flags it
  rejects or that ask for the version; with accepted flags it panics, since the option that gives
  the engine its metrics provider registers the collectors and the constructor registers them
  again. And the exit code of a run that has ended is returned only if a signal arrives, since the
  deferred wait for the signal handler comes before the calls that would end it.
\<close>

theorem command_line_run:
  assumes "keeps_collectors has (ne_register (cl_construct env))"
    and "ne_registryOf (cl_construct env) (cl_metrics env) = Some n" and "0 < ne_numCPU (cl_construct env)"
  shows "runExecuteCommand env flags =
      (case check_exec_flags (ne_numCPU (cl_construct env)) flags of Inl exitCode \<Rightarrow> Returns exitCode | Inr f \<Rightarrow> Panics) \<and>
    finish_run env report execErr =
      (if cl_signal env = None \<and> \<not> cl_late env then Blocks else Returns (determineExitCode report execErr (cl_signal env)))"
  using run_command_outcome [OF assms] by (simp add: finish_run_blocks)

theorem command_line_run_witness:
  "runExecuteCommand ex_cli_env ex_flags = Panics \<and>
   runExecuteCommand ex_cli_env (ex_flags\<lparr>xf_logFormat := ''xml''\<rparr>) = Returns ExitUsageError \<and>
   finish_run ex_cli_env None None = Blocks"
proof -
  have h: "keeps_collectors (\<lambda>reg name. name \<in> set reg) (ne_register (cl_construct ex_cli_env))"
    "ne_registryOf (cl_construct ex_cli_env) (cl_metrics ex_cli_env) = Some 15" "0 < ne_numCPU (cl_construct ex_cli_env)"
    using ex_register_keeps by (simp_all add: ex_cli_env_def ex_construct_env_def)
  have "\<exists>f. check_exec_flags (ne_numCPU (cl_construct ex_cli_env)) ex_flags = Inr f"
    "check_exec_flags (ne_numCPU (cl_construct ex_cli_env)) (ex_flags\<lparr>xf_logFormat := ''xml''\<rparr>) = Inl ExitUsageError"
    "cl_signal ex_cli_env = None" "\<not> cl_late ex_cli_env"
    by (simp_all add: check_exec_flags_def ex_flags_def ex_cli_env_def)
  with command_line_run [OF h, of ex_flags None None] command_line_run [OF h, of "ex_flags\<lparr>xf_logFormat := ''xml''\<rparr>"]
  show ?thesis by auto
qed

text \<open>
  C37. An engine \<open>NewEngine\<close> makes from options of the public package has positive workers, stall
  interval and tolerance, a default timeout that is not negative, a valid channel policy and
  lower-case keywords; it has all its services, and its task runner and retry helper use the same
  ones as it does itself.
\<close>

theorem engine_made:
  assumes "NewEngine env hasLog opts regs = Returns (None, w)"
    and "\<forall>opt \<in> set opts. api_option env opt" and "0 < ne_numCPU env"
  shows "limits_ok w \<and> in_step w \<and> all_services w"
  using assms by (rule NewEngine_made)

theorem engine_made_witness:
  "\<exists>w. NewEngine ex_construct_env True ex_options (\<lambda>_. []) = Returns (None, w) \<and> eg_redactedKeywords w = [''token''] \<and>
     limits_ok w \<and> in_step w \<and> all_services w"
proof -
  obtain w where w: "NewEngine ex_construct_env True ex_options (\<lambda>_. []) = Returns (None, w)"
    "eg_redactedKeywords w = [''token'']" using ex_engine by blast
  have "\<forall>opt \<in> set ex_options. api_option ex_construct_env opt"
    by (simp add: ex_options_def api_option_def plain_option.intros)
  with engine_made [OF w(1)] w show ?thesis by (auto simp: ex_construct_env_def)
qed

text \<open>
  C38. Every call of \<open>RunPlaybook\<close> ends with one end event for its report, and the run is counted under
  the report's status, which is \<open>Completed\<close> exactly when there is no error and no failed task; the
  start event is missing exactly when the playbook did not load. A call whose playbook did not
  load reports no task of its own, but as many as the engine's previous run left.
\<close>

theorem every_call_reports:
  assumes "permutes order"
  shows "(let r = RunPlaybook_end order rng kws startTime endTime rm0 loaded body in
      \<exists>ev. re_events r = ev @ [emitFinalEvents (re_report r)] \<and> (ev = [] \<longleftrightarrow> (\<exists>err. loaded = Inl err)) \<and>
        re_counted r = rp_OverallStatus (re_report r) \<and>
        (re_counted r = ''Completed'' \<longleftrightarrow> re_error r = None \<and> rp_FailedTasks (re_report r) = 0)) \<and>
    rp_TotalTasks (re_report (RunPlaybook_end order rng kws startTime endTime rm0 (Inl e) body)) = length (rm_statuses rm0)"
proof (rule conjI)
  show "rp_TotalTasks (re_report (RunPlaybook_end order rng kws startTime endTime rm0 (Inl e) body)) = length (rm_statuses rm0)"
    using generateReport_fields(1) [OF assms] by (simp add: RunPlaybook_end_def conclude_def deferred_report_def Let_def)
qed (unfold Let_def, rule call_reports [OF assms])

theorem every_call_reports_witness:
  "rp_TotalTasks (re_report (RunPlaybook_end in_order in_order [] 0 5 ex_left_maps (Inl (ConfigError ''bad'' None))
     (\<lambda>pb. (ex_left_maps, None)))) = 1"
  using every_call_reports [OF permutes_in_order, of in_order "[]" 0 5 ex_left_maps "Inl (ConfigError ''bad'' None)" "\<lambda>pb. (ex_left_maps, None)"]
  by (auto simp: ex_left_maps_def)

subsection \<open>Modules and events\<close>



text \<open>
  C40. The event bus never blocks its emitter and never delivers out of order: in every history of
  emits, reads by the listener and closing, what the listener was given is a subsequence of what
  was emitted, the buffer stays within its capacity, and the secrets counter has grown by the
  accesses emitted less those still in the buffer and those dropped with a warning. On an
  open bus any number of further emits return; on a closed bus an emit panics.
\<close>

theorem bus_keeps_order:
  assumes "NewChannelEventBus size0 True = Returns c" and "NewMetricsEventListener True (Some n) True = Returns l"
    and "bus_fires ls (bus_start c l) = Some r"
  shows "subseq (br_delivered r) (br_emitted r) \<and> length (cb_buffer (br_bus r)) \<le> cb_capacity c \<and>
    (\<exists>k. ml_counter (br_listener r) = Some (n + k) \<and>
      k + accesses (cb_buffer (br_bus r)) + accesses (cb_dropped (br_bus r)) = accesses (br_emitted r)) \<and>
    (if cb_closed (br_bus r) then Emit event (br_bus r) = Panics
     else \<exists>b'. emit_all Emit es (br_bus r) = Returns b' \<and> \<not> cb_closed b')"
  using bus_delivers [OF assms] channel_bus.emit_all_returns [of "br_bus r" es] by (simp add: Emit_def)

theorem bus_keeps_order_witness:
  "\<exists>c l r. bus_fires [BEmit ex_access, BEmit ex_access, BListen] (bus_start c l) = Some r \<and>
     cb_capacity c = 1 \<and> accesses (cb_dropped (br_bus r)) = 1 \<and> ml_counter (br_listener r) = Some 1"
proof -
  let ?c = "\<lparr>cb_buffer = [], cb_capacity = 1, cb_closed = False, cb_dropped = []\<rparr>"
  let ?l = "\<lparr>ml_counter = Some 0, ml_stopped = False\<rparr>"
  have c: "NewChannelEventBus 1 True = Returns ?c" and l: "NewMetricsEventListener True (Some 0) True = Returns ?l"
    by (simp_all add: NewChannelEventBus_def NewMetricsEventListener_def)
  obtain r where r: "bus_fires [BEmit ex_access, BEmit ex_access, BListen] (bus_start ?c ?l) = Some r"
    and "br_emitted r = [ex_access, ex_access]" "cb_buffer (br_bus r) = []" "cb_dropped (br_bus r) = [ex_access]"
    by (simp add: bus_start_def Emit_def listen_def)
  moreover have "accesses [ex_access] = 1" "accesses [ex_access, ex_access] = 2" by (simp_all add: ex_access_def)
  moreover obtain k where "ml_counter (br_listener r) = Some (0 + k)"
    "k + accesses (cb_buffer (br_bus r)) + accesses (cb_dropped (br_bus r)) = accesses (br_emitted r)"
    using bus_keeps_order [OF c l r] by blast
  ultimately have "bus_fires [BEmit ex_access, BEmit ex_access, BListen] (bus_start ?c ?l) = Some r \<and>
      cb_capacity ?c = 1 \<and> accesses (cb_dropped (br_bus r)) = 1 \<and> ml_counter (br_listener r) = Some 1" by simp
  then show ?thesis by blast
qed

end
